(* ===== verification/Prelude.thy ===== *)
theory Prelude
  imports Complex_Main "HOL-Library.AList" "HOL-Library.Word"
begin

text \<open>
  What every component shares: byte strings and Python's big-endian integer conversions,
  \<open>bytes.hex\<close>/\<open>bytes.fromhex\<close>, dictionaries as association lists in insertion order,
  the exceptions the program raises as one datatype, and the interface of an
  encoder/decoder pair. A fallible function returns \<open>exn + 'a\<close>; a method that changes its
  object and may raise returns the pair of that result and the object it leaves behind,
  because Python keeps the mutations made before a \<open>raise\<close>.
\<close>

unbundle bit_operations_syntax

named_theorems byte_simps \<open>conversions between numbers, bytes and hexadecimal text\<close>
named_theorems dict_simps \<open>lookups in dictionaries after an update, a deletion, an eviction\<close>

section \<open>Types\<close>

type_synonym byte = "8 word"
type_synonym bytes = "byte list"
type_synonym ('k, 'v) dict = "('k \<times> 'v) list"

text \<open>
  The values \<open>json.loads\<close> returns; a float is kept as its literal. What a peer sends is such a
  value, not yet known to have the shape the program expects.
\<close>

datatype json = JNull | JBool bool | JInt int | JFloat string | JStr string
  | JArr "json list" | JObj "(string \<times> json) list"

text \<open>
  The exception classes. A constructor's argument is the datum the message text reports;
  the wording itself is left out.
\<close>

datatype padding_reason = Too_Large nat | No_Prefix | Length_Exceeds
datatype desync_reason = Already_Passed nat | Too_Far_Ahead nat nat
datatype replay_reason = Older_Than_Window nat | Already_Received nat
datatype tamper_reason = Frame_Too_Short | Too_Short_For_Key | Invalid_Flag byte
  | Desync desync_reason | Tag_Mismatch | Invalid_Padding padding_reason
datatype frame_reason = Refusing_To_Send nat | Claimed_Oversize nat | Malformed_Frame
datatype handshake_reason = Unknown_Identity json | Signature_Failed json | Declined_Trust json | Trust_Mismatch

datatype exn = ValueError | JSONDecodeError | UnicodeDecodeError | UnicodeEncodeError | KeyError string | TypeError | AttributeError | OverflowError
  | ConnectionError | TimeoutError | OSError
  | InvalidTag | InvalidSignature
  | PaddingError padding_reason
  | ChainDesync desync_reason
  | ReplayError replay_reason
  | TamperError tamper_reason
  | FrameError frame_reason
  | HandshakeError handshake_reason
  | IdentityMismatchError string string string
  | HistoryUnavailable | PassphraseNeeded | EOFError

text \<open>What an \<open>except ValueError\<close> clause catches: the class and its subclasses.\<close>

definition is_value_error :: "exn \<Rightarrow> bool" where
  "is_value_error e \<longleftrightarrow> e \<in> {ValueError, JSONDecodeError, UnicodeDecodeError, UnicodeEncodeError}"

text \<open>Sequencing of fallible steps: the first exception ends the computation.\<close>

fun bind_exn :: "exn + 'a \<Rightarrow> ('a \<Rightarrow> exn + 'b) \<Rightarrow> exn + 'b" where
  "bind_exn (Inl e) f = Inl e"
| "bind_exn (Inr a) f = f a"

lemma bind_exn_Inr: "bind_exn x f = Inr b \<longleftrightarrow> (\<exists>a. x = Inr a \<and> f a = Inr b)"
  by (cases x) auto

lemma bind_exn_Inl: "bind_exn x f = Inl e \<longleftrightarrow> x = Inl e \<or> (\<exists>a. x = Inr a \<and> f a = Inl e)"
  by (cases x) auto

lemma map_sum_Inr: "map_sum f g x = Inr y \<longleftrightarrow> (\<exists>a. x = Inr a \<and> y = g a)"
  by (cases x) auto

lemma map_sum_Inl: "map_sum f g x = Inl y \<longleftrightarrow> (\<exists>a. x = Inl a \<and> y = f a)"
  by (cases x) auto

lemma map_sum_id_Inl: "map_sum id g x = Inl e \<longleftrightarrow> x = Inl e"
  by (cases x) auto

section \<open>Byte strings\<close>

text \<open>A \<open>b"..."\<close> literal, and \<open>str.encode("utf-8")\<close> of an ASCII string.\<close>

definition ascii :: "string \<Rightarrow> bytes" where
  "ascii s = map of_char s"

lemma length_ascii [simp]: "length (ascii s) = length s"
  by (simp add: ascii_def)

lemma unat_of_char [byte_simps]: "unat (of_char c :: byte) = of_char c"
proof -
  have "(of_char c :: byte) = of_nat (of_char c)"
    by (simp add: of_nat_of_char)
  then show ?thesis by (simp add: unat_of_nat)
qed

lemma of_char_byte_inject [simp]: "(of_char c :: byte) = of_char d \<longleftrightarrow> c = d"
  by (metis of_char_eq_iff unat_of_char)

lemma ascii_inject [simp]: "ascii s = ascii t \<longleftrightarrow> s = t"
  unfolding ascii_def by (rule inj_map_eq_map) (simp add: inj_def)

text \<open>\<open>x.to_bytes(n, "big")\<close>; the exception is Python's for a number that does not fit.\<close>

fun be_bytes :: "nat \<Rightarrow> nat \<Rightarrow> bytes" where
  "be_bytes 0 x = []"
| "be_bytes (Suc n) x = be_bytes n (x div 256) @ [of_nat (x mod 256)]"

definition to_bytes :: "nat \<Rightarrow> nat \<Rightarrow> exn + bytes" where
  "to_bytes n x = (if x < 256 ^ n then Inr (be_bytes n x) else Inl OverflowError)"

text \<open>\<open>int.from_bytes(b, "big")\<close>.\<close>

definition from_bytes :: "bytes \<Rightarrow> nat" where
  "from_bytes b = foldl (\<lambda>acc x. acc * 256 + unat x) 0 b"

lemma length_be_bytes [simp]: "length (be_bytes n x) = n"
  by (induction n arbitrary: x) auto

lemma from_bytes_snoc [byte_simps]: "from_bytes (xs @ [b]) = from_bytes xs * 256 + unat b"
  by (simp add: from_bytes_def)

lemma unat_of_nat_byte [byte_simps]: "unat (of_nat (x mod 256) :: byte) = x mod 256"
  by (simp add: unat_of_nat)

lemma from_be_bytes [byte_simps]: "x < 256 ^ n \<Longrightarrow> from_bytes (be_bytes n x) = x"
proof (induction n arbitrary: x)
  case 0
  then show ?case by (simp add: from_bytes_def)
next
  case (Suc n)
  then have "x div 256 < 256 ^ n"
    by (simp add: less_mult_imp_div_less mult.commute)
  with Suc.IH show ?case by (simp add: byte_simps)
qed

lemma unat_byte_less [byte_simps]: "unat (x :: byte) < 256"
  using unsigned_less [of x] by simp

lemma from_bytes_less: "from_bytes b < 256 ^ length b"
proof (induction b rule: rev_induct)
  case Nil
  then show ?case by (simp add: from_bytes_def)
next
  case (snoc x b)
  have "unat x < 256"
    by (rule unat_byte_less)
  moreover have "from_bytes b + 1 \<le> 256 ^ length b"
    using snoc by simp
  then have "(from_bytes b + 1) * 256 \<le> 256 ^ length b * 256"
    by (rule mult_le_mono1)
  ultimately show ?case by (simp add: from_bytes_snoc)
qed

lemma be_from_bytes [byte_simps]: "be_bytes (length b) (from_bytes b) = b"
proof (induction b rule: rev_induct)
  case Nil
  then show ?case by simp
next
  case (snoc x b)
  have "unat x < 256"
    by (rule unat_byte_less)
  with snoc show ?case by (simp add: byte_simps)
qed

lemma be_bytes_inject: "x < 256 ^ n \<Longrightarrow> y < 256 ^ n \<Longrightarrow> be_bytes n x = be_bytes n y \<longleftrightarrow> x = y"
  by (metis from_be_bytes)

lemma to_bytes_Inr [byte_simps]: "to_bytes n x = Inr b \<longleftrightarrow> x < 256 ^ n \<and> b = be_bytes n x"
  by (auto simp: to_bytes_def)

section \<open>Hexadecimal text\<close>

definition hex_digits :: "string" where
  "hex_digits = ''0123456789abcdef''"

text \<open>\<open>bytes.hex()\<close>.\<close>

fun hex :: "bytes \<Rightarrow> string" where
  "hex [] = ''''"
| "hex (b # bs) = hex_digits ! (unat b div 16) # hex_digits ! (unat b mod 16) # hex bs"

fun hex_value :: "char \<Rightarrow> nat option" where
  "hex_value c =
     (let n = of_char c :: nat
      in if 48 \<le> n \<and> n \<le> 57 then Some (n - 48)
         else if 97 \<le> n \<and> n \<le> 102 then Some (n - 87)
         else if 65 \<le> n \<and> n \<le> 70 then Some (n - 55)
         else None)"

definition ascii_space :: "char \<Rightarrow> bool" where
  "ascii_space c \<longleftrightarrow> (let n = of_char c :: nat in n = 32 \<or> 9 \<le> n \<and> n \<le> 13)"

text \<open>
  \<open>bytes.fromhex(s)\<close>: two digits a byte, white space skipped before each byte, a
  \<open>ValueError\<close> for anything else.
\<close>

fun fromhex :: "string \<Rightarrow> exn + bytes" where
  "fromhex [] = Inr []"
| "fromhex (c # cs) =
     (if ascii_space c then fromhex cs
      else case cs of
        [] \<Rightarrow> Inl ValueError
      | d # ds \<Rightarrow>
          (case (hex_value c, hex_value d) of
             (Some hi, Some lo) \<Rightarrow> map_sum id (\<lambda>bs. of_nat (hi * 16 + lo) # bs) (fromhex ds)
           | _ \<Rightarrow> Inl ValueError))"

lemma hex_value_digit [byte_simps]: "n < 16 \<Longrightarrow> hex_value (hex_digits ! n) = Some n"
proof -
  assume "n < 16"
  then have "n \<in> {0, 1, 2, 3, 4, 5, 6, 7, 8, 9, 10, 11, 12, 13, 14, 15}"
    by (simp only: insert_iff empty_iff) presburger
  then show ?thesis by (auto simp: hex_digits_def)
qed

lemma hex_digit_not_space [byte_simps]: "n < 16 \<Longrightarrow> \<not> ascii_space (hex_digits ! n)"
proof -
  assume "n < 16"
  then have "n \<in> {0, 1, 2, 3, 4, 5, 6, 7, 8, 9, 10, 11, 12, 13, 14, 15}"
    by (simp only: insert_iff empty_iff) presburger
  then show ?thesis by (auto simp: hex_digits_def ascii_space_def)
qed

lemma length_hex [simp]: "length (hex b) = 2 * length b"
  by (induction b) auto

lemma fromhex_hex [byte_simps]: "fromhex (hex b) = Inr b"
proof (induction b)
  case Nil
  then show ?case by simp
next
  case (Cons x b)
  have "unat x < 256"
    by (rule unat_byte_less)
  then have "unat x div 16 < 16" "unat x mod 16 < 16" "unat x div 16 * 16 + unat x mod 16 = unat x"
    by auto
  with Cons show ?case
    by (simp add: byte_simps del: hex_value.simps)
qed

section \<open>Encoders and decoders\<close>

text \<open>
  The contract of every encoder/decoder pair of the program: the decoder undoes the
  encoder. A strict pair accepts nothing but encodings.
\<close>

locale codec =
  fixes enc :: "'a \<Rightarrow> exn + 'b"
    and dec :: "'b \<Rightarrow> exn + 'a"
  assumes dec_enc: "enc a = Inr b \<Longrightarrow> dec b = Inr a"
begin

lemma enc_inject: "enc a = Inr b \<Longrightarrow> enc a' = Inr b \<Longrightarrow> a = a'"
  by (metis dec_enc sum.inject(2))

lemma enc_distinct: "enc a = Inr b \<Longrightarrow> enc a' = Inr b' \<Longrightarrow> a \<noteq> a' \<Longrightarrow> b \<noteq> b'"
  by (metis enc_inject)

end

locale strict_codec = codec +
  assumes enc_dec: "dec b = Inr a \<Longrightarrow> enc a = Inr b"
begin

lemma dec_inject: "dec b = Inr a \<Longrightarrow> dec b' = Inr a \<Longrightarrow> b = b'"
  by (metis enc_dec sum.inject(2))

lemma dec_iff_enc: "dec b = Inr a \<longleftrightarrow> enc a = Inr b"
  by (metis dec_enc enc_dec)

end

text \<open>\<open>int.from_bytes\<close> restricted to the length the program reads.\<close>

definition read_be :: "nat \<Rightarrow> bytes \<Rightarrow> exn + nat" where
  "read_be n b = (if length b = n then Inr (from_bytes b) else Inl ValueError)"

interpretation be: strict_codec "to_bytes n" "read_be n"
  by unfold_locales (auto simp: read_be_def byte_simps from_bytes_less split: if_splits)

interpretation hex: codec "\<lambda>b. Inr (hex b)" fromhex
  by unfold_locales (auto simp: byte_simps)

section \<open>Dictionaries\<close>

text \<open>
  A Python dict is an association list in insertion order: \<open>d.get(k)\<close> is \<open>map_of d k\<close>,
  \<open>d[k] = v\<close> is \<open>AList.update k v d\<close> (in place for an existing key, at the end for a new
  one), \<open>del d[k]\<close> is \<open>AList.delete k d\<close>.
\<close>

abbreviation keys :: "('k, 'v) dict \<Rightarrow> 'k list" where
  "keys d \<equiv> map fst d"

text \<open>
  The eviction both \<open>_evict_excess_skipped\<close> and \<open>_prune_old_recv_chains\<close> do:
  \<open>for key in sorted(d)[:len(d) - bound]: del d[key]\<close>, when the excess is positive.
\<close>

definition evict_lowest :: "nat \<Rightarrow> (nat, 'v) dict \<Rightarrow> (nat, 'v) dict" where
  "evict_lowest bound d =
     (let excess = length d - bound
      in if excess > 0 then fold AList.delete (take excess (sort (keys d))) d else d)"

lemma map_of_dict_delete [dict_simps]: "map_of (AList.delete k d) = (map_of d)(k := None)"
  by (rule AList.delete_conv')

lemma map_of_dict_update [dict_simps]: "map_of (AList.update k v d) = (map_of d)(k \<mapsto> v)"
  by (rule AList.update_conv')

lemma update_fresh: "k \<notin> set (keys d) \<Longrightarrow> AList.update k v d = d @ [(k, v)]"
  by (induction d) auto

lemma map_of_fold_delete [dict_simps]:
  "map_of (fold AList.delete ks d) x = (if x \<in> set ks then None else map_of d x)"
  by (induction ks arbitrary: d) (auto simp: dict_simps)

lemma set_keys_delete [dict_simps]: "set (keys (AList.delete k d)) = set (keys d) - {k}"
  by (auto simp: AList.delete_eq)

lemma set_keys_fold_delete [dict_simps]:
  "set (keys (fold AList.delete ks d)) = set (keys d) - set ks"
proof (induction ks arbitrary: d)
  case Nil
  then show ?case by simp
next
  case (Cons k ks)
  then show ?case by (simp only: fold_Cons comp_apply set_keys_delete) auto
qed

lemma set_keys_update [dict_simps]: "set (keys (AList.update k v d)) = insert k (set (keys d))"
  by (simp add: AList.dom_update)

lemma distinct_fold_delete [simp]: "distinct (keys d) \<Longrightarrow> distinct (keys (fold AList.delete ks d))"
  by (induction ks arbitrary: d) (auto simp: AList.distinct_delete)

lemma evict_lowest_distinct [simp]: "distinct (keys d) \<Longrightarrow> distinct (keys (evict_lowest n d))"
  by (simp add: evict_lowest_def Let_def)

lemma evict_lowest_sub: "set (keys (evict_lowest n d)) \<subseteq> set (keys d)"
  by (auto simp: evict_lowest_def Let_def dict_simps simp del: set_map)

lemma map_of_evict_lowest [dict_simps]:
  "map_of (evict_lowest n d) k =
     (if k \<in> set (take (length d - n) (sort (keys d))) then None else map_of d k)"
  by (simp add: evict_lowest_def Let_def dict_simps)

lemma evict_lowest_Some: "map_of (evict_lowest n d) k = Some v \<Longrightarrow> map_of d k = Some v"
  by (simp add: dict_simps split: if_splits)

lemma evict_lowest_idle [simp]: "length d \<le> n \<Longrightarrow> evict_lowest n d = d"
  by (simp add: evict_lowest_def)

lemma length_keys_distinct: "distinct (keys d) \<Longrightarrow> length d = card (set (keys d))"
  by (metis distinct_card length_map)

lemma length_evict_lowest:
  assumes "distinct (keys d)"
  shows "length (evict_lowest n d) = min n (length d)"
proof (cases "length d \<le> n")
  case True
  then show ?thesis by simp
next
  case False
  let ?ks = "take (length d - n) (sort (keys d))"
  have sub: "set ?ks \<subseteq> set (keys d)"
    using set_take_subset [of "length d - n" "sort (keys d)"] by simp
  have "card (set ?ks) = length d - n"
    using assms by (subst distinct_card) auto
  moreover have "card (set (keys d)) = length d"
    using assms by (simp add: length_keys_distinct del: set_map)
  moreover have "length (evict_lowest n d) = card (set (keys d) - set ?ks)"
    using assms False
    by (simp add: length_keys_distinct evict_lowest_def dict_simps del: set_map)
  ultimately show ?thesis
    using False sub by (simp add: card_Diff_subset del: set_map)
qed

text \<open>The greatest key survives any eviction that keeps at least one entry.\<close>

lemma evict_lowest_keeps_greatest:
  assumes "distinct (keys d)" and "k \<in> set (keys d)" and "\<forall>j \<in> set (keys d). j \<le> k" and "0 < n"
  shows "map_of (evict_lowest n d) k = map_of d k"
proof -
  let ?m = "length d - n" and ?s = "sort (keys d)"
  have "k \<notin> set (take ?m ?s)"
  proof
    assume "k \<in> set (take ?m ?s)"
    then obtain i where i: "i < ?m" "i < length ?s" "?s ! i = k"
      by (auto simp: in_set_conv_nth)
    then have "Suc i < length ?s"
      using assms(4) by simp
    then have "?s ! i \<le> ?s ! Suc i" and "?s ! i \<noteq> ?s ! Suc i" and "?s ! Suc i \<in> set ?s"
      using assms(1) by (simp_all add: sorted_nth_mono nth_eq_iff_index_eq del: set_sort)
    then show False
      using assms(3) i(3) by (auto simp del: set_map)
  qed
  then show ?thesis by (simp add: dict_simps)
qed

end
