(* ===== verification/Sha256.thy ===== *)
theory Sha256
  imports Prelude
begin

text \<open>
  What the program takes from the standard library's \<open>hashlib\<close> and \<open>hmac\<close>: SHA-256 as
  FIPS 180-4 gives it and HMAC as FIPS 198-1 does, on byte strings, executable. A message
  is hashed by its length in bytes, below \<open>2 ^ 61\<close>.
\<close>

type_synonym u32 = "32 word"

section \<open>SHA-256\<close>

text \<open>
  The constants, as the standard explains them: the first 32 bits of the fractional parts of
  the cube and square roots of the first primes. \<open>root_bits k b n 0\<close> is the integer part of
  the \<open>k\<close>-th root of \<open>n\<close>, found bit by bit from bit \<open>b - 1\<close> down.
\<close>

fun root_bits :: "nat \<Rightarrow> nat \<Rightarrow> nat \<Rightarrow> nat \<Rightarrow> nat" where
  "root_bits k 0 n acc = acc"
| "root_bits k (Suc b) n acc =
     (let t = acc + 2 ^ b in root_bits k b n (if t ^ k \<le> n then t else acc))"

definition first_primes :: "nat list" where
  "first_primes =
    [2, 3, 5, 7, 11, 13, 17, 19, 23, 29, 31, 37, 41, 43, 47, 53,
     59, 61, 67, 71, 73, 79, 83, 89, 97, 101, 103, 107, 109, 113, 127, 131,
     137, 139, 149, 151, 157, 163, 167, 173, 179, 181, 191, 193, 197, 199, 211, 223,
     227, 229, 233, 239, 241, 251, 257, 263, 269, 271, 277, 281, 283, 293, 307, 311]"

definition sha_K :: "u32 list" where
  "sha_K = map (\<lambda>p. of_nat (root_bits 3 36 (p * 2 ^ 96) 0)) first_primes"

definition sha_H0 :: "u32 list" where
  "sha_H0 = map (\<lambda>p. of_nat (root_bits 2 37 (p * 2 ^ 64) 0)) (take 8 first_primes)"

definition word_be :: "bytes \<Rightarrow> u32" where
  "word_be b = of_nat (from_bytes b)"

definition be_word :: "u32 \<Rightarrow> bytes" where
  "be_word w = be_bytes 4 (unat w)"

fun chunks :: "nat \<Rightarrow> 'a list \<Rightarrow> 'a list list" where
  "chunks n xs = (if n = 0 \<or> length xs < n then [] else take n xs # chunks n (drop n xs))"

declare chunks.simps [simp del]

definition sha_pad :: "bytes \<Rightarrow> bytes" where
  "sha_pad m =
     m @ [0x80] @ replicate ((119 - length m mod 64) mod 64) 0 @ be_bytes 8 (8 * length m)"

definition small_sigma0 :: "u32 \<Rightarrow> u32" where
  "small_sigma0 x = word_rotr 7 x XOR word_rotr 18 x XOR drop_bit 3 x"

definition small_sigma1 :: "u32 \<Rightarrow> u32" where
  "small_sigma1 x = word_rotr 17 x XOR word_rotr 19 x XOR drop_bit 10 x"

definition big_sigma0 :: "u32 \<Rightarrow> u32" where
  "big_sigma0 x = word_rotr 2 x XOR word_rotr 13 x XOR word_rotr 22 x"

definition big_sigma1 :: "u32 \<Rightarrow> u32" where
  "big_sigma1 x = word_rotr 6 x XOR word_rotr 11 x XOR word_rotr 25 x"

text \<open>The message schedule, newest word first.\<close>

fun extend_schedule :: "nat \<Rightarrow> u32 list \<Rightarrow> u32 list" where
  "extend_schedule 0 ws = ws"
| "extend_schedule (Suc n) ws =
     extend_schedule n
       ((small_sigma1 (ws ! 1) + ws ! 6 + small_sigma0 (ws ! 14) + ws ! 15) # ws)"

definition schedule :: "bytes \<Rightarrow> u32 list" where
  "schedule block = rev (extend_schedule 48 (rev (map word_be (chunks 4 block))))"

fun sha_round :: "u32 \<times> u32 \<Rightarrow> u32 list \<Rightarrow> u32 list" where
  "sha_round (k, w) [a, b, c, d, e, f, g, h] =
     (let t1 = h + big_sigma1 e + ((e AND f) XOR (NOT e AND g)) + k + w;
          t2 = big_sigma0 a + ((a AND b) XOR (a AND c) XOR (b AND c))
      in [t1 + t2, a, b, c, d + t1, e, f, g])"
| "sha_round kw st = st"

definition sha_compress :: "bytes \<Rightarrow> u32 list \<Rightarrow> u32 list" where
  "sha_compress block h = map2 (+) h (fold sha_round (zip sha_K (schedule block)) h)"

text \<open>\<open>hashlib.sha256(m).digest()\<close>.\<close>

definition sha256 :: "bytes \<Rightarrow> bytes" where
  "sha256 m = concat (map be_word (fold sha_compress (chunks 64 (sha_pad m)) sha_H0))"

section \<open>HMAC\<close>

definition hmac_key_block :: "bytes \<Rightarrow> bytes" where
  "hmac_key_block key =
     (let k = if length key > 64 then sha256 key else key
      in k @ replicate (64 - length k) 0)"

text \<open>\<open>hmac.new(key, msg, hashlib.sha256).digest()\<close>.\<close>

definition hmac_sha256 :: "bytes \<Rightarrow> bytes \<Rightarrow> bytes" where
  "hmac_sha256 key msg =
     (let k = hmac_key_block key
      in sha256 (map ((XOR) 0x5c) k @ sha256 (map ((XOR) 0x36) k @ msg)))"

section \<open>Lengths\<close>

lemma length_sha_round [simp]: "length (sha_round kw st) = length st"
  by (induction kw st rule: sha_round.induct) (auto simp: Let_def)

lemma length_fold_sha_round [simp]: "length (fold sha_round kws st) = length st"
  by (induction kws arbitrary: st) auto

lemma length_sha_compress [simp]: "length (sha_compress b h) = length h"
  by (simp add: sha_compress_def)

lemma length_fold_sha_compress [simp]: "length (fold sha_compress bs h) = length h"
  by (induction bs arbitrary: h) auto

lemma length_concat_be_word [simp]: "length (concat (map be_word ws)) = 4 * length ws"
  by (induction ws) (auto simp: be_word_def)

lemma length_sha256 [simp]: "length (sha256 m) = 32"
  by (simp add: sha256_def sha_H0_def first_primes_def)

lemma length_hmac_sha256 [simp]: "length (hmac_sha256 key msg) = 32"
  by (simp add: hmac_sha256_def Let_def)

lemma length_sha_pad: "64 dvd length (sha_pad m)"
proof -
  define r where "r = length m mod 64"
  have len: "length (sha_pad m) = 64 * (length m div 64) + (r + 9 + (119 - r) mod 64)"
    by (simp add: sha_pad_def r_def)
  have "r < 64"
    by (simp add: r_def)
  then consider "r \<le> 55" "(119 - r) mod 64 = 55 - r" | "55 < r" "r < 64" "(119 - r) mod 64 = 119 - r"
    using mod_less [of "119 - r" 64] by (cases "r \<le> 55") (auto simp: mod_if)
  then have "64 dvd r + 9 + (119 - r) mod 64"
    by cases auto
  with len show ?thesis
    by simp
qed

end
