(* ===== verification/Crypto_Utils.thy ===== *)
theory Crypto_Utils
  imports Sha256
begin

text \<open>
  \<open>crypto_utils.py\<close> over the third-party package \<open>cryptography\<close>, which is not part of the
  repository: its operations are the fields of a record that every definition takes as an
  argument, and what the program relies on is stated as named predicates on that record.
  A private key is its raw bytes and a public key object its 32 raw bytes.
\<close>

section \<open>The package's operations\<close>

datatype lib_exn = Lib_ValueError | Lib_OverflowError | Lib_InvalidTag | Lib_InvalidSignature

record cryptolib =
  x_public :: "bytes \<Rightarrow> bytes"
  x_load :: "bytes \<Rightarrow> lib_exn + bytes"
  x_exchange :: "bytes \<Rightarrow> bytes \<Rightarrow> lib_exn + bytes"
  ed_public :: "bytes \<Rightarrow> bytes"
  ed_load :: "bytes \<Rightarrow> lib_exn + bytes"
  ed_sign :: "bytes \<Rightarrow> bytes \<Rightarrow> bytes"
  ed_verify :: "bytes \<Rightarrow> bytes \<Rightarrow> bytes \<Rightarrow> lib_exn + unit"
  hkdf_derive :: "bytes \<Rightarrow> bytes \<Rightarrow> bytes \<Rightarrow> nat \<Rightarrow> bytes"
  scrypt_derive :: "bytes \<Rightarrow> bytes \<Rightarrow> nat \<Rightarrow> bytes"
  gcm_encrypt :: "bytes \<Rightarrow> bytes \<Rightarrow> bytes \<Rightarrow> bytes \<Rightarrow> lib_exn + bytes"
  gcm_decrypt :: "bytes \<Rightarrow> bytes \<Rightarrow> bytes \<Rightarrow> bytes \<Rightarrow> lib_exn + bytes"

fun raise_lib :: "lib_exn \<Rightarrow> exn" where
  "raise_lib Lib_ValueError = ValueError"
| "raise_lib Lib_OverflowError = OverflowError"
| "raise_lib Lib_InvalidTag = InvalidTag"
| "raise_lib Lib_InvalidSignature = InvalidSignature"

abbreviation lift_lib :: "lib_exn + 'a \<Rightarrow> exn + 'a" where
  "lift_lib \<equiv> map_sum raise_lib id"

section \<open>The module's functions\<close>

definition NONCE_SIZE :: nat where
  "NONCE_SIZE = 12"

text \<open>The private key a \<open>generate\<close> call draws is an argument.\<close>

definition generate_x25519_keypair :: "cryptolib \<Rightarrow> bytes \<Rightarrow> bytes \<times> bytes" where
  "generate_x25519_keypair L priv = (priv, x_public L priv)"

definition x25519_public_from_bytes :: "cryptolib \<Rightarrow> bytes \<Rightarrow> exn + bytes" where
  "x25519_public_from_bytes L data = lift_lib (x_load L data)"

definition derive_shared_secret :: "cryptolib \<Rightarrow> bytes \<Rightarrow> bytes \<Rightarrow> exn + bytes" where
  "derive_shared_secret L priv peer = lift_lib (x_exchange L priv peer)"

definition generate_ed25519_keypair :: "cryptolib \<Rightarrow> bytes \<Rightarrow> bytes \<times> bytes" where
  "generate_ed25519_keypair L priv = (priv, ed_public L priv)"

definition ed25519_public_from_bytes :: "cryptolib \<Rightarrow> bytes \<Rightarrow> exn + bytes" where
  "ed25519_public_from_bytes L data = lift_lib (ed_load L data)"

definition sign :: "cryptolib \<Rightarrow> bytes \<Rightarrow> bytes \<Rightarrow> bytes" where
  "sign L priv message = ed_sign L priv message"

definition verify :: "cryptolib \<Rightarrow> bytes \<Rightarrow> bytes \<Rightarrow> bytes \<Rightarrow> exn + bool" where
  "verify L pub signature message =
     (case ed_verify L pub signature message of
        Inr _ \<Rightarrow> Inr True
      | Inl e \<Rightarrow> if e = Lib_InvalidSignature then Inr False else Inl (raise_lib e))"

definition hkdf :: "cryptolib \<Rightarrow> bytes \<Rightarrow> bytes \<Rightarrow> bytes \<Rightarrow> nat \<Rightarrow> bytes" where
  "hkdf L shared_secret salt info len = hkdf_derive L shared_secret salt info len"

definition derive_key_from_passphrase :: "cryptolib \<Rightarrow> string \<Rightarrow> bytes \<Rightarrow> nat \<Rightarrow> bytes" where
  "derive_key_from_passphrase L passphrase salt len = scrypt_derive L (ascii passphrase) salt len"

definition aes_gcm_encrypt :: "cryptolib \<Rightarrow> bytes \<Rightarrow> bytes \<Rightarrow> bytes \<Rightarrow> bytes \<Rightarrow> exn + bytes" where
  "aes_gcm_encrypt L key nonce plaintext aad = lift_lib (gcm_encrypt L key nonce plaintext aad)"

definition aes_gcm_decrypt :: "cryptolib \<Rightarrow> bytes \<Rightarrow> bytes \<Rightarrow> bytes \<Rightarrow> bytes \<Rightarrow> exn + bytes" where
  "aes_gcm_decrypt L key nonce ciphertext aad = lift_lib (gcm_decrypt L key nonce ciphertext aad)"

definition counter_to_nonce :: "nat \<Rightarrow> exn + bytes" where
  "counter_to_nonce counter = to_bytes NONCE_SIZE counter"

section \<open>What the program relies on\<close>

text \<open>
  X25519: a public key has 32 bytes, \<open>from_public_bytes\<close> refuses any other length, both
  sides of an exchange of generated keys get the same secret, and it is not the all-zero
  secret (which \<open>exchange\<close> refuses with a \<open>ValueError\<close>).
\<close>

definition dh_laws :: "cryptolib \<Rightarrow> bool" where
  "dh_laws L \<longleftrightarrow>
     (\<forall>a. length (x_public L a) = 32) \<and>
     (\<forall>b. x_load L b = (if length b = 32 then Inr b else Inl Lib_ValueError)) \<and>
     (\<forall>a b. \<exists>s. x_exchange L a (x_public L b) = Inr s \<and> x_exchange L b (x_public L a) = Inr s)"

text \<open>
  AES-256-GCM: under a 32-byte key and a 12-byte nonce, data below 2 GiB is encrypted to
  its length and a 16-byte tag, and decryption with the same nonce and associated data
  gives it back.
\<close>

definition gcm_limit :: nat where
  "gcm_limit = 2 ^ 31"

definition aead_laws :: "cryptolib \<Rightarrow> bool" where
  "aead_laws L \<longleftrightarrow>
     (\<forall>key nonce pt aad.
        length key = 32 \<and> length nonce = NONCE_SIZE \<and> length pt < gcm_limit \<and> length aad < gcm_limit \<longrightarrow>
        (\<exists>c. gcm_encrypt L key nonce pt aad = Inr c \<and> length c = length pt + 16 \<and>
             gcm_decrypt L key nonce c aad = Inr pt))"

text \<open>
  The tag is a function of key, nonce, associated data and plaintext, and decryption
  recomputes it: nothing but the encryption of a plaintext decrypts to it.
\<close>

definition aead_authentic :: "cryptolib \<Rightarrow> bool" where
  "aead_authentic L \<longleftrightarrow>
     (\<forall>key nonce pt aad c. gcm_decrypt L key nonce c aad = Inr pt \<longrightarrow>
        gcm_encrypt L key nonce pt aad = Inr c)"

text \<open>
  The exceptions of the calls the receiving side makes: an exchange raises \<open>ValueError\<close>
  only (an all-zero secret), and decryption of data below 2 GiB under a key and a nonce of
  the right length raises \<open>InvalidTag\<close> only.
\<close>

definition lib_errors :: "cryptolib \<Rightarrow> bool" where
  "lib_errors L \<longleftrightarrow>
     (\<forall>a b e. x_exchange L a b = Inl e \<longrightarrow> e = Lib_ValueError) \<and>
     (\<forall>key nonce c aad e.
        length key = 32 \<and> length nonce = NONCE_SIZE \<and> length c < gcm_limit \<and> length aad < gcm_limit \<and>
        gcm_decrypt L key nonce c aad = Inl e \<longrightarrow> e = Lib_InvalidTag)"

text \<open>Ed25519: a signature verifies under the signer's public key, which has 32 bytes.\<close>

definition signature_laws :: "cryptolib \<Rightarrow> bool" where
  "signature_laws L \<longleftrightarrow>
     (\<forall>sk. length (ed_public L sk) = 32) \<and>
     (\<forall>b. ed_load L b = (if length b = 32 then Inr b else Inl Lib_ValueError)) \<and>
     (\<forall>sk m. ed_verify L (ed_public L sk) (ed_sign L sk m) m = Inr ())"

definition hkdf_laws :: "cryptolib \<Rightarrow> bool" where
  "hkdf_laws L \<longleftrightarrow> (\<forall>s salt info n. n \<le> 8160 \<longrightarrow> length (hkdf_derive L s salt info n) = n)"

definition scrypt_laws :: "cryptolib \<Rightarrow> bool" where
  "scrypt_laws L \<longleftrightarrow> (\<forall>p salt n. length (scrypt_derive L p salt n) = n)"

lemma counter_to_nonce_Inr: "counter < 256 ^ 8 \<Longrightarrow> \<exists>n. counter_to_nonce counter = Inr n \<and> length n = NONCE_SIZE"
proof -
  assume "counter < 256 ^ 8"
  then have "counter < 256 ^ NONCE_SIZE"
    by (simp add: NONCE_SIZE_def)
  then show ?thesis
    by (simp add: counter_to_nonce_def to_bytes_def)
qed

lemma counter_to_nonce_inject:
  "counter_to_nonce c = Inr n \<Longrightarrow> counter_to_nonce c' = Inr n \<Longrightarrow> c = c'"
  unfolding counter_to_nonce_def by (rule be.enc_inject)

end
