(* ===== verification/Utf8.thy ===== *)
theory Utf8
  imports Prelude
begin

text \<open>
  Python's strings. A string of the model is the UTF-8 encoding of a Python string, one
  character for a byte, so \<open>encode("utf-8")\<close> is \<open>ascii\<close> and \<open>decode("utf-8")\<close> a check
  (a surrogate, which only a JSON escape can bring in, is encoded like its neighbours, and
  refused by the check). \<open>strip\<close> and \<open>lower\<close> work on the code points.
\<close>

section \<open>Code points\<close>

definition utf8_char :: "nat \<Rightarrow> string" where
  "utf8_char n =
     (if n < 128 then [char_of n]
      else if n < 2048 then [char_of (192 + n div 64), char_of (128 + n mod 64)]
      else if n < 65536
      then [char_of (224 + n div 4096), char_of (128 + n div 64 mod 64), char_of (128 + n mod 64)]
      else [char_of (240 + n div 262144), char_of (128 + n div 4096 mod 64),
            char_of (128 + n div 64 mod 64), char_of (128 + n mod 64)])"

text \<open>The payload of a continuation byte.\<close>

definition continuation :: "char \<Rightarrow> nat option" where
  "continuation c = (let n = of_char c :: nat in if 128 \<le> n \<and> n < 192 then Some (n - 128) else None)"

fun continuations :: "nat \<Rightarrow> nat \<Rightarrow> string \<Rightarrow> (nat \<times> string) option" where
  "continuations 0 acc s = Some (acc, s)"
| "continuations (Suc k) acc s =
     (case s of
        [] \<Rightarrow> None
      | c # r \<Rightarrow> (case continuation c of None \<Rightarrow> None | Some v \<Rightarrow> continuations k (acc * 64 + v) r))"

text \<open>One code point and the rest; an overlong form or a number above 10FFFF is malformed.\<close>

definition decode_point :: "string \<Rightarrow> (nat \<times> string) option" where
  "decode_point s =
     (case s of
        [] \<Rightarrow> None
      | c # r \<Rightarrow>
          (let n = of_char c :: nat;
               checked = (\<lambda>k m low high. case continuations k (n mod m) r of
                   Some (v, r') \<Rightarrow> if low \<le> v \<and> v < high then Some (v, r') else None
                 | None \<Rightarrow> None)
           in if n < 128 then Some (n, r)
              else if 192 \<le> n \<and> n < 224 then checked 1 32 128 2048
              else if 224 \<le> n \<and> n < 240 then checked 2 16 2048 65536
              else if 240 \<le> n \<and> n < 248 then checked 3 8 65536 1114112
              else None))"

lemma continuations_numeral [simp]:
  "continuations (numeral k) acc (c # s) =
     (case continuation c of None \<Rightarrow> None | Some v \<Rightarrow> continuations (pred_numeral k) (acc * 64 + v) s)"
  by (simp add: numeral_eq_Suc)

lemma continuations_length: "continuations k a s = Some (v, r) \<Longrightarrow> length s = length r + k"
  by (induction k a s rule: continuations.induct) (auto split: option.splits list.splits)

lemma decode_point_length: "decode_point s = Some (n, r) \<Longrightarrow> length r < length s"
  by (auto simp: decode_point_def Let_def split: list.splits if_splits option.splits
      dest!: continuations_length)

function code_points :: "string \<Rightarrow> nat list option" where
  "code_points s =
     (if s = [] then Some []
      else case decode_point s of
        None \<Rightarrow> None
      | Some (n, r) \<Rightarrow> map_option (Cons n) (code_points r))"
  by pat_completeness auto
termination
  by (relation "measure length") (auto dest: decode_point_length)

declare code_points.simps [simp del]

definition text_of :: "nat list \<Rightarrow> string" where
  "text_of ns = concat (map utf8_char ns)"

text \<open>
  \<open>decode("utf-8")\<close> and \<open>encode("utf-8")\<close>: both refuse a surrogate.
\<close>

definition surrogate :: "nat \<Rightarrow> bool" where
  "surrogate n \<longleftrightarrow> 55296 \<le> n \<and> n < 57344"

definition utf8_ok :: "string \<Rightarrow> bool" where
  "utf8_ok s = (case code_points s of None \<Rightarrow> False | Some ns \<Rightarrow> list_all (\<lambda>n. \<not> surrogate n) ns)"

definition decode_utf8 :: "bytes \<Rightarrow> exn + string" where
  "decode_utf8 b = (let s = map (\<lambda>x. char_of (unat x)) b in if utf8_ok s then Inr s else Inl UnicodeDecodeError)"

definition encode_utf8 :: "string \<Rightarrow> exn + bytes" where
  "encode_utf8 s = (if utf8_ok s then Inr (ascii s) else Inl UnicodeEncodeError)"

text \<open>
  \<open>decode("utf-8", "replace")\<close>: a replacement character for the longest prefix of a sequence
  that could still have become a character.
\<close>

definition second_byte :: "nat \<Rightarrow> nat \<Rightarrow> bool" where
  "second_byte lead n \<longleftrightarrow>
     (if lead = 224 then 160 \<le> n else if lead = 240 then 144 \<le> n else 128 \<le> n) \<and>
     (if lead = 237 then n < 160 else if lead = 244 then n < 144 else n < 192)"

definition malformed_prefix :: "string \<Rightarrow> nat" where
  "malformed_prefix s =
     (case map of_char s of
        lead # b # c # _ \<Rightarrow>
          if 224 \<le> lead \<and> lead < 240 \<and> second_byte lead b then 2
          else if 240 \<le> lead \<and> lead < 245 \<and> second_byte lead b then (if 128 \<le> c \<and> c < 192 then 3 else 2)
          else 1
      | [lead, b] \<Rightarrow> if 224 \<le> lead \<and> lead < 245 \<and> second_byte lead b then 2 else 1
      | _ \<Rightarrow> 1)"

lemma malformed_prefix_pos [simp]: "0 < malformed_prefix s"
  by (simp add: malformed_prefix_def split: list.split)

function replace_malformed :: "string \<Rightarrow> string" where
  "replace_malformed s =
     (if s = [] then []
      else case decode_point s of
        Some (n, r) \<Rightarrow>
          if surrogate n then utf8_char 65533 @ replace_malformed (drop (malformed_prefix s) s)
          else utf8_char n @ replace_malformed r
      | None \<Rightarrow> utf8_char 65533 @ replace_malformed (drop (malformed_prefix s) s))"
  by pat_completeness auto
termination
  by (relation "measure length") (auto dest: decode_point_length)

declare replace_malformed.simps [simp del]

definition decode_replace :: "bytes \<Rightarrow> string" where
  "decode_replace b = replace_malformed (map (\<lambda>x. char_of (unat x)) b)"

text \<open>
  \<open>str.strip\<close> removes white space at both ends. \<open>str.lower\<close> is used to compare an answer with
  \<open>y\<close>, \<open>n\<close> and \<open>/quit\<close> only; no character but a capital letter of the ASCII range is lowered to
  one of these letters, so the others are left as they are.
\<close>

definition py_space :: "nat \<Rightarrow> bool" where
  "py_space n \<longleftrightarrow>
     (9 \<le> n \<and> n \<le> 13) \<or> (28 \<le> n \<and> n \<le> 32) \<or> n = 133 \<or> n = 160 \<or> n = 5760 \<or>
     (8192 \<le> n \<and> n \<le> 8202) \<or> n = 8232 \<or> n = 8233 \<or> n = 8239 \<or> n = 8287 \<or> n = 12288"

definition strip :: "string \<Rightarrow> string" where
  "strip s =
     (case code_points s of
        None \<Rightarrow> s
      | Some ns \<Rightarrow> text_of (rev (dropWhile py_space (rev (dropWhile py_space ns)))))"

definition lower :: "string \<Rightarrow> string" where
  "lower s = map (\<lambda>c. let n = of_char c :: nat in if 65 \<le> n \<and> n \<le> 90 then char_of (n + 32) else c) s"

section \<open>Encoding and decoding agree\<close>

lemma continuation_char: "v < 64 \<Longrightarrow> continuation (char_of (128 + v)) = Some v"
  by (simp add: continuation_def)

text \<open>A lead byte's payload.\<close>

lemma lead_bits [simp]:
  "q < 32 \<Longrightarrow> (192 + q) mod 32 = (q::nat)"
  "q < 16 \<Longrightarrow> (224 + q) mod 16 = (q::nat)"
  "q < 8 \<Longrightarrow> (240 + q) mod 8 = (q::nat)"
  using mod_mult_self4 [of 32 6 q] mod_mult_self4 [of 16 14 q] mod_mult_self4 [of 8 30 q] by simp_all

lemma digits64:
  "4096 * (n div 4096) + n div 64 mod 64 * 64 + n mod 64 = (n::nat)"
  "262144 * (n div 262144) + 4096 * (n div 4096 mod 64) + n div 64 mod 64 * 64 + n mod 64 = (n::nat)"
proof -
  have d: "n div 64 div 64 = n div 4096" "n div 4096 div 64 = n div 262144"
    by (simp_all add: div_mult2_eq [symmetric])
  have "n div 64 * 64 + n mod 64 = n" "n div 4096 * 64 + n div 64 mod 64 = n div 64"
    "n div 262144 * 64 + n div 4096 mod 64 = n div 4096"
    using div_mult_mod_eq [of "n div 64" 64] div_mult_mod_eq [of "n div 4096" 64] unfolding d by simp_all
  then show "4096 * (n div 4096) + n div 64 mod 64 * 64 + n mod 64 = n"
    "262144 * (n div 262144) + 4096 * (n div 4096 mod 64) + n div 64 mod 64 * 64 + n mod 64 = n"
    by linarith+
qed

lemma decode_utf8_char:
  assumes "n < 1114112"
  shows "decode_point (utf8_char n @ s) = Some (n, s)"
proof -
  consider "n < 128" | "128 \<le> n" "n < 2048" | "2048 \<le> n" "n < 65536" | "65536 \<le> n"
    by linarith
  then show ?thesis
  proof cases
    case 1
    then show ?thesis by (simp add: utf8_char_def decode_point_def)
  next
    case 2
    then have q: "n div 64 < 32" by linarith
    have "n div 64 * 64 + n mod 64 = n" by simp
    with 2 q show ?thesis
      by (simp add: utf8_char_def decode_point_def continuation_char Let_def)
  next
    case 3
    then have q: "n div 4096 < 16" by linarith
    with 3 show ?thesis
      by (simp add: utf8_char_def decode_point_def continuation_char digits64 Let_def)
  next
    case 4
    then have q: "n div 262144 < 8" using assms by linarith
    with 4 assms show ?thesis
      by (simp add: utf8_char_def decode_point_def continuation_char digits64 Let_def)
  qed
qed

lemma code_points_text_of: "\<forall>n \<in> set ns. n < 1114112 \<Longrightarrow> code_points (text_of ns) = Some ns"
proof (induction ns)
  case Nil
  then show ?case by (simp add: text_of_def code_points.simps)
next
  case (Cons n ns)
  have "utf8_char n \<noteq> []"
    by (simp add: utf8_char_def)
  with Cons show ?case
    by (simp add: text_of_def code_points.simps [of "utf8_char n @ _"] decode_utf8_char)
qed

text \<open>A string whose bytes decode is the encoding of what they decode to.\<close>

lemma continuation_Some: "continuation c = Some v \<longleftrightarrow> v < 64 \<and> c = char_of (128 + v)"
proof
  assume "continuation c = Some v"
  then have "v < 64" and "of_char c = 128 + v"
    by (auto simp: continuation_def Let_def split: if_splits)
  then show "v < 64 \<and> c = char_of (128 + v)"
    by (metis char_of_char)
qed (auto simp: continuation_char)

lemma continuations_Some:
  "continuations k a s = Some (n, r) \<Longrightarrow>
     \<exists>vs. length vs = k \<and> (\<forall>v \<in> set vs. v < 64) \<and> s = map (\<lambda>v. char_of (128 + v)) vs @ r \<and>
       n = foldl (\<lambda>a v. a * 64 + v) a vs"
proof (induction k a s rule: continuations.induct)
  case (2 k acc s)
  from 2(2) obtain c t v where s: "s = c # t" and v: "continuation c = Some v" "continuations k (acc * 64 + v) t = Some (n, r)"
    by (auto split: option.splits list.splits)
  from 2(1) [OF s v] obtain vs where "length vs = k" "\<forall>v \<in> set vs. v < 64"
    "t = map (\<lambda>v. char_of (128 + v)) vs @ r" "n = foldl (\<lambda>a v. a * 64 + v) (acc * 64 + v) vs" by auto
  with v(1) s show ?case
    by (intro exI [of _ "v # vs"]) (simp add: continuation_Some)
qed auto

lemma base64_digits:
  fixes q :: nat
  assumes "v < 64"
  shows "(q * 64 + v) div 64 = q" and "(q * 64 + v) mod 64 = v"
  using assms by simp_all

lemma decode_point_Some:
  assumes "decode_point s = Some (n, r)"
  shows "s = utf8_char n @ r"
proof -
  obtain c t where s: "s = c # t"
    using assms by (cases s) (auto simp: decode_point_def)
  define m where "m = (of_char c :: nat)"
  have c: "c = char_of m"
    by (simp add: m_def)
  note step = assms [unfolded s decode_point_def, simplified, folded m_def]
  consider "m < 128" | "192 \<le> m" "m < 224" | "224 \<le> m" "m < 240" | "240 \<le> m" "m < 248"
    using step by (auto simp: Let_def split: if_splits)
  then show ?thesis
  proof cases
    case 1
    with step show ?thesis by (simp add: s c utf8_char_def)
  next
    case 2
    with step obtain "continuations 1 (m mod 32) t = Some (n, r)" and n: "128 \<le> n" "n < 2048"
      by (auto simp: Let_def split: option.splits if_splits)
    from continuations_Some [OF this(1)] obtain v
      where v: "v < 64" "t = char_of (128 + v) # r" "n = m mod 32 * 64 + v"
      by (auto simp: length_Suc_conv)
    have "m mod 32 = m - 192"
      using 2 lead_bits(1) [of "m - 192"] by simp
    with 2 v n show ?thesis
      by (simp add: s c utf8_char_def base64_digits)
  next
    case 3
    with step obtain "continuations 2 (m mod 16) t = Some (n, r)" and n: "2048 \<le> n" "n < 65536"
      by (auto simp: Let_def split: option.splits if_splits)
    from continuations_Some [OF this(1)] obtain v w
      where v: "v < 64" "w < 64" "t = char_of (128 + v) # char_of (128 + w) # r" "n = (m mod 16 * 64 + v) * 64 + w"
      by (auto simp: numeral_2_eq_2 length_Suc_conv)
    have q: "m mod 16 = m - 224"
      using 3 lead_bits(2) [of "m - 224"] by simp
    have "n div 64 = (m - 224) * 64 + v" "n mod 64 = w"
      unfolding v(4) q using v(2) by (rule base64_digits)+
    moreover have "n div 4096 = m - 224" "n div 64 mod 64 = v"
      using calculation(1) v(1) div_mult2_eq [of n 64 64] by simp_all
    ultimately show ?thesis
      using 3 n v(3) by (simp add: s c utf8_char_def)
  next
    case 4
    with step obtain "continuations 3 (m mod 8) t = Some (n, r)" and n: "65536 \<le> n" "n < 1114112"
      by (auto simp: Let_def split: option.splits if_splits)
    from continuations_Some [OF this(1)] obtain v w x
      where v: "v < 64" "w < 64" "x < 64" "t = char_of (128 + v) # char_of (128 + w) # char_of (128 + x) # r"
        "n = ((m mod 8 * 64 + v) * 64 + w) * 64 + x"
      by (auto simp: numeral_3_eq_3 length_Suc_conv)
    have q: "m mod 8 = m - 240"
      using 4 lead_bits(3) [of "m - 240"] by simp
    have "n div 64 = ((m - 240) * 64 + v) * 64 + w" "n mod 64 = x"
      unfolding v(5) q using v(3) by (rule base64_digits)+
    moreover have "n div 4096 = (m - 240) * 64 + v" "n div 64 mod 64 = w"
      using calculation(1) base64_digits [OF v(2), of "(m - 240) * 64 + v"] div_mult2_eq [of n 64 64]
      by (simp_all del: distrib_right add_mult_distrib)
    moreover have "n div 262144 = m - 240" "n div 4096 mod 64 = v"
      using calculation(3) v(1) div_mult2_eq [of n 4096 64] by simp_all
    ultimately show ?thesis
      using 4 n v(4) by (simp add: s c utf8_char_def)
  qed
qed

lemma text_of_code_points: "code_points s = Some ns \<Longrightarrow> text_of ns = s"
proof (induction s arbitrary: ns rule: code_points.induct)
  case (1 s)
  show ?case
  proof (cases "s = []")
    case True
    with 1(2) show ?thesis by (simp add: code_points.simps text_of_def)
  next
    case False
    with 1(2) obtain n r ms where d: "decode_point s = Some (n, r)" and ms: "code_points r = Some ms" "ns = n # ms"
      by (auto simp: code_points.simps [of s] split: option.splits)
    from 1(1) [OF False d refl ms(1)] decode_point_Some [OF d] ms(2) show ?thesis
      by (simp add: text_of_def)
  qed
qed

section \<open>Text that survives the wire\<close>

lemma chars_of_bytes: "map (\<lambda>x. char_of (unat x)) (ascii s) = s"
  by (simp add: ascii_def unat_of_char comp_def)

lemma bytes_of_chars: "ascii (map (\<lambda>x. char_of (unat (x :: byte))) b) = b"
proof -
  have "(of_char (char_of (unat x) :: char) :: byte) = x" for x :: byte
  proof (rule unsigned_word_eqI)
    show "unat (of_char (char_of (unat x) :: char) :: byte) = unat x"
      using unat_byte_less [of x] by (simp add: unat_of_char)
  qed
  then show ?thesis by (simp add: ascii_def map_idI)
qed

interpretation utf8: strict_codec encode_utf8 decode_utf8
  by unfold_locales
    (auto simp: encode_utf8_def decode_utf8_def chars_of_bytes bytes_of_chars Let_def split: if_splits)

text \<open>Lenient decoding changes nothing in a well-formed text.\<close>

lemma replace_malformed_ok: "utf8_ok s \<Longrightarrow> replace_malformed s = s"
proof (induction s rule: replace_malformed.induct)
  case (1 s)
  show ?case
  proof (cases "s = []")
    case True
    then show ?thesis by (simp add: replace_malformed.simps)
  next
    case False
    with 1(4) obtain n r ms where d: "decode_point s = Some (n, r)" and ms: "code_points r = Some ms"
        "\<not> surrogate n" "list_all (\<lambda>n. \<not> surrogate n) ms"
      by (auto simp: utf8_ok_def code_points.simps [of s] split: option.splits)
    from ms have "utf8_ok r" by (simp add: utf8_ok_def)
    with 1 False d ms(2) have "replace_malformed r = r" by auto
    with False d ms(2) have "replace_malformed s = utf8_char n @ r"
      by (simp add: replace_malformed.simps [of s])
    then show ?thesis
      using decode_point_Some [OF d] by simp
  qed
qed

lemma decode_replace_encode: "encode_utf8 s = Inr b \<Longrightarrow> decode_replace b = s"
  by (auto simp: encode_utf8_def decode_replace_def chars_of_bytes replace_malformed_ok split: if_splits)

lemma code_points_ascii: "\<forall>c \<in> set s. of_char c < (128 :: nat) \<Longrightarrow> code_points s = Some (map of_char s)"
  by (induction s) (simp_all add: code_points.simps [of "[]"] code_points.simps [of "_ # _"] decode_point_def)

lemma ascii_text_ok: "\<forall>c \<in> set s. of_char c < (128 :: nat) \<Longrightarrow> utf8_ok s"
  by (auto simp: utf8_ok_def code_points_ascii list_all_iff surrogate_def)

lemma text_of_ascii: "\<forall>c \<in> set s. of_char c < (128 :: nat) \<Longrightarrow> text_of (map of_char s) = s"
  by (rule text_of_code_points [OF code_points_ascii])

text \<open>Text that neither starts nor ends with white space is stripped of nothing.\<close>

lemma strip_ascii:
  assumes "\<forall>c \<in> set s. of_char c < (128 :: nat)" and "s \<noteq> []" and "\<not> py_space (of_char (hd s))" and "\<not> py_space (of_char (last s))"
  shows "strip s = s"
proof -
  have "dropWhile py_space (map of_char s) = map of_char s"
    using assms(2,3) by (cases s) simp_all
  moreover have "dropWhile py_space (rev (map of_char s)) = rev (map of_char s)"
    using assms(2,4) by (cases s rule: rev_cases) simp_all
  ultimately show ?thesis
    using assms(1) by (simp add: strip_def code_points_ascii text_of_ascii)
qed

lemma code_points_length: "code_points s = Some ns \<Longrightarrow> length ns \<le> length s"
proof (induction s arbitrary: ns rule: code_points.induct)
  case (1 s)
  show ?case
  proof (cases "s = []")
    case True
    with 1(2) show ?thesis by (simp add: code_points.simps)
  next
    case False
    with 1(2) obtain n r ms where d: "decode_point s = Some (n, r)" "code_points r = Some ms" "ns = n # ms"
      by (auto simp: code_points.simps [of s] split: option.splits)
    from 1(1) [OF False d(1) refl d(2)] decode_point_length [OF d(1)] d(3) show ?thesis by simp
  qed
qed

end
