(* ===== verification/Json.thy ===== *)
theory Json
  imports Utf8
begin

text \<open>
  Python's \<open>json\<close> module as the program uses it: \<open>dumps\<close> with its default settings and with
  \<open>indent=2\<close>, \<open>loads\<close> as the scanner reads it (strict control characters, surrogate pairs, \<open>NaN\<close>
  and \<open>Infinity\<close>, the last of equal keys wins, integers of more than 4300 digits refused), and
  what the program does with the value: subscripting, \<open>bytes.fromhex\<close>, a name as the key of a
  dictionary. A float is kept as its literal. The parser's fuel is one unit a call; twice the
  length of the text plus two is enough. The recursion limit of the interpreter is not
  modelled.
\<close>

section \<open>Writing\<close>

definition digit_char :: "nat \<Rightarrow> char" where
  "digit_char n = char_of (48 + n)"

fun show_nat :: "nat \<Rightarrow> string" where
  "show_nat n = (if n < 10 then [digit_char n] else show_nat (n div 10) @ [digit_char (n mod 10)])"

declare show_nat.simps [simp del]

definition show_int :: "int \<Rightarrow> string" where
  "show_int i = (if i < 0 then CHR ''-'' # show_nat (nat (- i)) else show_nat (nat i))"

definition hex4_text :: "nat \<Rightarrow> string" where
  "hex4_text n =
     [hex_digits ! (n div 4096 mod 16), hex_digits ! (n div 256 mod 16), hex_digits ! (n div 16 mod 16),
      hex_digits ! (n mod 16)]"

definition escape_u :: "nat \<Rightarrow> string" where
  "escape_u n = CHR 0x5C # CHR ''u'' # hex4_text n"

text \<open>A code point of a string, escaped to ASCII.\<close>

definition escape_char :: "nat \<Rightarrow> string" where
  "escape_char n =
     (if n = 34 then [CHR 0x5C, CHR 0x22]
      else if n = 92 then [CHR 0x5C, CHR 0x5C]
      else if n = 10 then [CHR 0x5C, CHR ''n'']
      else if n = 13 then [CHR 0x5C, CHR ''r'']
      else if n = 9 then [CHR 0x5C, CHR ''t'']
      else if n = 8 then [CHR 0x5C, CHR ''b'']
      else if n = 12 then [CHR 0x5C, CHR ''f'']
      else if 32 \<le> n \<and> n < 127 then [char_of n]
      else if n < 65536 then escape_u n
      else escape_u (55296 + (n - 65536) div 1024) @ escape_u (56320 + (n - 65536) mod 1024))"

definition quote :: "string \<Rightarrow> string" where
  "quote s =
     CHR 0x22 # (case code_points s of None \<Rightarrow> '''' | Some ns \<Rightarrow> concat (map escape_char ns)) @ [CHR 0x22]"

fun join :: "string \<Rightarrow> string list \<Rightarrow> string" where
  "join sep [] = ''''"
| "join sep [x] = x"
| "join sep (x # xs) = x @ sep @ join sep xs"

text \<open>The separators: none to speak of without an indent, a new line at the level with one.\<close>

definition new_line :: "nat option \<Rightarrow> nat \<Rightarrow> string" where
  "new_line ind level =
     (case ind of None \<Rightarrow> '''' | Some k \<Rightarrow> CHR 0x0A # replicate (k * level) (CHR '' ''))"

definition item_separator :: "nat option \<Rightarrow> nat \<Rightarrow> string" where
  "item_separator ind level = (case ind of None \<Rightarrow> '', '' | Some _ \<Rightarrow> '','' @ new_line ind level)"

lemma size_member: "p \<in> set m \<Longrightarrow> size (snd p) < size_list (\<lambda>x. Suc (size (snd x))) m"
  by (induction m) auto

function dump :: "nat option \<Rightarrow> nat \<Rightarrow> json \<Rightarrow> string" where
  "dump ind level JNull = ''null''"
| "dump ind level (JBool b) = (if b then ''true'' else ''false'')"
| "dump ind level (JInt i) = show_int i"
| "dump ind level (JFloat lit) = lit"
| "dump ind level (JStr s) = quote s"
| "dump ind level (JArr js) =
     (if js = [] then ''[]''
      else ''['' @ new_line ind (level + 1) @
           join (item_separator ind (level + 1)) (map (dump ind (level + 1)) js) @ new_line ind level @ '']'')"
| "dump ind level (JObj m) =
     (if m = [] then ''{}''
      else ''{'' @ new_line ind (level + 1) @
           join (item_separator ind (level + 1))
             (map (\<lambda>p. quote (fst p) @ '': '' @ dump ind (level + 1) (snd p)) m) @ new_line ind level @ ''}'')"
  by pat_completeness auto
termination
  by (relation "measure (\<lambda>(_, _, j). size j)") (auto simp: size_list_estimation' less_Suc_eq_le dest: size_member)

definition dumps :: "json \<Rightarrow> string" where
  "dumps j = dump None 0 j"

definition dumps_indent2 :: "json \<Rightarrow> string" where
  "dumps_indent2 j = dump (Some 2) 0 j"

section \<open>Reading\<close>

definition json_space :: "char \<Rightarrow> bool" where
  "json_space c \<longleftrightarrow> c = CHR '' '' \<or> c = CHR 0x09 \<or> c = CHR 0x0A \<or> c = CHR 0x0D"

abbreviation skip_space :: "string \<Rightarrow> string" where
  "skip_space s \<equiv> dropWhile json_space s"

definition hex4 :: "string \<Rightarrow> (nat \<times> string) option" where
  "hex4 s =
     (case s of
        a # b # c # d # t \<Rightarrow>
          (case (hex_value a, hex_value b, hex_value c, hex_value d) of
             (Some w, Some x, Some y, Some z) \<Rightarrow> Some (w * 4096 + x * 256 + y * 16 + z, t)
           | _ \<Rightarrow> None)
      | _ \<Rightarrow> None)"

lemma hex4_length: "hex4 s = Some (n, t) \<Longrightarrow> length s = length t + 4"
  by (auto simp: hex4_def split: list.splits option.splits)

text \<open>The second half of a surrogate pair, if it follows.\<close>

definition low_half :: "string \<Rightarrow> (nat \<times> string) option" where
  "low_half s =
     (case s of
        a # b # t \<Rightarrow>
          if a = CHR 0x5C \<and> b = CHR ''u''
          then (case hex4 t of
                  Some (n, t') \<Rightarrow> if 56320 \<le> n \<and> n < 57344 then Some (n, t') else None
                | None \<Rightarrow> None)
          else None
      | _ \<Rightarrow> None)"

lemma low_half_length: "low_half s = Some (n, t) \<Longrightarrow> length s = length t + 6"
  by (auto simp: low_half_def dest: hex4_length split: list.splits option.splits if_splits)

definition simple_escape :: "char \<Rightarrow> char option" where
  "simple_escape c =
     (if c = CHR 0x22 \<or> c = CHR 0x5C \<or> c = CHR ''/'' then Some c
      else if c = CHR ''n'' then Some (CHR 0x0A)
      else if c = CHR ''r'' then Some (CHR 0x0D)
      else if c = CHR ''t'' then Some (CHR 0x09)
      else if c = CHR ''b'' then Some (CHR 0x08)
      else if c = CHR ''f'' then Some (CHR 0x0C)
      else None)"

definition emit :: "string \<Rightarrow> exn + string \<times> string \<Rightarrow> exn + string \<times> string" where
  "emit s = map_sum id (apfst ((@) s))"

text \<open>A string's text after the opening quotation mark, and what follows the closing one.\<close>

function scan_string :: "string \<Rightarrow> exn + string \<times> string" where
  "scan_string s =
     (case s of
        [] \<Rightarrow> Inl JSONDecodeError
      | c # r \<Rightarrow>
          if c = CHR 0x22 then Inr ('''', r)
          else if c = CHR 0x5C then
            (case r of
               [] \<Rightarrow> Inl JSONDecodeError
             | e # t \<Rightarrow>
                 if e = CHR ''u'' then
                   (case hex4 t of
                      None \<Rightarrow> Inl JSONDecodeError
                    | Some (n, t') \<Rightarrow>
                        (case (if 55296 \<le> n \<and> n < 56320 then low_half t' else None) of
                           Some (n2, t'') \<Rightarrow>
                             emit (utf8_char (65536 + (n - 55296) * 1024 + (n2 - 56320))) (scan_string t'')
                         | None \<Rightarrow> emit (utf8_char n) (scan_string t')))
                 else (case simple_escape e of None \<Rightarrow> Inl JSONDecodeError | Some d \<Rightarrow> emit [d] (scan_string t)))
          else if (of_char c :: nat) < 32 then Inl JSONDecodeError
          else emit [c] (scan_string r))"
  by pat_completeness auto
termination
  by (relation "measure length") (auto dest!: hex4_length low_half_length split: if_splits)

declare scan_string.simps [simp del]

definition is_digit :: "char \<Rightarrow> bool" where
  "is_digit c \<longleftrightarrow> (let n = of_char c :: nat in 48 \<le> n \<and> n \<le> 57)"

definition read_nat :: "string \<Rightarrow> nat" where
  "read_nat ds = foldl (\<lambda>acc c. acc * 10 + (of_char c - 48)) 0 ds"

definition int_part :: "string \<Rightarrow> (string \<times> string) option" where
  "int_part s =
     (case s of
        [] \<Rightarrow> None
      | c # r \<Rightarrow>
          if c = CHR ''0'' then Some ([c], r)
          else if is_digit c then Some (c # takeWhile is_digit r, dropWhile is_digit r)
          else None)"

definition frac_part :: "string \<Rightarrow> string \<times> string" where
  "frac_part s =
     (case s of
        c # r \<Rightarrow>
          if c = CHR ''.'' \<and> takeWhile is_digit r \<noteq> []
          then (c # takeWhile is_digit r, dropWhile is_digit r) else ('''', s)
      | [] \<Rightarrow> ('''', s))"

definition exp_sign :: "string \<Rightarrow> string \<times> string" where
  "exp_sign s =
     (case s of
        c # r \<Rightarrow> if c = CHR ''-'' \<or> c = CHR ''+'' then ([c], r) else ('''', s)
      | [] \<Rightarrow> ('''', s))"

definition exp_part :: "string \<Rightarrow> string \<times> string" where
  "exp_part s =
     (case s of
        c # r \<Rightarrow>
          if c = CHR ''e'' \<or> c = CHR ''E''
          then (let (sg, t) = exp_sign r
                in if takeWhile is_digit t = [] then ('''', s)
                   else (c # sg @ takeWhile is_digit t, dropWhile is_digit t))
          else ('''', s)
      | [] \<Rightarrow> ('''', s))"

definition minus_sign :: "string \<Rightarrow> string \<times> string" where
  "minus_sign s = (case s of c # r \<Rightarrow> if c = CHR ''-'' then ([c], r) else ('''', s) | [] \<Rightarrow> ('''', s))"

definition int_max_str_digits :: nat where
  "int_max_str_digits = 4300"

definition scan_number :: "string \<Rightarrow> exn + json \<times> string" where
  "scan_number s =
     (let (sg, t) = minus_sign s
      in case int_part t of
        None \<Rightarrow> Inl JSONDecodeError
      | Some (i, t1) \<Rightarrow>
          (let (f, t2) = frac_part t1; (e, t3) = exp_part t2
           in if f = '''' \<and> e = ''''
              then (if length i > int_max_str_digits then Inl ValueError
                    else Inr (JInt (if sg = '''' then int (read_nat i) else - int (read_nat i)), t3))
              else Inr (JFloat (sg @ i @ f @ e), t3)))"

definition starts :: "string \<Rightarrow> string \<Rightarrow> bool" where
  "starts p s \<longleftrightarrow> take (length p) s = p"

text \<open>The values that are neither a string nor a container.\<close>

definition scan_scalar :: "string \<Rightarrow> exn + json \<times> string" where
  "scan_scalar s =
     (if starts ''null'' s then Inr (JNull, drop 4 s)
      else if starts ''true'' s then Inr (JBool True, drop 4 s)
      else if starts ''false'' s then Inr (JBool False, drop 5 s)
      else if starts ''NaN'' s then Inr (JFloat ''NaN'', drop 3 s)
      else if starts ''Infinity'' s then Inr (JFloat ''Infinity'', drop 8 s)
      else if starts ''-Infinity'' s then Inr (JFloat ''-Infinity'', drop 9 s)
      else scan_number s)"

text \<open>A dictionary from its pairs: a repeated key keeps its place and takes the last value.\<close>

definition dict_of :: "(string \<times> json) list \<Rightarrow> (string, json) dict" where
  "dict_of m = fold (\<lambda>(k, v). AList.update k v) m []"

type_synonym 'a parsed = "(exn + 'a \<times> string) option"

abbreviation malformed :: "'a parsed" where
  "malformed \<equiv> Some (Inl JSONDecodeError)"

definition and_then :: "'a parsed \<Rightarrow> ('a \<Rightarrow> string \<Rightarrow> 'b parsed) \<Rightarrow> 'b parsed" where
  "and_then p f =
     (case p of None \<Rightarrow> None | Some (Inl e) \<Rightarrow> Some (Inl e) | Some (Inr (a, r)) \<Rightarrow> f a r)"

text \<open>The next character that is no white space, and what follows it.\<close>

definition next_char :: "string \<Rightarrow> (char \<times> string) option" where
  "next_char s = (case skip_space s of [] \<Rightarrow> None | c # r \<Rightarrow> Some (c, r))"

definition with_next :: "string \<Rightarrow> (char \<Rightarrow> string \<Rightarrow> 'a parsed) \<Rightarrow> 'a parsed" where
  "with_next s f = (case next_char s of None \<Rightarrow> malformed | Some (c, t) \<Rightarrow> f c t)"

fun scan_value :: "nat \<Rightarrow> string \<Rightarrow> json parsed"
  and scan_items :: "nat \<Rightarrow> string \<Rightarrow> json list parsed"
  and scan_members :: "nat \<Rightarrow> string \<Rightarrow> (string \<times> json) list parsed" where
  "scan_value 0 s = None"
| "scan_value (Suc k) s =
     (case s of
        [] \<Rightarrow> malformed
      | c # r \<Rightarrow>
          if c = CHR 0x22 then Some (map_sum id (apfst JStr) (scan_string r))
          else if c = CHR ''{'' then with_next r (\<lambda>d t.
            if d = CHR ''}'' then Some (Inr (JObj [], t))
            else and_then (scan_members k (d # t)) (\<lambda>m u. Some (Inr (JObj (dict_of m), u))))
          else if c = CHR ''['' then with_next r (\<lambda>d t.
            if d = CHR '']'' then Some (Inr (JArr [], t))
            else and_then (scan_items k (d # t)) (\<lambda>js u. Some (Inr (JArr js, u))))
          else Some (scan_scalar s))"
| "scan_items 0 s = None"
| "scan_items (Suc k) s =
     and_then (scan_value k s) (\<lambda>v t.
     with_next t (\<lambda>d u.
       if d = CHR '']'' then Some (Inr ([v], u))
       else if d = CHR '','' then and_then (scan_items k (skip_space u)) (\<lambda>vs w. Some (Inr (v # vs, w)))
       else malformed))"
| "scan_members 0 s = None"
| "scan_members (Suc k) s =
     with_next s (\<lambda>c r.
       if c \<noteq> CHR 0x22 then malformed
       else and_then (Some (scan_string r)) (\<lambda>key t.
       with_next t (\<lambda>d t'.
         if d \<noteq> CHR '':'' then malformed
         else and_then (scan_value k (skip_space t')) (\<lambda>v t''.
         with_next t'' (\<lambda>d' u.
           if d' = CHR ''}'' then Some (Inr ([(key, v)], u))
           else if d' = CHR '','' then and_then (scan_members k u) (\<lambda>m w. Some (Inr ((key, v) # m, w)))
           else malformed)))))"

definition loads_fuel :: "nat \<Rightarrow> string \<Rightarrow> (exn + json) option" where
  "loads_fuel k s =
     (case scan_value k (skip_space s) of
        None \<Rightarrow> None
      | Some (Inl e) \<Rightarrow> Some (Inl e)
      | Some (Inr (v, r)) \<Rightarrow> Some (if skip_space r = [] then Inr v else Inl JSONDecodeError))"

definition loads :: "string \<Rightarrow> exn + json" where
  "loads s = (case loads_fuel (2 * length s + 2) s of Some r \<Rightarrow> r | None \<Rightarrow> Inl JSONDecodeError)"

section \<open>Using a value\<close>

text \<open>\<open>d[k]\<close>; a value that is no dictionary is not subscriptable by a string.\<close>

definition json_get :: "string \<Rightarrow> json \<Rightarrow> exn + json" where
  "json_get k d =
     (case d of
        JObj m \<Rightarrow> (case map_of m k of Some v \<Rightarrow> Inr v | None \<Rightarrow> Inl (KeyError k))
      | _ \<Rightarrow> Inl TypeError)"

definition json_hex :: "json \<Rightarrow> exn + bytes" where
  "json_hex v = (case v of JStr s \<Rightarrow> fromhex s | _ \<Rightarrow> Inl TypeError)"

definition json_hex_field :: "string \<Rightarrow> json \<Rightarrow> exn + bytes" where
  "json_hex_field k d = bind_exn (json_get k d) json_hex"

text \<open>
  A value as the key of a dictionary: a list or an object is not hashable; a value that is no
  string is written behind a byte that starts no text, a Boolean as the number it is equal to,
  a float by its literal.
\<close>

definition dict_key :: "json \<Rightarrow> string option" where
  "dict_key v =
     (case v of
        JStr s \<Rightarrow> Some s
      | JNull \<Rightarrow> Some (CHR 0xFF # ''null'')
      | JBool b \<Rightarrow> Some (CHR 0xFF # show_int (if b then 1 else 0))
      | JInt i \<Rightarrow> Some (CHR 0xFF # show_int i)
      | JFloat lit \<Rightarrow> Some (CHR 0xFF # lit)
      | JArr _ \<Rightarrow> None
      | JObj _ \<Rightarrow> None)"

lemma dict_key_JStr [simp]: "dict_key (JStr s) = Some s"
  by (simp add: dict_key_def)

text \<open>A dictionary's key as \<open>dumps\<close> writes it: a string.\<close>

definition key_text :: "string \<Rightarrow> string" where
  "key_text k = (case k of [] \<Rightarrow> [] | c # r \<Rightarrow> if c = CHR 0xFF then r else k)"

lemma key_text_ok: "utf8_ok s \<Longrightarrow> key_text s = s"
proof (cases s)
  case (Cons c r)
  assume "utf8_ok s"
  then have "c \<noteq> CHR 0xFF"
    by (auto simp: Cons utf8_ok_def code_points.simps [of "c # r"] decode_point_def split: option.splits)
  then show ?thesis by (simp add: Cons key_text_def)
qed (simp add: key_text_def)

lemma json_get_JObj [simp]:
  "json_get k (JObj m) = (case map_of m k of Some v \<Rightarrow> Inr v | None \<Rightarrow> Inl (KeyError k))"
  by (simp add: json_get_def)

lemma json_hex_JStr [simp]: "json_hex (JStr s) = fromhex s"
  by (simp add: json_hex_def)

end
