(* ===== verification/Json_Laws.thy ===== *)
theory Json_Laws
  imports Json
begin

text \<open>
  What holds of \<open>dumps\<close> and \<open>loads\<close>: the fuel of the parser is enough and more of it changes
  nothing, and a value written in either layout is read back.
\<close>

section \<open>Fuel\<close>

lemma and_then_Some: "and_then p f = Some x \<longleftrightarrow>
    (\<exists>e. p = Some (Inl e) \<and> x = Inl e) \<or> (\<exists>a r. p = Some (Inr (a, r)) \<and> f a r = Some x)"
  by (auto simp: and_then_def split: option.splits sum.splits)

lemma and_then_mono:
  assumes "and_then p f = Some x" and "\<And>y. p = Some y \<Longrightarrow> q = Some y"
    and "\<And>a r. p = Some (Inr (a, r)) \<Longrightarrow> f a r = Some x \<Longrightarrow> g a r = Some x"
  shows "and_then q g = Some x"
  using assms by (auto simp: and_then_Some)

lemma next_char_length: "next_char s = Some (c, r) \<Longrightarrow> length r < length s"
  using length_dropWhile_le [of json_space s]
  by (auto simp: next_char_def split: list.splits)

lemma scan_string_length: "scan_string s = Inr (v, r) \<Longrightarrow> length r < length s"
proof (induction s arbitrary: v r rule: length_induct)
  case (1 s)
  have step: "length t < length s \<longrightarrow> length r < length s" if "emit x (scan_string t) = Inr (v, r)" for x t
    using that 1(1) by (fastforce simp: emit_def map_sum_Inr)
  from 1(2) show ?case
    unfolding scan_string.simps [of s]
    by (auto split: list.splits option.splits if_splits dest!: hex4_length low_half_length step)
qed

lemma scan_number_length: "scan_number s = Inr (v, r) \<Longrightarrow> length r < length s"
proof -
  assume a: "scan_number s = Inr (v, r)"
  obtain sg t where m: "minus_sign s = (sg, t)" by (cases "minus_sign s")
  then have "length t \<le> length s"
    by (auto simp: minus_sign_def split: list.splits if_splits)
  moreover obtain i t1 where i: "int_part t = Some (i, t1)"
    using a m by (auto simp: scan_number_def split: option.splits)
  then have "length t1 < length t"
    using length_dropWhile_le [of is_digit "tl t"]
    by (auto simp: int_part_def split: list.splits if_splits)
  moreover obtain f t2 where f: "frac_part t1 = (f, t2)" by (cases "frac_part t1")
  then have "length t2 \<le> length t1"
    using length_dropWhile_le [of is_digit "tl t1"]
    by (auto simp: frac_part_def split: list.splits if_splits)
  moreover obtain e t3 where e: "exp_part t2 = (e, t3)" by (cases "exp_part t2")
  then have "length t3 \<le> length t2"
    using length_dropWhile_le [of is_digit "tl t2"] length_dropWhile_le [of is_digit "tl (tl t2)"]
    by (auto simp: exp_part_def exp_sign_def split: list.splits if_splits)
  moreover have "r = t3"
    using a m i f e by (auto simp: scan_number_def split: if_splits)
  ultimately show ?thesis by simp
qed

lemma scan_scalar_length: "scan_scalar s = Inr (v, r) \<Longrightarrow> length r < length s"
proof -
  assume a: "scan_scalar s = Inr (v, r)"
  have "s \<noteq> []"
    using a by (auto simp: scan_scalar_def starts_def scan_number_def minus_sign_def int_part_def)
  with a show ?thesis
    by (auto simp: scan_scalar_def dest: scan_number_length split: if_splits)
qed

lemma with_next_Some: "with_next s f = Some x \<longleftrightarrow>
    (next_char s = None \<and> x = Inl JSONDecodeError) \<or> (\<exists>c r. next_char s = Some (c, r) \<and> f c r = Some x)"
  by (auto simp: with_next_def split: option.splits)

text \<open>A successful call consumes at least one character.\<close>

definition consuming :: "(string \<Rightarrow> 'a parsed) \<Rightarrow> bool" where
  "consuming f \<longleftrightarrow> (\<forall>s a r. f s = Some (Inr (a, r)) \<longrightarrow> length r < length s)"

lemma consumingD: "consuming f \<Longrightarrow> f s = Some (Inr (a, r)) \<Longrightarrow> length r < length s"
  by (simp add: consuming_def)

lemma skip_space_length: "length (skip_space s) \<le> length s"
  by (rule length_dropWhile_le)

lemma consuming_value:
  assumes "consuming (scan_items k)" and "consuming (scan_members k)"
  shows "consuming (scan_value (Suc k))"
  unfolding consuming_def
proof (intro allI impI)
  fix s v r
  assume "scan_value (Suc k) s = Some (Inr (v, r))"
  then show "length r < length s"
    by (auto simp: and_then_Some with_next_Some map_sum_Inr split: list.splits if_splits
        dest!: next_char_length scan_string_length scan_scalar_length
          consumingD [OF assms(1)] consumingD [OF assms(2)])
qed

lemma consuming_items:
  assumes "consuming (scan_value k)" and "consuming (scan_items k)"
  shows "consuming (scan_items (Suc k))"
  unfolding consuming_def
proof (intro allI impI)
  fix s vs r
  assume "scan_items (Suc k) s = Some (Inr (vs, r))"
  then obtain v t d t' where v: "scan_value k s = Some (Inr (v, t))" and n: "next_char t = Some (d, t')"
    and r: "r = t' \<or> (\<exists>us. scan_items k (skip_space t') = Some (Inr (us, r)))"
    by (auto simp: and_then_Some with_next_Some split: if_splits)
  then show "length r < length s"
    using consumingD [OF assms(1) v] next_char_length [OF n] skip_space_length [of t']
      consumingD [OF assms(2), of "skip_space t'"] by fastforce
qed

lemma consuming_members:
  assumes "consuming (scan_value k)" and "consuming (scan_members k)"
  shows "consuming (scan_members (Suc k))"
  unfolding consuming_def
proof (intro allI impI)
  fix s m r
  assume "scan_members (Suc k) s = Some (Inr (m, r))"
  then obtain c s1 key t d t' v t'' d' u where s: "next_char s = Some (c, s1)"
    and key: "scan_string s1 = Inr (key, t)"
    and n: "next_char t = Some (d, t')" and v: "scan_value k (skip_space t') = Some (Inr (v, t''))"
    and n': "next_char t'' = Some (d', u)"
    and r: "r = u \<or> (\<exists>us. scan_members k u = Some (Inr (us, r)))"
    by (fastforce simp: and_then_Some with_next_Some split: if_splits)
  from scan_string_length [OF key] next_char_length [OF n] skip_space_length [of t'] consumingD [OF assms(1) v]
    next_char_length [OF n'] next_char_length [OF s] have "length u < length s" by linarith
  with r consumingD [OF assms(2), of u]
  show "length r < length s" by fastforce
qed

lemma scan_consuming: "consuming (scan_value k)" "consuming (scan_items k)" "consuming (scan_members k)"
proof -
  have "consuming (scan_value k) \<and> consuming (scan_items k) \<and> consuming (scan_members k)"
  proof (induction k)
    case 0
    then show ?case by (simp add: consuming_def)
  next
    case (Suc k)
    then show ?case by (simp only: consuming_value consuming_items consuming_members simp_thms)
  qed
  then show "consuming (scan_value k)" "consuming (scan_items k)" "consuming (scan_members k)" by auto
qed

text \<open>Enough fuel gives a result.\<close>

definition returns :: "'a parsed \<Rightarrow> bool" where
  "returns p \<longleftrightarrow> p \<noteq> None"

lemma returns_Some [simp]: "returns (Some x)"
  by (simp add: returns_def)

lemma with_next_total: "(\<And>c r. next_char s = Some (c, r) \<Longrightarrow> returns (f c r)) \<Longrightarrow> returns (with_next s f)"
  by (auto simp: with_next_def split: option.splits)

lemma and_then_total:
  "returns p \<Longrightarrow> (\<And>a r. p = Some (Inr (a, r)) \<Longrightarrow> returns (f a r)) \<Longrightarrow> returns (and_then p f)"
  by (auto simp: and_then_def returns_def split: option.splits sum.splits)

lemma with_next_container:
  assumes "\<And>a b. returns (f a b)" and "\<And>s. P s \<Longrightarrow> returns (p s)" and "\<And>d t. next_char r = Some (d, t) \<Longrightarrow> P (d # t)"
  shows "returns (with_next r (\<lambda>d t. if d = x then Some (Inr (y, t)) else and_then (p (d # t)) f))"
  using assms by (auto intro!: with_next_total and_then_total)

lemma scan_total_Suc:
  assumes v: "\<And>s. 2 * length s + 1 \<le> k \<Longrightarrow> returns (scan_value k s)"
    and i: "\<And>s. 2 * length s + 2 \<le> k \<Longrightarrow> returns (scan_items k s)"
    and m: "\<And>s. 2 * length s + 2 \<le> k \<Longrightarrow> returns (scan_members k s)"
  shows "2 * length s + 1 \<le> Suc k \<Longrightarrow> returns (scan_value (Suc k) s)"
    and "2 * length s + 2 \<le> Suc k \<Longrightarrow> returns (scan_items (Suc k) s)"
    and "2 * length s + 2 \<le> Suc k \<Longrightarrow> returns (scan_members (Suc k) s)"
proof -
  assume k: "2 * length s + 1 \<le> Suc k"
  have sub: "2 * length (d # t) + 2 \<le> k" if "next_char r = Some (d, t)" "s = c # r" for c r d t
    using k that next_char_length [of r d t] by simp
  show "returns (scan_value (Suc k) s)"
  proof (cases s)
    case (Cons c r)
    have "returns (with_next r (\<lambda>d t. if d = x then Some (Inr (y, t)) else and_then (scan_members k (d # t)) f))"
      if "\<And>a b. returns (f a b)" for x and y :: json and f
      using that m sub [OF _ Cons] by (rule with_next_container)
    moreover have "returns (with_next r (\<lambda>d t. if d = x then Some (Inr (y, t)) else and_then (scan_items k (d # t)) f))"
      if "\<And>a b. returns (f a b)" for x and y :: json and f
      using that i sub [OF _ Cons] by (rule with_next_container)
    ultimately show ?thesis by (simp add: Cons)
  qed simp
next
  assume k: "2 * length s + 2 \<le> Suc k"
  have "2 * length (skip_space t') + 2 \<le> k"
    if "scan_value k s = Some (Inr (v, t))" "next_char t = Some (d, t')" for v t d t'
    using k consumingD [OF scan_consuming(1) that(1)] next_char_length [OF that(2)] skip_space_length [of t'] by simp
  with k v i show "returns (scan_items (Suc k) s)"
    by (auto intro!: and_then_total with_next_total)
next
  assume k: "2 * length s + 2 \<le> Suc k"
  have a: "2 * length (skip_space t') + 1 \<le> k"
    if "next_char s = Some (CHR 0x22, s1)" "scan_string s1 = Inr (key, t)" "next_char t = Some (CHR '':'', t')" for s1 key t t'
    using k next_char_length [OF that(1)] scan_string_length [OF that(2)] next_char_length [OF that(3)]
      skip_space_length [of t'] by simp
  have b: "2 * length u + 2 \<le> k"
    if "next_char s = Some (CHR 0x22, s1)" "scan_string s1 = Inr (key, t)" "next_char t = Some (CHR '':'', t')"
      "scan_value k (skip_space t') = Some (Inr (v, t''))" "next_char t'' = Some (CHR '','', u)" for s1 key t t' v t'' u
    using a [OF that(1-3)] consumingD [OF scan_consuming(1) that(4)] next_char_length [OF that(5)]
      skip_space_length [of t'] k next_char_length [OF that(1)] scan_string_length [OF that(2)] next_char_length [OF that(3)]
    by simp
  have c: "returns (with_next t (\<lambda>d t'. if d \<noteq> CHR '':'' then malformed
      else and_then (scan_value k (skip_space t')) (\<lambda>v t''. with_next t'' (\<lambda>d' u.
        if d' = CHR ''}'' then Some (Inr ([(key, v)], u))
        else if d' = CHR '','' then and_then (scan_members k u) (\<lambda>m w. Some (Inr ((key, v) # m, w)))
        else malformed))))"
    if "next_char s = Some (CHR 0x22, s1)" "scan_string s1 = Inr (key, t)" for s1 key t
    using v [OF a [OF that]] m [OF b [OF that]]
    by (auto intro!: and_then_total with_next_total)
  show "returns (scan_members (Suc k) s)"
    unfolding scan_members.simps(2) by (rule with_next_total) (auto intro!: and_then_total c)
qed

lemma scan_total:
  "2 * length s + 1 \<le> k \<Longrightarrow> returns (scan_value k s)"
  "2 * length s + 2 \<le> k \<Longrightarrow> returns (scan_items k s)"
  "2 * length s + 2 \<le> k \<Longrightarrow> returns (scan_members k s)"
proof (induction k arbitrary: s)
  case (Suc k)
  { case 1 show ?case by (rule scan_total_Suc(1)) (fact Suc.IH 1)+ }
  { case 2 show ?case by (rule scan_total_Suc(2)) (fact Suc.IH 2)+ }
  { case 3 show ?case by (rule scan_total_Suc(3)) (fact Suc.IH 3)+ }
qed simp_all

text \<open>More fuel changes no result.\<close>

lemma with_next_mono:
  "with_next s f = Some x \<Longrightarrow> (\<And>c r. f c r = Some x \<Longrightarrow> g c r = Some x) \<Longrightarrow> with_next s g = Some x"
  by (auto simp: with_next_Some)

lemma scan_mono_Suc:
  assumes v: "\<And>s x. scan_value k s = Some x \<Longrightarrow> scan_value k' s = Some x"
    and i: "\<And>s x. scan_items k s = Some x \<Longrightarrow> scan_items k' s = Some x"
    and m: "\<And>s x. scan_members k s = Some x \<Longrightarrow> scan_members k' s = Some x"
  shows "scan_value (Suc k) s = Some x \<Longrightarrow> scan_value (Suc k') s = Some x"
    and "scan_items (Suc k) s = Some y \<Longrightarrow> scan_items (Suc k') s = Some y"
    and "scan_members (Suc k) s = Some z \<Longrightarrow> scan_members (Suc k') s = Some z"
proof -
  assume a: "scan_value (Suc k) s = Some x"
  have "with_next r (\<lambda>d t. if d = q then Some (Inr (w, t)) else and_then (scan_members k' (d # t)) f) = Some x"
    if "with_next r (\<lambda>d t. if d = q then Some (Inr (w, t)) else and_then (scan_members k (d # t)) f) = Some x"
    for r q and w :: json and f
    using that by (rule with_next_mono) (auto intro: and_then_mono m split: if_splits)
  moreover have "with_next r (\<lambda>d t. if d = q then Some (Inr (w, t)) else and_then (scan_items k' (d # t)) f) = Some x"
    if "with_next r (\<lambda>d t. if d = q then Some (Inr (w, t)) else and_then (scan_items k (d # t)) f) = Some x"
    for r q and w :: json and f
    using that by (rule with_next_mono) (auto intro: and_then_mono i split: if_splits)
  ultimately show "scan_value (Suc k') s = Some x"
    using a by (simp split: list.splits if_splits)
next
  assume "scan_items (Suc k) s = Some y"
  then show "scan_items (Suc k') s = Some y"
    by (auto elim!: with_next_mono and_then_mono intro: v i split: if_splits)
next
  assume "scan_members (Suc k) s = Some z"
  then show "scan_members (Suc k') s = Some z"
    by (auto elim!: with_next_mono and_then_mono split: if_splits) (erule v m)+
qed

lemma scan_mono:
  "scan_value k s = Some x \<Longrightarrow> scan_value (Suc k) s = Some x"
  "scan_items k s = Some y \<Longrightarrow> scan_items (Suc k) s = Some y"
  "scan_members k s = Some z \<Longrightarrow> scan_members (Suc k) s = Some z"
proof (induction k arbitrary: s x y z)
  case (Suc k)
  { case 1 then show ?case by (rule scan_mono_Suc(1) [rotated 3]) (fact Suc.IH)+ }
  { case 2 then show ?case by (rule scan_mono_Suc(2) [rotated 3]) (fact Suc.IH)+ }
  { case 3 then show ?case by (rule scan_mono_Suc(3) [rotated 3]) (fact Suc.IH)+ }
qed simp_all

lemma scan_mono_le:
  assumes "k \<le> k'"
  shows "scan_value k s = Some x \<Longrightarrow> scan_value k' s = Some x"
    and "scan_items k s = Some y \<Longrightarrow> scan_items k' s = Some y"
    and "scan_members k s = Some z \<Longrightarrow> scan_members k' s = Some z"
  using assms by (induction rule: dec_induct) (auto intro: scan_mono simp del: scan_value.simps scan_items.simps scan_members.simps)

lemma loads_fuel_total: "2 * length s + 1 \<le> k \<Longrightarrow> \<exists>r. loads_fuel k s = Some r"
  using scan_total(1) [of "skip_space s" k] skip_space_length [of s]
  by (auto simp: loads_fuel_def returns_def split: option.splits sum.splits)

lemma loads_fuel_mono: "loads_fuel k s = Some r \<Longrightarrow> k \<le> k' \<Longrightarrow> loads_fuel k' s = Some r"
  by (auto simp: loads_fuel_def scan_mono_le(1) split: option.splits)

lemma loads_fuel_loads:
  assumes "loads_fuel k s = Some r"
  shows "loads s = r"
proof -
  obtain r' where r': "loads_fuel (2 * length s + 2) s = Some r'"
    using loads_fuel_total [of s "2 * length s + 2"] by auto
  from loads_fuel_mono [OF assms, of "max k (2 * length s + 2)"] loads_fuel_mono [OF r', of "max k (2 * length s + 2)"]
  have "r = r'" by simp
  with r' show ?thesis by (simp add: loads_def del: add_2_eq_Suc')
qed

section \<open>Strings\<close>

lemma hex4_digits: "n < 65536 \<Longrightarrow> hex4 (hex4_text n @ t) = Some (n, t)"
proof -
  assume "n < 65536"
  then have "n div 4096 < 16" by linarith
  moreover have "n div 256 div 16 = n div 4096" "n div 16 div 16 = n div 256"
    by (simp_all add: div_mult2_eq [symmetric])
  moreover have "n div 4096 * 4096 + n div 256 mod 16 * 256 + n div 16 mod 16 * 16 + n mod 16 = n"
    using div_mult_mod_eq [of n 16] div_mult_mod_eq [of "n div 16" 16] div_mult_mod_eq [of "n div 256" 16] calculation
    by linarith
  ultimately show ?thesis
    by (simp add: hex4_def hex4_text_def hex_value_digit del: hex_value.simps)
qed

lemma scan_escape_u:
  assumes "n < 65536" and "\<not> surrogate n"
  shows "scan_string (escape_u n @ r) = emit (utf8_char n) (scan_string r)"
proof -
  have "n < 55296 \<or> 56320 \<le> n"
    using assms(2) by (auto simp: surrogate_def)
  with assms(1) show ?thesis
    by (elim disjE) (simp_all add: escape_u_def scan_string.simps [of "CHR 0x5C # _"] hex4_digits)
qed

lemma scan_high_half:
  assumes "55296 \<le> h" and "h < 56320" and "low_half t = Some (l, r)"
  shows "scan_string (escape_u h @ t) = emit (utf8_char (65536 + (h - 55296) * 1024 + (l - 56320))) (scan_string r)"
  using assms by (simp add: escape_u_def scan_string.simps [of "CHR 0x5C # _"] hex4_digits)

lemma scan_escape_pair:
  assumes "65536 \<le> n" and "n < 1114112"
  shows "scan_string (escape_u (55296 + (n - 65536) div 1024) @ escape_u (56320 + (n - 65536) mod 1024) @ r) =
    emit (utf8_char n) (scan_string r)"
proof -
  let ?h = "55296 + (n - 65536) div 1024" and ?l = "56320 + (n - 65536) mod 1024"
  have "(n - 65536) div 1024 < 1024"
    using assms by linarith
  then have h: "55296 \<le> ?h" "?h < 56320" by simp_all
  have "?l < 57344" by simp
  then have low: "low_half (escape_u ?l @ r) = Some (?l, r)"
    by (simp add: low_half_def escape_u_def hex4_digits)
  have sum: "65536 + (?h - 55296) * 1024 + (?l - 56320) = n"
    using assms div_mult_mod_eq [of "n - 65536" 1024] by simp
  show ?thesis
    using scan_high_half [OF h low] unfolding sum .
qed

lemma special_chars:
  "char_of (34::nat) = CHR 0x22" "char_of (92::nat) = CHR 0x5C" "char_of (10::nat) = CHR 0x0A" "char_of (13::nat) = CHR 0x0D"
  "char_of (9::nat) = CHR 0x09" "char_of (8::nat) = CHR 0x08" "char_of (12::nat) = CHR 0x0C"
  by (simp_all add: char_of_eq_iff)

lemma scan_escape_char:
  assumes "n < 1114112" and "\<not> surrogate n"
  shows "scan_string (escape_char n @ r) = emit (utf8_char n) (scan_string r)"
proof (cases "n \<in> {34, 92, 10, 13, 9, 8, 12}")
  case True
  then obtain e d where "escape_char n = [CHR 0x5C, e]" "e \<noteq> CHR ''u''" "simple_escape e = Some d" "d = char_of n" "n < 128"
    by (auto simp: escape_char_def simple_escape_def special_chars)
  then show ?thesis
    by (simp add: scan_string.simps [of "CHR 0x5C # _"] utf8_char_def)
next
  case other: False
  show ?thesis
  proof (cases "32 \<le> n \<and> n < 127")
    case True
    with other have "(char_of n :: char) \<noteq> CHR 0x22" "(char_of n :: char) \<noteq> CHR 0x5C" "of_char (char_of n :: char) = n"
      by (auto simp: char_of_eq_iff take_bit_nat_eq_self_iff take_bit_eq_mod)
    with True other show ?thesis
      by (simp add: escape_char_def scan_string.simps [of "_ # _"] utf8_char_def)
  next
    case False
    then have "n < 32 \<or> 127 \<le> n" by auto
    with other have "escape_char n =
        (if n < 65536 then escape_u n
         else escape_u (55296 + (n - 65536) div 1024) @ escape_u (56320 + (n - 65536) mod 1024))"
      by (elim disjE) (simp_all add: escape_char_def)
    then show ?thesis
      using assms scan_escape_u [of n r] scan_escape_pair [of n r] by simp
  qed
qed

lemma emit_emit: "emit a (emit b x) = emit (a @ b) x"
  by (cases x) (auto simp: emit_def)

lemma scan_escaped:
  assumes "list_all (\<lambda>n. n < 1114112 \<and> \<not> surrogate n) ns"
  shows "scan_string (concat (map escape_char ns) @ CHR 0x22 # r) = Inr (text_of ns, r)"
  using assms
proof (induction ns)
  case Nil
  then show ?case by (simp add: scan_string.simps text_of_def)
next
  case (Cons n ns)
  then show ?case by (simp add: scan_escape_char emit_def text_of_def)
qed

section \<open>Numbers\<close>

definition number_char :: "char \<Rightarrow> bool" where
  "number_char c \<longleftrightarrow> is_digit c \<or> c \<in> {CHR ''.'', CHR ''e'', CHR ''E'', CHR ''-'', CHR ''+''}"

text \<open>What may follow a value in a text \<open>dumps\<close> wrote.\<close>

definition ends_value :: "string \<Rightarrow> bool" where
  "ends_value r \<longleftrightarrow> (case r of [] \<Rightarrow> True | c # _ \<Rightarrow> \<not> number_char c)"

lemma span_append:
  assumes "ends_value r"
  shows "takeWhile is_digit (s @ r) = takeWhile is_digit s" "dropWhile is_digit (s @ r) = dropWhile is_digit s @ r"
proof -
  have "takeWhile is_digit r = [] \<and> dropWhile is_digit r = r"
    using assms by (cases r) (auto simp: ends_value_def number_char_def)
  then show "takeWhile is_digit (s @ r) = takeWhile is_digit s" "dropWhile is_digit (s @ r) = dropWhile is_digit s @ r"
    by (induction s) auto
qed

lemma frac_part_append: "ends_value r \<Longrightarrow> frac_part (s @ r) = apsnd (\<lambda>t. t @ r) (frac_part s)"
  by (cases s; cases r) (auto simp: frac_part_def span_append ends_value_def number_char_def)

lemma exp_sign_append: "ends_value r \<Longrightarrow> exp_sign (s @ r) = apsnd (\<lambda>t. t @ r) (exp_sign s)"
  by (cases s; cases r) (auto simp: exp_sign_def ends_value_def number_char_def)

lemma exp_part_append:
  assumes "ends_value r"
  shows "exp_part (s @ r) = apsnd (\<lambda>t. t @ r) (exp_part s)"
proof (cases s)
  case Nil
  with assms show ?thesis
    by (cases r) (auto simp: exp_part_def ends_value_def number_char_def)
next
  case (Cons c t)
  obtain sg u where "exp_sign t = (sg, u)" by (cases "exp_sign t")
  with assms show ?thesis
    by (simp add: Cons exp_part_def exp_sign_append span_append)
qed

lemma int_part_append:
  assumes "int_part s = Some (i, t)" and "ends_value r"
  shows "int_part (s @ r) = Some (i, t @ r)"
  using assms by (cases s) (auto simp: int_part_def span_append split: if_splits)

lemma scan_number_append:
  assumes "scan_number s = Inr (v, t)" and "ends_value r"
  shows "scan_number (s @ r) = Inr (v, t @ r)"
proof -
  obtain sg t0 where m: "minus_sign s = (sg, t0)" by (cases "minus_sign s")
  with assms(1) obtain i t1 where i: "int_part t0 = Some (i, t1)"
    by (auto simp: scan_number_def split: option.splits)
  obtain f t2 where f: "frac_part t1 = (f, t2)" by (cases "frac_part t1")
  obtain e t3 where e: "exp_part t2 = (e, t3)" by (cases "exp_part t2")
  have "s \<noteq> []"
    using m i by (auto simp: minus_sign_def int_part_def)
  with m have "minus_sign (s @ r) = (sg, t0 @ r)"
    by (cases s) (auto simp: minus_sign_def split: if_splits)
  with assms m i f e show ?thesis
    by (auto simp: scan_number_def int_part_append frac_part_append exp_part_append split: if_splits)
qed

lemma digit_char_values: "d < 10 \<Longrightarrow> of_char (digit_char d) = 48 + d"
  by (simp add: digit_char_def)

lemma digit_char_digit [simp]: "d < 10 \<Longrightarrow> is_digit (digit_char d)"
  by (simp add: is_digit_def digit_char_values)

lemma show_nat_digits: "list_all is_digit (show_nat n) \<and> show_nat n \<noteq> []"
  by (induction n rule: show_nat.induct) (subst (1 2) show_nat.simps, simp)

lemma read_show_nat: "read_nat (show_nat n) = n"
proof (induction n rule: show_nat.induct)
  case (1 n)
  show ?case
  proof (cases "n < 10")
    case True
    then show ?thesis by (simp add: show_nat.simps read_nat_def digit_char_values)
  next
    case False
    with 1 have "read_nat (show_nat (n div 10)) = n div 10" by simp
    with False show ?thesis
      by (simp add: show_nat.simps [of n] read_nat_def digit_char_values)
  qed
qed

lemma show_nat_zero: "show_nat n = c # t \<Longrightarrow> c = CHR ''0'' \<Longrightarrow> n = 0"
proof (induction n arbitrary: t rule: show_nat.induct)
  case (1 n)
  show ?case
  proof (cases "n < 10")
    case True
    then have "of_char c = (48 + n)" using 1(2) by (auto simp: show_nat.simps [of n] digit_char_values)
    with 1(3) show ?thesis by simp
  next
    case False
    obtain u where "show_nat (n div 10) = c # u"
      using 1(2) False show_nat_digits [of "n div 10"] by (cases "show_nat (n div 10)") (auto simp: show_nat.simps [of n])
    with 1 False have "n div 10 = 0" by simp
    with False show ?thesis by simp
  qed
qed

lemma int_part_show_nat: "int_part (show_nat n) = Some (show_nat n, [])"
proof -
  obtain c t where s: "show_nat n = c # t"
    using show_nat_digits [of n] by (cases "show_nat n") auto
  have d: "is_digit c" "list_all is_digit t"
    using show_nat_digits [of n] s by auto
  show ?thesis
  proof (cases "c = CHR ''0''")
    case True
    with s show_nat_zero [OF s] have "show_nat n = show_nat 0" by simp
    with s True show ?thesis by (simp add: int_part_def show_nat.simps [of 0])
  next
    case False
    with d show ?thesis
      by (simp add: s int_part_def takeWhile_eq_all_conv dropWhile_eq_Nil_conv list_all_iff)
  qed
qed

lemma scan_show_int:
  assumes "length (show_nat (nat \<bar>i\<bar>)) \<le> int_max_str_digits"
  shows "scan_number (show_int i) = Inr (JInt i, [])"
proof -
  have minus: "minus_sign (show_nat n) = ('''', show_nat n)" for n
    using show_nat_digits [of n] by (cases "show_nat n") (auto simp: minus_sign_def is_digit_def)
  show ?thesis
    using assms
    by (cases "i < 0") (auto simp: scan_number_def show_int_def minus minus_sign_def [of "_ # _"] int_part_show_nat frac_part_def
        exp_part_def read_show_nat)
qed

section \<open>Reading back what was written\<close>

text \<open>The values \<open>dumps\<close> is used for: text without surrogates, one value a key, floats as literals.\<close>

function wf_json :: "json \<Rightarrow> bool" where
  "wf_json JNull = True"
| "wf_json (JBool b) = True"
| "wf_json (JInt i) = (length (show_nat (nat \<bar>i\<bar>)) \<le> int_max_str_digits)"
| "wf_json (JFloat lit) =
     (lit \<in> {''NaN'', ''Infinity'', ''-Infinity''} \<or> scan_number lit = Inr (JFloat lit, []))"
| "wf_json (JStr s) = utf8_ok s"
| "wf_json (JArr js) = list_all wf_json js"
| "wf_json (JObj m) = (distinct (keys m) \<and> list_all (\<lambda>p. utf8_ok (fst p) \<and> wf_json (snd p)) m)"
  by pat_completeness auto
termination
  by (relation "measure size") (auto simp: size_list_estimation' less_Suc_eq_le dest: size_member)

lemma next_char_simps [simp]:
  "\<not> json_space c \<Longrightarrow> next_char (c # s) = Some (c, s)"
  "json_space c \<Longrightarrow> next_char (c # s) = next_char s"
  by (simp_all add: next_char_def)

lemma json_space_simps [simp]:
  "\<not> json_space CHR '']''" "\<not> json_space CHR ''}''" "\<not> json_space CHR '',''" "\<not> json_space CHR '':''"
  "\<not> json_space CHR 0x22" "\<not> json_space CHR ''{''" "\<not> json_space CHR ''[''" "json_space CHR '' ''"
  "json_space CHR 0x0A"
  by (simp_all add: json_space_def)

lemma skip_new_line [simp]: "skip_space (new_line ind l @ s) = skip_space s"
proof -
  have "skip_space (replicate n (CHR '' '') @ s) = skip_space s" for n
    by (induction n) simp_all
  then show ?thesis by (simp add: new_line_def split: option.splits)
qed

lemma next_new_line [simp]: "next_char (new_line ind l @ s) = next_char s"
  by (simp add: next_char_def)

lemma ends_value_simps [simp]:
  "ends_value []" "ends_value (CHR '']'' # s)" "ends_value (CHR ''}'' # s)" "ends_value (CHR '','' # s)"
  "ends_value (CHR 0x0A # s)"
  by (simp_all add: ends_value_def number_char_def is_digit_def)

lemma ends_value_new_line: "ends_value s \<Longrightarrow> ends_value (new_line ind l @ s)"
  by (simp add: new_line_def split: option.splits)

definition value_of :: "string \<Rightarrow> json \<Rightarrow> string \<Rightarrow> bool" where
  "value_of s v r \<longleftrightarrow> (\<exists>k. scan_value k s = Some (Inr (v, r)))"

definition items_of :: "string \<Rightarrow> json list \<Rightarrow> string \<Rightarrow> bool" where
  "items_of s vs r \<longleftrightarrow> (\<exists>k. scan_items k s = Some (Inr (vs, r)))"

definition members_of :: "string \<Rightarrow> (string \<times> json) list \<Rightarrow> string \<Rightarrow> bool" where
  "members_of s m r \<longleftrightarrow> (\<exists>k. scan_members k s = Some (Inr (m, r)))"

lemma items_last:
  assumes "value_of s v t" and "next_char t = Some (CHR '']'', u)"
  shows "items_of s [v] u"
proof -
  from assms(1) obtain k where "scan_value k s = Some (Inr (v, t))"
    by (auto simp: value_of_def)
  with assms(2) have "scan_items (Suc k) s = Some (Inr ([v], u))"
    by (simp add: and_then_def with_next_def)
  then show ?thesis unfolding items_of_def by blast
qed

lemma items_more:
  assumes "value_of s v t" and "next_char t = Some (CHR '','', u)" and "items_of (skip_space u) vs w"
  shows "items_of s (v # vs) w"
proof -
  from assms(1,3) obtain k k' where "scan_value k s = Some (Inr (v, t))" "scan_items k' (skip_space u) = Some (Inr (vs, w))"
    by (auto simp: value_of_def items_of_def)
  then have "scan_value (max k k') s = Some (Inr (v, t))" "scan_items (max k k') (skip_space u) = Some (Inr (vs, w))"
    by (auto intro: scan_mono_le(1) [OF max.cobounded1] scan_mono_le(2) [OF max.cobounded2])
  with assms(2) have "scan_items (Suc (max k k')) s = Some (Inr (v # vs, w))"
    by (simp add: and_then_def with_next_def)
  then show ?thesis unfolding items_of_def by blast
qed

lemma members_last:
  assumes "scan_string s = Inr (key, t)" and "next_char t = Some (CHR '':'', t')"
    and "value_of (skip_space t') v t''" and "next_char t'' = Some (CHR ''}'', u)"
  shows "members_of (CHR 0x22 # s) [(key, v)] u"
proof -
  from assms(3) obtain k where "scan_value k (skip_space t') = Some (Inr (v, t''))"
    by (auto simp: value_of_def)
  with assms have "scan_members (Suc k) (CHR 0x22 # s) = Some (Inr ([(key, v)], u))"
    by (simp add: and_then_def with_next_def)
  then show ?thesis unfolding members_of_def by blast
qed

lemma members_more:
  assumes "scan_string s = Inr (key, t)" and "next_char t = Some (CHR '':'', t')"
    and "value_of (skip_space t') v t''" and "next_char t'' = Some (CHR '','', u)" and "members_of u m w"
  shows "members_of (CHR 0x22 # s) ((key, v) # m) w"
proof -
  from assms(3,5) obtain k k' where "scan_value k (skip_space t') = Some (Inr (v, t''))"
    "scan_members k' u = Some (Inr (m, w))"
    by (auto simp: value_of_def members_of_def)
  then have "scan_value (max k k') (skip_space t') = Some (Inr (v, t''))" "scan_members (max k k') u = Some (Inr (m, w))"
    by (auto intro: scan_mono_le(1) [OF max.cobounded1] scan_mono_le(3) [OF max.cobounded2])
  with assms have "scan_members (Suc (max k k')) (CHR 0x22 # s) = Some (Inr ((key, v) # m, w))"
    by (simp add: and_then_def with_next_def)
  then show ?thesis unfolding members_of_def by blast
qed

lemma members_space: "members_of s m w \<Longrightarrow> next_char s' = next_char s \<Longrightarrow> members_of s' m w"
proof -
  assume "members_of s m w" and n: "next_char s' = next_char s"
  then obtain k where k: "scan_members k s = Some (Inr (m, w))"
    by (auto simp: members_of_def)
  then have "scan_members k s' = Some (Inr (m, w))"
    using n by (cases k) (simp_all add: with_next_def)
  then show ?thesis unfolding members_of_def by blast
qed

lemma decode_point_bound: "decode_point s = Some (n, r) \<Longrightarrow> n < 1114112"
  by (auto simp: decode_point_def Let_def split: list.splits if_splits option.splits)

lemma code_points_bound: "code_points s = Some ns \<Longrightarrow> list_all (\<lambda>n. n < 1114112) ns"
proof (induction s arbitrary: ns rule: code_points.induct)
  case (1 s)
  then show ?case
    by (auto simp: code_points.simps [of s] dest: decode_point_bound split: if_splits option.splits)
qed

lemma scan_quote:
  assumes "utf8_ok s"
  shows "\<exists>t. quote s = CHR 0x22 # t \<and> (\<forall>r. scan_string (t @ r) = Inr (s, r))"
proof -
  from assms obtain ns where ns: "code_points s = Some ns" and ok: "list_all (\<lambda>n. \<not> surrogate n) ns"
    by (auto simp: utf8_ok_def split: option.splits)
  with code_points_bound [OF ns] have "list_all (\<lambda>n. n < 1114112 \<and> \<not> surrogate n) ns"
    by (simp add: list_all_iff)
  then have "scan_string (concat (map escape_char ns) @ CHR 0x22 # r) = Inr (s, r)" for r
    using scan_escaped [of ns r] text_of_code_points [OF ns] by simp
  with ns show ?thesis by (simp add: quote_def)
qed

lemma value_of_quote: "utf8_ok s \<Longrightarrow> value_of (quote s @ r) (JStr s) r"
proof -
  assume "utf8_ok s"
  then obtain t where "quote s = CHR 0x22 # t" "scan_string (t @ r) = Inr (s, r)"
    using scan_quote by blast
  then have "scan_value (Suc 0) (quote s @ r) = Some (Inr (JStr s, r))" by simp
  then show ?thesis unfolding value_of_def by blast
qed

text \<open>A value's text starts with a character that is neither space nor a closing bracket.\<close>

definition starts_value :: "string \<Rightarrow> bool" where
  "starts_value s \<longleftrightarrow>
     (case s of [] \<Rightarrow> False | c # _ \<Rightarrow> \<not> json_space c \<and> c \<noteq> CHR '']'' \<and> c \<noteq> CHR ''}'')"

lemma starts_value_append: "starts_value s \<Longrightarrow> starts_value (s @ r)"
  by (cases s) (auto simp: starts_value_def)

lemma starts_value_next: "starts_value s \<Longrightarrow> next_char s = Some (hd s, tl s)"
  by (cases s) (auto simp: starts_value_def)

lemma starts_value_quote: "starts_value (quote s @ r)"
  by (simp add: quote_def starts_value_def)

lemma starts_value_skip: "starts_value s \<Longrightarrow> skip_space s = s"
  by (cases s) (auto simp: starts_value_def)

lemma digit_starts: "is_digit c \<Longrightarrow> starts_value (c # s)"
  by (auto simp: starts_value_def json_space_def is_digit_def Let_def)

text \<open>A number's text starts with a digit, or with a minus sign and a digit.\<close>

lemma scan_number_starts:
  assumes "scan_number s = Inr (v, r)"
  obtains c t where "s = c # t" "is_digit c"
    | c t where "s = CHR ''-'' # c # t" "is_digit c"
proof -
  obtain sg t where m: "minus_sign s = (sg, t)" by (cases "minus_sign s")
  with assms obtain i u where "int_part t = Some (i, u)"
    by (auto simp: scan_number_def split: option.splits)
  then obtain c w where t: "t = c # w" "is_digit c"
    by (cases t) (auto simp: int_part_def is_digit_def split: if_splits)
  from m that t show ?thesis
    by (cases s) (auto simp: minus_sign_def split: if_splits)
qed

lemma scan_scalar_number:
  assumes "scan_number s = Inr (v, [])" and "ends_value r"
  shows "scan_scalar (s @ r) = Inr (v, r)"
  using assms(1)
proof (cases rule: scan_number_starts)
  case (1 c t)
  then have "\<not> starts (d # p) (s @ r)" if "\<not> is_digit d" for d p
    using that by (auto simp: starts_def)
  then show ?thesis
    using scan_number_append [OF assms] by (simp add: scan_scalar_def is_digit_def)
next
  case (2 c t)
  then have "\<not> starts (d # e # p) (s @ r)" if "d \<noteq> CHR ''-'' \<or> \<not> is_digit e" for d e p
    using that by (auto simp: starts_def)
  then show ?thesis
    using scan_number_append [OF assms] by (simp add: scan_scalar_def is_digit_def)
qed

lemma value_of_number:
  assumes "scan_number s = Inr (v, [])" and "ends_value r"
  shows "value_of (s @ r) v r" and "starts_value s"
proof -
  from assms(1) obtain c t where s: "s = c # t" "is_digit c \<or> c = CHR ''-''"
    by (cases rule: scan_number_starts) auto
  then have c: "c \<noteq> CHR 0x22" "c \<noteq> CHR ''{''" "c \<noteq> CHR ''[''"
    by (auto simp: is_digit_def)
  have "scan_value (Suc 0) (s @ r) = Some (scan_scalar (s @ r))"
    using c by (simp add: s(1))
  then show "value_of (s @ r) v r"
    using scan_scalar_number [OF assms] unfolding value_of_def by (metis (lifting))
  show "starts_value s"
    using s digit_starts [of c t] by (auto simp: starts_value_def json_space_def)
qed

lemma value_of_constant:
  "value_of (''null'' @ r) JNull r" "value_of (''true'' @ r) (JBool True) r" "value_of (''false'' @ r) (JBool False) r"
  "value_of (''NaN'' @ r) (JFloat ''NaN'') r" "value_of (''Infinity'' @ r) (JFloat ''Infinity'') r"
  "value_of (''-Infinity'' @ r) (JFloat ''-Infinity'') r"
  unfolding value_of_def by (rule exI [of _ "Suc 0"], simp add: scan_scalar_def starts_def)+

lemma dump_starts: "wf_json j \<Longrightarrow> starts_value (dump ind l j)"
proof (cases j)
  case (JFloat lit)
  assume "wf_json j"
  then show ?thesis
    using value_of_number(2) [of lit "JFloat lit" "[]"] JFloat by (auto simp: starts_value_def json_space_def)
next
  case (JInt i)
  assume "wf_json j"
  then show ?thesis
    using value_of_number(2) [OF scan_show_int, of i "[]"] JInt by simp
qed (auto simp: starts_value_def json_space_def quote_def)

section \<open>Containers\<close>

lemma next_separator: "\<exists>u. next_char (item_separator ind l @ s) = Some (CHR '','', u) \<and> skip_space u = skip_space s"
  by (cases ind) (simp_all add: item_separator_def)

lemma ends_value_separator: "ends_value (item_separator ind l @ s)"
  by (cases ind) (simp_all add: item_separator_def)

lemma items_of_join:
  assumes "js \<noteq> []" and "\<And>j. j \<in> set js \<Longrightarrow> starts_value (f j)"
    and "\<And>j t. j \<in> set js \<Longrightarrow> ends_value t \<Longrightarrow> value_of (f j @ t) j t"
  shows "items_of (join (item_separator ind l) (map f js) @ new_line ind l' @ CHR '']'' # r) js r"
  using assms
proof (induction js rule: induct_list012)
  case (2 j)
  then have "value_of (f j @ new_line ind l' @ CHR '']'' # r) j (new_line ind l' @ CHR '']'' # r)"
    by (simp add: ends_value_new_line)
  from items_last [OF this, of r] show ?case by simp
next
  case (3 j j' js)
  let ?rest = "join (item_separator ind l) (map f (j' # js)) @ new_line ind l' @ CHR '']'' # r"
  obtain u where u: "next_char (item_separator ind l @ ?rest) = Some (CHR '','', u)" "skip_space u = skip_space ?rest"
    using next_separator by blast
  have "starts_value ?rest"
    using 3(4) [of j'] starts_value_append by (cases js) auto
  with u(2) have skip: "skip_space u = ?rest"
    by (simp add: starts_value_skip)
  have "items_of ?rest (j' # js) r"
    using 3 by auto
  moreover have "value_of (f j @ item_separator ind l @ ?rest) j (item_separator ind l @ ?rest)"
    by (rule 3(5)) (simp_all add: ends_value_separator)
  ultimately show ?case
    using items_more [OF _ u(1)] skip by simp
qed simp

lemma members_of_join:
  assumes "m \<noteq> []" and "\<And>p. p \<in> set m \<Longrightarrow> utf8_ok (fst p) \<and> starts_value (f (snd p))"
    and "\<And>p t. p \<in> set m \<Longrightarrow> ends_value t \<Longrightarrow> value_of (f (snd p) @ t) (snd p) t"
  shows "members_of (join (item_separator ind l) (map (\<lambda>p. quote (fst p) @ '': '' @ f (snd p)) m) @
      new_line ind l' @ CHR ''}'' # r) m r"
  using assms
proof (induction m rule: induct_list012)
  case (2 p)
  let ?closing = "new_line ind l' @ CHR ''}'' # r"
  have p: "utf8_ok (fst p)" "starts_value (f (snd p))"
    using 2(2) by simp_all
  obtain t where q: "quote (fst p) = CHR 0x22 # t" and scan: "\<And>r. scan_string (t @ r) = Inr (fst p, r)"
    using scan_quote [OF p(1)] by auto
  have "value_of (f (snd p) @ ?closing) (snd p) ?closing"
    by (rule 2(3)) (simp_all add: ends_value_new_line)
  moreover have "skip_space (f (snd p) @ ?closing) = f (snd p) @ ?closing"
    using p(2) by (simp add: starts_value_skip starts_value_append)
  ultimately have "members_of (CHR 0x22 # t @ '': '' @ f (snd p) @ ?closing) [(fst p, snd p)] r"
    by (intro members_last [OF scan, where t' = "CHR '' '' # f (snd p) @ ?closing" and t'' = ?closing]) simp_all
  then show ?case by (simp add: q)
next
  case (3 p p' m)
  let ?g = "\<lambda>p. quote (fst p) @ '': '' @ f (snd p)"
  let ?rest = "join (item_separator ind l) (map ?g (p' # m)) @ new_line ind l' @ CHR ''}'' # r"
  let ?more = "item_separator ind l @ ?rest"
  have p: "utf8_ok (fst p)" "starts_value (f (snd p))"
    using 3(4) by simp_all
  obtain t where q: "quote (fst p) = CHR 0x22 # t" and scan: "\<And>r. scan_string (t @ r) = Inr (fst p, r)"
    using scan_quote [OF p(1)] by auto
  obtain u where u: "next_char ?more = Some (CHR '','', u)" "skip_space u = skip_space ?rest"
    using next_separator by blast
  have "members_of ?rest (p' # m) r"
    using 3 by auto
  then have "members_of u (p' # m) r"
    by (rule members_space) (simp add: next_char_def u(2))
  moreover have "value_of (f (snd p) @ ?more) (snd p) ?more"
    by (rule 3(5)) (simp_all add: ends_value_separator)
  moreover have "skip_space (f (snd p) @ ?more) = f (snd p) @ ?more"
    using p(2) by (simp add: starts_value_skip starts_value_append)
  ultimately have "members_of (CHR 0x22 # t @ '': '' @ f (snd p) @ ?more) ((fst p, snd p) # p' # m) r"
    by (intro members_more [OF scan _ _ u(1), where t' = "CHR '' '' # f (snd p) @ ?more"]) simp_all
  then show ?case by (simp add: q)
qed simp

lemma dict_of_distinct: "distinct (keys m) \<Longrightarrow> dict_of m = m"
proof -
  have "fold (\<lambda>(k, v). AList.update k v) m d = d @ m"
    if "distinct (keys m)" "set (keys m) \<inter> set (keys d) = {}" for m d :: "(string, json) dict"
    using that
  proof (induction m arbitrary: d)
    case (Cons p m)
    obtain k v where p: "p = (k, v)" by (cases p)
    with Cons.prems have "k \<notin> set (keys d)" by auto
    with Cons p show ?case by (simp add: update_fresh)
  qed simp
  from this [of m "[]"] show "distinct (keys m) \<Longrightarrow> dict_of m = m"
    by (simp add: dict_of_def)
qed

lemma value_of_array:
  assumes "next_char s = Some (c, t)" and "c \<noteq> CHR '']''" and "items_of (c # t) js r"
  shows "value_of (CHR ''['' # s) (JArr js) r"
proof -
  from assms(3) obtain k where "scan_items k (c # t) = Some (Inr (js, r))"
    by (auto simp: items_of_def)
  with assms have "scan_value (Suc k) (CHR ''['' # s) = Some (Inr (JArr js, r))"
    by (simp add: and_then_def with_next_def)
  then show ?thesis unfolding value_of_def by blast
qed

lemma value_of_object:
  assumes "next_char s = Some (c, t)" and "c \<noteq> CHR ''}''" and "members_of (c # t) m r"
  shows "value_of (CHR ''{'' # s) (JObj (dict_of m)) r"
proof -
  from assms(3) obtain k where "scan_members k (c # t) = Some (Inr (m, r))"
    by (auto simp: members_of_def)
  with assms have "scan_value (Suc k) (CHR ''{'' # s) = Some (Inr (JObj (dict_of m), r))"
    by (simp add: and_then_def with_next_def)
  then show ?thesis unfolding value_of_def by blast
qed

lemma value_of_empty: "value_of (''[]'' @ r) (JArr []) r" "value_of (''{}'' @ r) (JObj []) r"
  unfolding value_of_def by (rule exI [of _ "Suc 0"], simp add: with_next_def)+

lemma starts_value_inner:
  "starts_value (s @ r) \<Longrightarrow> next_char (new_line ind l @ s @ r) = Some (hd (s @ r), tl (s @ r))"
  by (simp add: starts_value_next)

lemma value_of_dump: "wf_json j \<Longrightarrow> ends_value r \<Longrightarrow> value_of (dump ind l j @ r) j r"
proof (induction ind l j arbitrary: r rule: dump.induct)
  case (3 ind level i)
  then show ?case using value_of_number(1) [OF scan_show_int] by simp
next
  case (4 ind level lit)
  then show ?case using value_of_number(1) value_of_constant(4-6) [of r] by auto
next
  case (6 ind level js)
  show ?case
  proof (cases "js = []")
    case True
    then show ?thesis using value_of_empty by simp
  next
    case False
    let ?in = "join (item_separator ind (level + 1)) (map (dump ind (level + 1)) js) @ new_line ind level @ CHR '']'' # r"
    have items: "items_of ?in js r"
      by (rule items_of_join [OF False]) (use 6 False in \<open>auto simp: dump_starts list_all_iff\<close>)
    have "starts_value (dump ind (level + 1) (hd js))"
      using 6 False by (intro dump_starts) (simp add: list_all_iff)
    with False have "starts_value ?in"
      by (cases js rule: remdups_adj.cases) (simp_all add: starts_value_append)
    then obtain c t where "?in = c # t" "c \<noteq> CHR '']''" "next_char (new_line ind (level + 1) @ ?in) = Some (c, t)"
      by (cases ?in) (auto simp: starts_value_def)
    with items value_of_array [of "new_line ind (level + 1) @ ?in" c t js r] False show ?thesis by simp
  qed
next
  case (7 ind level m)
  show ?case
  proof (cases "m = []")
    case True
    then show ?thesis using value_of_empty by simp
  next
    case False
    let ?g = "\<lambda>p. quote (fst p) @ '': '' @ dump ind (level + 1) (snd p)"
    let ?in = "join (item_separator ind (level + 1)) (map ?g m) @ new_line ind level @ CHR ''}'' # r"
    have members: "members_of ?in m r"
      by (rule members_of_join [OF False]) (use 7 False in \<open>auto simp: dump_starts list_all_iff\<close>)
    from False have "starts_value ?in"
      by (cases m rule: remdups_adj.cases) (simp_all add: starts_value_quote)
    then obtain c t where "?in = c # t" "c \<noteq> CHR ''}''" "next_char (new_line ind (level + 1) @ ?in) = Some (c, t)"
      by (cases ?in) (auto simp: starts_value_def)
    with members value_of_object [of "new_line ind (level + 1) @ ?in" c t m r] False 7(2) show ?thesis
      by (simp add: dict_of_distinct)
  qed
qed (simp_all add: value_of_constant [simplified] value_of_quote)

lemma loads_dump: "wf_json j \<Longrightarrow> loads (dump ind l j) = Inr j"
proof -
  assume wf: "wf_json j"
  then obtain k where "scan_value k (dump ind l j) = Some (Inr (j, []))"
    using value_of_dump [of j "[]" ind l] by (auto simp: value_of_def)
  then have "loads_fuel k (dump ind l j) = Some (Inr j)"
    using dump_starts [OF wf] by (simp add: loads_fuel_def starts_value_skip)
  then show ?thesis by (rule loads_fuel_loads)
qed

lemma loads_dumps: "wf_json j \<Longrightarrow> loads (dumps j) = Inr j" "wf_json j \<Longrightarrow> loads (dumps_indent2 j) = Inr j"
  by (simp_all add: dumps_def dumps_indent2_def loads_dump)

section \<open>Everything written is ASCII\<close>

definition is_ascii :: "string \<Rightarrow> bool" where
  "is_ascii s \<longleftrightarrow> (\<forall>c \<in> set s. of_char c < (128 :: nat))"

lemma is_ascii_simps [simp]:
  "is_ascii []" "is_ascii (c # s) \<longleftrightarrow> of_char c < (128 :: nat) \<and> is_ascii s"
  "is_ascii (s @ t) \<longleftrightarrow> is_ascii s \<and> is_ascii t"
  by (auto simp: is_ascii_def)

lemma is_ascii_concat: "is_ascii (concat xs) \<longleftrightarrow> (\<forall>x \<in> set xs. is_ascii x)"
  by (induction xs) auto

lemma is_ascii_join: "is_ascii sep \<Longrightarrow> (\<forall>x \<in> set xs. is_ascii x) \<Longrightarrow> is_ascii (join sep xs)"
  by (induction sep xs rule: join.induct) auto

lemma hex_digit_ascii: "n < 16 \<Longrightarrow> of_char (hex_digits ! n) < (128 :: nat)"
proof -
  assume "n < 16"
  then have "hex_digits ! n \<in> set hex_digits"
    by (intro nth_mem) (simp add: hex_digits_def)
  then show ?thesis by (auto simp: hex_digits_def)
qed

lemma is_ascii_escape: "is_ascii (escape_char n)"
proof -
  have u: "is_ascii (escape_u m)" for m
    by (simp add: escape_u_def hex4_text_def hex_digit_ascii)
  show ?thesis
    by (auto simp: escape_char_def u)
qed

lemma is_ascii_quote: "is_ascii (quote s)"
  by (simp add: quote_def is_ascii_concat is_ascii_escape split: option.splits)

lemma digits_ascii: "list_all is_digit s \<Longrightarrow> is_ascii s"
  by (induction s) (auto simp: is_digit_def Let_def)

lemma digit_ascii: "is_digit c \<Longrightarrow> of_char c < (128 :: nat)"
  by (simp add: is_digit_def Let_def)

lemma is_ascii_new_line: "is_ascii (new_line ind l)"
  by (auto simp: new_line_def is_ascii_def split: option.splits)

lemma is_ascii_layout: "is_ascii (new_line ind l)" "is_ascii (item_separator ind l)"
  by (simp_all add: item_separator_def is_ascii_new_line split: option.splits)

lemma scan_number_ascii:
  assumes "scan_number s = Inr (v, [])"
  shows "is_ascii s"
proof -
  obtain sg t where m: "minus_sign s = (sg, t)" by (cases "minus_sign s")
  then have s: "s = sg @ t" "is_ascii sg"
    by (auto simp: minus_sign_def split: list.splits if_splits)
  obtain i t1 where i: "int_part t = Some (i, t1)"
    using assms m by (auto simp: scan_number_def split: option.splits)
  have digits: "is_ascii (takeWhile is_digit w)" for w
    by (rule digits_ascii) (induction w, auto)
  from i have t: "t = i @ t1" "is_ascii i"
    by (auto simp: int_part_def digits digit_ascii split: list.splits if_splits)
  obtain f t2 where f: "frac_part t1 = (f, t2)" by (cases "frac_part t1")
  then have t1: "t1 = f @ t2" "is_ascii f"
    by (auto simp: frac_part_def digits split: list.splits if_splits)
  obtain e t3 where e: "exp_part t2 = (e, t3)" by (cases "exp_part t2")
  then have t2: "t2 = e @ t3" "is_ascii e"
    by (auto simp: exp_part_def exp_sign_def digits digit_ascii split: list.splits if_splits)
  have "t3 = []"
    using assms m i f e by (auto simp: scan_number_def split: if_splits)
  with s t t1 t2 show ?thesis by simp
qed

lemma is_ascii_dump: "wf_json j \<Longrightarrow> is_ascii (dump ind l j)"
proof (induction ind l j rule: dump.induct)
  case (3 ind level i)
  then show ?case using scan_number_ascii [OF scan_show_int] by simp
next
  case (4 ind level lit)
  then show ?case using scan_number_ascii [of lit] by auto
next
  case (6 ind level js)
  then show ?case by (auto simp: is_ascii_layout list_all_iff intro!: is_ascii_join)
next
  case (7 ind level m)
  then show ?case by (auto simp: is_ascii_layout is_ascii_quote list_all_iff intro!: is_ascii_join)
qed (simp_all add: is_ascii_quote)

lemma decode_dump: "wf_json j \<Longrightarrow> bind_exn (decode_utf8 (ascii (dump ind l j))) loads = Inr j"
proof -
  assume wf: "wf_json j"
  then have "utf8_ok (dump ind l j)"
    using is_ascii_dump [OF wf] by (auto simp: is_ascii_def intro: ascii_text_ok)
  then show ?thesis
    using wf by (simp add: decode_utf8_def chars_of_bytes loads_dump)
qed

section \<open>What the parser raises\<close>

lemma loads_exceptions:
  assumes "loads s = Inl e"
  shows "e \<in> {JSONDecodeError, ValueError}"
proof -
  have emit: "e = JSONDecodeError" if "scan_string t = Inl e" for t e
    using that
  proof (induction t rule: length_induct)
    case (1 t)
    have step: "length u < length t \<longrightarrow> e = JSONDecodeError" if "emit x (scan_string u) = Inl e" for x u
      using that 1(1) by (auto simp: emit_def map_sum_id_Inl)
    from 1(2) show ?case
      unfolding scan_string.simps [of t]
      by (auto split: list.splits option.splits if_splits dest!: hex4_length low_half_length step)
  qed
  have number: "e \<in> {JSONDecodeError, ValueError}" if "scan_number t = Inl e" for t e
    using that by (auto simp: scan_number_def Let_def split: prod.splits option.splits if_splits)
  have scalar: "e \<in> {JSONDecodeError, ValueError}" if "scan_scalar t = Inl e" for t e
    using that number by (auto simp: scan_scalar_def split: if_splits)
  have scan: "(scan_value k t = Some (Inl e) \<longrightarrow> e \<in> {JSONDecodeError, ValueError}) \<and>
      (scan_items k t = Some (Inl e) \<longrightarrow> e \<in> {JSONDecodeError, ValueError}) \<and>
      (scan_members k t = Some (Inl e) \<longrightarrow> e \<in> {JSONDecodeError, ValueError})" for k t e
  proof (induction k arbitrary: t e)
    case (Suc k)
    have v: "scan_value (Suc k) t = Some (Inl e) \<Longrightarrow> e \<in> {JSONDecodeError, ValueError}"
      using Suc emit scalar by (auto simp: and_then_Some with_next_Some map_sum_id_Inl split: list.splits if_splits)
    have i: "scan_items (Suc k) t = Some (Inl e) \<Longrightarrow> e \<in> {JSONDecodeError, ValueError}"
      using Suc by (auto simp: and_then_Some with_next_Some split: if_splits)
    have m: "scan_members (Suc k) t = Some (Inl e) \<Longrightarrow> e \<in> {JSONDecodeError, ValueError}"
      using Suc emit by (auto simp: and_then_Some with_next_Some split: if_splits)
    from v i m show ?case by blast
  qed simp
  define k where "k = 2 * length s + 2"
  from assms show ?thesis
    unfolding loads_def k_def [symmetric] loads_fuel_def
    using scan by (auto split: option.splits sum.splits if_splits)
qed

section \<open>The length of a text\<close>

lemma quote_length: "length (quote s) \<le> 12 * length s + 2"
proof (cases "code_points s")
  case (Some ns)
  have "length (escape_char n) \<le> 12" for n
    by (simp add: escape_char_def escape_u_def hex4_text_def)
  then have "length (concat (map escape_char ns)) \<le> 12 * length ns"
    by (induction ns) (simp_all add: add_le_mono)
  with Some code_points_length [OF Some] show ?thesis by (simp add: quote_def)
qed (simp add: quote_def)

lemma join_length: "\<forall>x \<in> set xs. length x \<le> b \<Longrightarrow> length (join '', '' xs) \<le> length xs * (b + 2)"
  by (induction "'', ''" xs rule: join.induct) auto

lemma show_nat_length: "n < 10 ^ k \<Longrightarrow> 0 < k \<Longrightarrow> length (show_nat n) \<le> k"
proof (induction n arbitrary: k rule: show_nat.induct)
  case (1 n)
  show ?case
  proof (cases "n < 10")
    case False
    with 1(2,3) obtain j where k: "k = Suc j" "0 < j" by (cases k; cases "k - 1") auto
    with 1(1) [OF False, of j] 1(2) False show ?thesis by (auto simp: show_nat.simps [of n])
  qed (use 1 in \<open>simp add: show_nat.simps [of n]\<close>)
qed

end
