(* ===== verification/Audit_Log.thy ===== *)
theory Audit_Log
  imports Prelude
begin

text \<open>
  \<open>audit_log.py\<close>: the security events, their stable identifiers, the logging levels with
  SECURITY between WARNING and ERROR, and the logger. A component's calls of
  \<open>security_logger.security\<close> are recorded in the order they are made, as a list of events
  that its state carries; \<open>configure_logging\<close> decides which records reach which handler.
  The text of a record is the matter of \<open>Audit_Format\<close>.
\<close>

datatype event_code =
    HANDSHAKE_STARTED | HANDSHAKE_COMPLETED | HANDSHAKE_UNKNOWN_IDENTITY | HANDSHAKE_SIG_FAIL
  | HANDSHAKE_MALFORMED
  | IDENTITY_PINNED | IDENTITY_MISMATCH
  | REKEY_PERFORMED | REPLAY_REJECTED | TAMPER_DETECTED | CHAIN_DESYNC
  | RATE_LIMIT_TRIGGERED
  | FRAME_OVERSIZE_REJECTED | FRAME_MALFORMED

fun event_value :: "event_code \<Rightarrow> string" where
  "event_value HANDSHAKE_STARTED = ''handshake_started''"
| "event_value HANDSHAKE_COMPLETED = ''handshake_completed''"
| "event_value HANDSHAKE_UNKNOWN_IDENTITY = ''handshake_unknown_identity''"
| "event_value HANDSHAKE_SIG_FAIL = ''handshake_signature_failed''"
| "event_value HANDSHAKE_MALFORMED = ''handshake_malformed_message''"
| "event_value IDENTITY_PINNED = ''identity_pinned''"
| "event_value IDENTITY_MISMATCH = ''identity_mismatch''"
| "event_value REKEY_PERFORMED = ''rekey_performed''"
| "event_value REPLAY_REJECTED = ''replay_rejected''"
| "event_value TAMPER_DETECTED = ''tamper_detected''"
| "event_value CHAIN_DESYNC = ''chain_desync''"
| "event_value RATE_LIMIT_TRIGGERED = ''rate_limit_triggered''"
| "event_value FRAME_OVERSIZE_REJECTED = ''frame_oversize_rejected''"
| "event_value FRAME_MALFORMED = ''frame_malformed''"

text \<open>The keyword arguments of a call: a number, a text, \<open>None\<close>, a
  value from the wire. Free-text details are left out.\<close>

datatype context_value = CInt int | CStr string | CReal real | CNone | CJson json

datatype event = Event (code: event_code) (details: "(string \<times> context_value) list")

section \<open>Levels\<close>

datatype level = DEBUG | INFO | WARNING | SECURITY | ERROR | CRITICAL

fun level_value :: "level \<Rightarrow> nat" where
  "level_value DEBUG = 10"
| "level_value INFO = 20"
| "level_value WARNING = 30"
| "level_value SECURITY = 35"
| "level_value ERROR = 40"
| "level_value CRITICAL = 50"

lemma level_value_inject: "level_value a = level_value b \<Longrightarrow> a = b"
  by (cases a; cases b) auto

instantiation level :: linorder
begin

definition less_eq_level :: "level \<Rightarrow> level \<Rightarrow> bool" where
  "less_eq_level a b \<longleftrightarrow> level_value a \<le> level_value b"

definition less_level :: "level \<Rightarrow> level \<Rightarrow> bool" where
  "less_level a b \<longleftrightarrow> level_value a < level_value b"

instance
  by standard (auto simp: less_eq_level_def less_level_def dest: level_value_inject)

end

section \<open>The logger\<close>

datatype handler = File_Handler string | Stderr_Handler

record logger =
  threshold :: level
  handlers :: "handler list"
  written :: "(handler \<times> event) list"

text \<open>\<open>configure_logging(logfile, level, also_stderr)\<close>: the old handlers are cleared first.\<close>

definition configure_logging :: "string option \<Rightarrow> level \<Rightarrow> bool \<Rightarrow> logger \<Rightarrow> logger" where
  "configure_logging logfile lvl also_stderr lg =
     (let with_file = (case logfile of
            None \<Rightarrow> [] | Some f \<Rightarrow> if f = '''' then [] else [File_Handler f]);
          no_file = (case logfile of None \<Rightarrow> True | Some f \<Rightarrow> f = '''')
      in lg\<lparr>threshold := lvl,
            handlers := with_file @ (if also_stderr \<or> no_file then [Stderr_Handler] else [])\<rparr>)"

text \<open>\<open>SecurityLogger.security\<close>: one record at level SECURITY to every handler.\<close>

definition security :: "event \<Rightarrow> logger \<Rightarrow> logger" where
  "security ev lg =
     (if threshold lg \<le> SECURITY
      then lg\<lparr>written := written lg @ map (\<lambda>h. (h, ev)) (handlers lg)\<rparr> else lg)"

lemma event_value_inject: "event_value a = event_value b \<Longrightarrow> a = b"
  by (cases a; cases b) simp_all

lemma configured_handler_exists: "handlers (configure_logging f l b lg) \<noteq> []"
  by (auto simp: configure_logging_def Let_def split: option.splits)

section \<open>State that records its events\<close>

record audited =
  audit :: "event list"

definition log_event :: "event \<Rightarrow> 'a audited_scheme \<Rightarrow> 'a audited_scheme" where
  "log_event ev s = s\<lparr>audit := audit s @ [ev]\<rparr>"

lemma audit_log_event [simp]: "audit (log_event ev s) = audit s @ [ev]"
  by (simp add: log_event_def)

lemma more_log_event [simp]: "audited.more (log_event ev s) = audited.more s"
  by (simp add: log_event_def)

end
