(* ===== verification/Identity.thy ===== *)
theory Identity
  imports Crypto_Utils Json_Laws Audit_Log
begin

text \<open>
  \<open>identity.py\<close>: fingerprints, the long-term identity and its key file, the trust store with
  its pins, its file and the trust-on-first-use dialogue. The PEM encoding is the package's: a record
  of its two operations, with the contract of the key file as a named predicate. A directory
  is a map from paths to contents.
\<close>

section \<open>Fingerprints\<close>

text \<open>\<open>":".join(digest[i:i+4] for i in range(0, 16, 4))\<close> of the SHA-256 hex digest.\<close>

definition fingerprint_for_bytes :: "bytes \<Rightarrow> string" where
  "fingerprint_for_bytes raw =
     (let digest = hex (sha256 raw)
      in join '':'' (map (\<lambda>i. take 4 (drop i digest)) [0, 4, 8, 12]))"

section \<open>The identity\<close>

record identity =
  id_name :: string
  private_key :: bytes
  public_key :: bytes

text \<open>\<open>Identity(name, private_key)\<close>; without a key the constructor draws one, here its argument.\<close>

definition new_identity :: "cryptolib \<Rightarrow> string \<Rightarrow> bytes \<Rightarrow> identity" where
  "new_identity L name priv = \<lparr>id_name = name, private_key = priv, public_key = ed_public L priv\<rparr>"

definition public_bytes :: "identity \<Rightarrow> bytes" where
  "public_bytes me = public_key me"

definition id_fingerprint :: "identity \<Rightarrow> string" where
  "id_fingerprint me = fingerprint_for_bytes (public_bytes me)"

record pemlib =
  pem_dump :: "bytes \<Rightarrow> string option \<Rightarrow> bytes"
  pem_load :: "bytes \<Rightarrow> string option \<Rightarrow> exn + bytes"

type_synonym files = "string \<Rightarrow> bytes option"

text \<open>\<open>Path(directory) / f\<close>.\<close>

definition path_join :: "string \<Rightarrow> string \<Rightarrow> string" where
  "path_join dir f = (if take 1 f = ''/'' \<or> dir = '''' then f else dir @ ''/'' @ f)"

definition key_path :: "string \<Rightarrow> string \<Rightarrow> string" where
  "key_path dir name = path_join dir (name @ ''_identity.pem'')"

text \<open>\<open>if passphrase:\<close> is false for \<open>None\<close> and for the empty string.\<close>

definition truthy :: "string option \<Rightarrow> string option" where
  "truthy p = (case p of Some [] \<Rightarrow> None | _ \<Rightarrow> p)"

definition save_identity :: "pemlib \<Rightarrow> identity \<Rightarrow> string \<Rightarrow> string option \<Rightarrow> files \<Rightarrow> files" where
  "save_identity P me dir passphrase fs =
     fs(key_path dir (id_name me) \<mapsto> pem_dump P (private_key me) (truthy passphrase))"

definition load_identity ::
    "cryptolib \<Rightarrow> pemlib \<Rightarrow> string \<Rightarrow> string \<Rightarrow> string option \<Rightarrow> files \<Rightarrow> exn + identity" where
  "load_identity L P name dir passphrase fs =
     (case fs (key_path dir name) of
        None \<Rightarrow> Inl OSError
      | Some pem \<Rightarrow> bind_exn (pem_load P pem (truthy passphrase)) (\<lambda>priv. Inr (new_identity L name priv)))"

definition is_encrypted :: "pemlib \<Rightarrow> string \<Rightarrow> string \<Rightarrow> files \<Rightarrow> exn + bool" where
  "is_encrypted P name dir fs =
     (case fs (key_path dir name) of
        None \<Rightarrow> Inl OSError
      | Some pem \<Rightarrow>
          (case pem_load P pem None of
             Inr _ \<Rightarrow> Inr False
           | Inl e \<Rightarrow> if e = TypeError then Inr True else Inl e))"

text \<open>
  PKCS8 PEM: the right passphrase gives the key back, a missing one or one too many is a
  \<open>TypeError\<close>, a wrong one a \<open>ValueError\<close>.
\<close>

definition pem_laws :: "pemlib \<Rightarrow> bool" where
  "pem_laws P \<longleftrightarrow>
     (\<forall>k. pem_load P (pem_dump P k None) None = Inr k) \<and>
     (\<forall>k p. pem_load P (pem_dump P k (Some p)) (Some p) = Inr k) \<and>
     (\<forall>k p. pem_load P (pem_dump P k (Some p)) None = Inl TypeError) \<and>
     (\<forall>k p. pem_load P (pem_dump P k None) (Some p) = Inl TypeError) \<and>
     (\<forall>k p q. p \<noteq> q \<longrightarrow> pem_load P (pem_dump P k (Some p)) (Some q) = Inl ValueError)"

section \<open>The trust store\<close>

record trust_store = audited +
  trusted :: "(string, bytes) dict"

definition new_trust_store :: trust_store where
  "new_trust_store = \<lparr>audit = [], trusted = []\<rparr>"

definition pin :: "string \<Rightarrow> bytes \<Rightarrow> trust_store \<Rightarrow> (exn + unit) \<times> trust_store" where
  "pin name pub ts =
     (case map_of (trusted ts) name of
        None \<Rightarrow>
          (Inr (), log_event
             (Event IDENTITY_PINNED
               [(''peer_name'', CStr name), (''fingerprint'', CStr (fingerprint_for_bytes pub))])
             (ts\<lparr>trusted := AList.update name pub (trusted ts)\<rparr>))
      | Some existing \<Rightarrow>
          if existing \<noteq> pub
          then (let old_fp = fingerprint_for_bytes existing; new_fp = fingerprint_for_bytes pub
                in (Inl (IdentityMismatchError name old_fp new_fp), log_event
                      (Event IDENTITY_MISMATCH
                        [(''peer_name'', CStr name), (''old_fingerprint'', CStr old_fp),
                         (''new_fingerprint'', CStr new_fp)]) ts))
          else (Inr (), ts))"

definition repin :: "string \<Rightarrow> bytes \<Rightarrow> trust_store \<Rightarrow> trust_store" where
  "repin name pub ts =
     log_event
       (Event IDENTITY_PINNED
         [(''peer_name'', CStr name),
          (''old_fingerprint'',
            (case map_of (trusted ts) name of
               None \<Rightarrow> CNone
             | Some existing \<Rightarrow> if existing = [] then CNone else CStr (fingerprint_for_bytes existing))),
          (''fingerprint'', CStr (fingerprint_for_bytes pub))])
       (ts\<lparr>trusted := AList.update name pub (trusted ts)\<rparr>)"

text \<open>\<open>get\<close>: \<open>None\<close> for an unknown name, else the key object or the package's exception.\<close>

definition trusted_key :: "cryptolib \<Rightarrow> string \<Rightarrow> trust_store \<Rightarrow> exn + bytes option" where
  "trusted_key L name ts =
     (case map_of (trusted ts) name of
        None \<Rightarrow> Inr None
      | Some raw \<Rightarrow> map_sum id Some (ed25519_public_from_bytes L raw))"

text \<open>\<open>get\<close> with a name that came off the wire: the lookup fails if it is not hashable.\<close>

definition trusted_key_of_wire :: "cryptolib \<Rightarrow> json \<Rightarrow> trust_store \<Rightarrow> exn + bytes option" where
  "trusted_key_of_wire L name ts =
     (case dict_key name of None \<Rightarrow> Inl TypeError | Some k \<Rightarrow> trusted_key L k ts)"

definition is_trusted :: "string \<Rightarrow> bytes \<Rightarrow> trust_store \<Rightarrow> bool" where
  "is_trusted name pub ts = (map_of (trusted ts) name = Some pub)"

text \<open>What the dialogue prints, by content, and the question it asks.\<close>

datatype line =
    Not_Yet_Trusted string | Their_Fingerprint string | Compare_Out_Of_Band string
  | Trust_Question string | Declined string | Pinned_New string string | Different_Key string

text \<open>
  \<open>verify_and_pin_interactive\<close>; \<open>answer\<close> is what \<open>input_fn\<close> returns if it is called. The
  result is the pair \<open>(trusted, mismatch)\<close>, then the lines shown, whether the store is saved
  to \<open>save_path\<close>, and the store.
\<close>

record dialogue =
  verdict :: "exn + bool \<times> bool"
  shown :: "line list"
  saved :: bool

definition verify_and_pin_interactive ::
    "cryptolib \<Rightarrow> string \<Rightarrow> bytes \<Rightarrow> string \<Rightarrow> trust_store \<Rightarrow> dialogue \<times> trust_store" where
  "verify_and_pin_interactive L name pub answer ts =
     (case trusted_key L name ts of
        Inl e \<Rightarrow> (\<lparr>verdict = Inl e, shown = [], saved = False\<rparr>, ts)
      | Inr None \<Rightarrow>
          (let fp = fingerprint_for_bytes pub;
               asked = [Not_Yet_Trusted name, Their_Fingerprint fp, Compare_Out_Of_Band name, Trust_Question name]
           in if lower (strip answer) \<noteq> ''y''
              then (\<lparr>verdict = Inr (False, False), shown = asked @ [Declined name], saved = False\<rparr>, ts)
              else case pin name pub ts of
                (Inl e, ts') \<Rightarrow> (\<lparr>verdict = Inl e, shown = asked, saved = False\<rparr>, ts')
              | (Inr _, ts') \<Rightarrow>
                  (\<lparr>verdict = Inr (True, False), shown = asked @ [Pinned_New name fp], saved = True\<rparr>, ts'))
      | Inr (Some _) \<Rightarrow>
          (if \<not> is_trusted name pub ts
           then (\<lparr>verdict = Inr (False, True), shown = [Different_Key name], saved = False\<rparr>, ts)
           else (\<lparr>verdict = Inr (True, False), shown = [], saved = False\<rparr>, ts)))"

text \<open>The same with the name a peer sent.\<close>

definition verify_and_pin_of_wire ::
    "cryptolib \<Rightarrow> json \<Rightarrow> bytes \<Rightarrow> string \<Rightarrow> trust_store \<Rightarrow> dialogue \<times> trust_store" where
  "verify_and_pin_of_wire L name pub answer ts =
     (case dict_key name of
        None \<Rightarrow> (\<lparr>verdict = Inl TypeError, shown = [], saved = False\<rparr>, ts)
      | Some k \<Rightarrow> verify_and_pin_interactive L k pub answer ts)"

text \<open>
  \<open>save\<close> writes the dictionary of names and hexadecimal keys as an indented JSON object; \<open>load\<close>
  reads it back by pinning one entry after the other in a new store. A value that is not a
  string is a \<open>TypeError\<close> of \<open>bytes.fromhex\<close>, a value that is no dictionary has no \<open>items\<close>.
\<close>

definition store_json :: "trust_store \<Rightarrow> json" where
  "store_json ts = JObj (map (\<lambda>(name, raw). (key_text name, JStr (hex raw))) (trusted ts))"

definition save_store :: "trust_store \<Rightarrow> string \<Rightarrow> files \<Rightarrow> files" where
  "save_store ts path fs = fs(path \<mapsto> ascii (dumps_indent2 (store_json ts)))"

fun pin_all :: "(string \<times> json) list \<Rightarrow> trust_store \<Rightarrow> exn + trust_store" where
  "pin_all [] ts = Inr ts"
| "pin_all ((name, v) # rest) ts =
     (case v of
        JStr s \<Rightarrow> bind_exn (fromhex s) (\<lambda>raw.
          case pin name raw ts of (Inl e, _) \<Rightarrow> Inl e | (Inr _, ts') \<Rightarrow> pin_all rest ts')
      | _ \<Rightarrow> Inl TypeError)"

definition load_store :: "string \<Rightarrow> files \<Rightarrow> exn + trust_store" where
  "load_store path fs =
     (case fs path of
        None \<Rightarrow> Inr new_trust_store
      | Some raw \<Rightarrow>
          bind_exn (bind_exn (decode_utf8 raw) loads) (\<lambda>data.
            case data of JObj entries \<Rightarrow> pin_all entries new_trust_store | _ \<Rightarrow> Inl AttributeError))"

section \<open>Pins are kept\<close>

text \<open>
  The contract of a store of pins: what a pin call does to the name it is about, by what was
  pinned before, and that it leaves every other name alone.
\<close>

locale pin_store =
  fixes pinned :: "'s \<Rightarrow> 'n \<Rightarrow> 'k option"
    and put_pin :: "'n \<Rightarrow> 'k \<Rightarrow> 's \<Rightarrow> (exn + unit) \<times> 's"
  assumes first: "pinned s n = None \<Longrightarrow> put_pin n k s = (r, s') \<Longrightarrow> r = Inr () \<and> pinned s' = (pinned s)(n \<mapsto> k)"
    and later: "pinned s n = Some k' \<Longrightarrow> put_pin n k s = (r, s') \<Longrightarrow>
      (r = Inr () \<longleftrightarrow> k = k') \<and> pinned s' = pinned s"
begin

lemma extends: "put_pin n k s = (r, s') \<Longrightarrow> pinned s \<subseteq>\<^sub>m pinned s'"
  using first [of s n k r s'] later [of s n _ k r s'] by (cases "pinned s n") (auto simp: map_le_def)

lemma success_iff: "put_pin n k s = (r, s') \<Longrightarrow> r = Inr () \<longleftrightarrow> pinned s' n = Some k"
  using first [of s n k r s'] later [of s n _ k r s'] by (cases "pinned s n") auto

lemma other: "put_pin n k s = (r, s') \<Longrightarrow> m \<noteq> n \<Longrightarrow> pinned s' m = pinned s m"
  using first [of s n k r s'] later [of s n _ k r s'] by (cases "pinned s n") auto

lemma failure_unchanged: "put_pin n k s = (Inl e, s') \<Longrightarrow> pinned s' = pinned s"
  using first [of s n k "Inl e" s'] later [of s n _ k "Inl e" s'] by (cases "pinned s n") auto

end

definition pins :: "trust_store \<Rightarrow> string \<Rightarrow> bytes option" where
  "pins ts = map_of (trusted ts)"

interpretation tofu: pin_store pins pin
  by unfold_locales
    (auto simp: pins_def pin_def Let_def log_event_def map_of_dict_update split: if_splits)

text \<open>The calls that reach a store during a run of the program, \<open>repin\<close> apart.\<close>

datatype trust_call = Pin string bytes | Ask string bytes string

fun trust_step :: "cryptolib \<Rightarrow> trust_call \<Rightarrow> trust_store \<Rightarrow> trust_store" where
  "trust_step L (Pin name pub) ts = snd (pin name pub ts)"
| "trust_step L (Ask name pub answer) ts = snd (verify_and_pin_interactive L name pub answer ts)"

lemma trusted_key_None: "trusted_key L name ts = Inr None \<longleftrightarrow> pins ts name = None"
proof (cases "map_of (trusted ts) name")
  case None
  then show ?thesis by (simp add: trusted_key_def pins_def)
next
  case (Some raw)
  then show ?thesis
    by (cases "ed25519_public_from_bytes L raw") (simp_all add: trusted_key_def pins_def)
qed

lemma verify_and_pin_cases:
  obtains (broken) e where "verify_and_pin_interactive L name pub answer ts =
      (\<lparr>verdict = Inl e, shown = [], saved = False\<rparr>, ts)" "trusted_key L name ts = Inl e"
  | (declined) sh where "pins ts name = None" "lower (strip answer) \<noteq> ''y''"
      "verify_and_pin_interactive L name pub answer ts =
        (\<lparr>verdict = Inr (False, False), shown = sh, saved = False\<rparr>, ts)"
  | (pinned) sh ts' where "pins ts name = None" "lower (strip answer) = ''y''"
      "pin name pub ts = (Inr (), ts')"
      "verify_and_pin_interactive L name pub answer ts =
        (\<lparr>verdict = Inr (True, False), shown = sh, saved = True\<rparr>, ts')"
  | (mismatch) sh where "\<exists>k. pins ts name = Some k \<and> k \<noteq> pub"
      "verify_and_pin_interactive L name pub answer ts =
        (\<lparr>verdict = Inr (False, True), shown = sh, saved = False\<rparr>, ts)"
  | (matched) "pins ts name = Some pub"
      "verify_and_pin_interactive L name pub answer ts =
        (\<lparr>verdict = Inr (True, False), shown = [], saved = False\<rparr>, ts)"
proof (cases "trusted_key L name ts")
  case (Inl e)
  with broken show ?thesis by (simp add: verify_and_pin_interactive_def)
next
  case (Inr x)
  show ?thesis
  proof (cases x)
    case None
    with Inr have free: "pins ts name = None" by (simp add: trusted_key_None)
    obtain r ts' where p: "pin name pub ts = (r, ts')" by (cases "pin name pub ts")
    with tofu.first [OF free p] have "r = Inr ()" by simp
    with p Inr None free declined pinned show ?thesis
      by (cases "lower (strip answer) = ''y''") (auto simp: verify_and_pin_interactive_def Let_def)
  next
    case (Some raw)
    with Inr obtain k where "pins ts name = Some k"
      by (auto simp: trusted_key_def pins_def split: option.splits)
    with Inr Some mismatch matched show ?thesis
      by (cases "k = pub") (auto simp: verify_and_pin_interactive_def is_trusted_def pins_def)
  qed
qed

lemma trust_step_extends: "pins ts \<subseteq>\<^sub>m pins (trust_step L c ts)"
proof (cases c)
  case (Pin name pub)
  then show ?thesis
    using tofu.extends [of name pub ts] by (cases "pin name pub ts") simp
next
  case (Ask name pub answer)
  show ?thesis
  proof (cases rule: verify_and_pin_cases [of L name pub answer ts])
    case (pinned sh ts')
    with Ask tofu.extends [OF pinned(3)] show ?thesis by simp
  qed (simp_all add: Ask)
qed

lemma trust_run_extends: "pins ts \<subseteq>\<^sub>m pins (fold (trust_step L) cs ts)"
  by (induction cs arbitrary: ts) (auto intro: map_le_trans trust_step_extends)

section \<open>The store's file\<close>

lemma pin_all_new:
  assumes "distinct (keys d)" and "set (keys d) \<inter> set (keys (trusted ts)) = {}"
  shows "\<exists>ts'. pin_all (map (\<lambda>(name, raw). (name, JStr (hex raw))) d) ts = Inr ts' \<and>
    trusted ts' = trusted ts @ d"
  using assms
proof (induction d arbitrary: ts)
  case Nil
  then show ?case by simp
next
  case (Cons x d)
  obtain name raw where x: "x = (name, raw)" by (cases x)
  with Cons.prems(2) have new: "name \<notin> set (keys (trusted ts))" by auto
  then have free: "map_of (trusted ts) name = None"
    by (simp add: map_of_eq_None_iff)
  obtain ts1 where p: "pin name raw ts = (Inr (), ts1)" and ts1: "trusted ts1 = trusted ts @ [(name, raw)]"
    using free update_fresh [OF new] by (simp add: pin_def log_event_def)
  have "distinct (keys d)" "set (keys d) \<inter> set (keys (trusted ts1)) = {}"
    using Cons.prems by (auto simp: x ts1)
  from Cons.IH [OF this] p ts1 show ?case
    by (auto simp: x fromhex_hex)
qed

lemma hex_is_text: "set (hex b) \<subseteq> set hex_digits"
proof (induction b)
  case (Cons x b)
  have "unat x div 16 < length hex_digits" "unat x mod 16 < length hex_digits"
    using unat_byte_less [of x] by (auto simp: hex_digits_def)
  with Cons show ?case by auto
qed simp

lemma utf8_hex: "utf8_ok (hex b)"
  by (rule ascii_text_ok) (use hex_is_text [of b] in \<open>auto simp: hex_digits_def\<close>)

lemma load_saved_store:
  assumes "distinct (keys (trusted ts))" and "list_all utf8_ok (keys (trusted ts))"
  shows "\<exists>ts'. load_store path (save_store ts path fs) = Inr ts' \<and> trusted ts' = trusted ts"
proof -
  have json: "store_json ts = JObj (map (\<lambda>(name, raw). (name, JStr (hex raw))) (trusted ts))"
    using assms(2) by (auto simp: store_json_def list_all_iff key_text_ok)
  have "wf_json (store_json ts)"
    using assms utf8_hex by (auto simp: json list_all_iff comp_def split_beta)
  then have "bind_exn (decode_utf8 (ascii (dumps_indent2 (store_json ts)))) loads = Inr (store_json ts)"
    using decode_dump [of "store_json ts"] by (simp add: dumps_indent2_def)
  with pin_all_new [of "trusted ts" new_trust_store] assms(1) show ?thesis
    by (simp add: load_store_def save_store_def json new_trust_store_def)
qed

lemma trust_step_distinct: "distinct (keys (trusted ts)) \<Longrightarrow> distinct (keys (trusted (trust_step L c ts)))"
proof (cases c)
  case (Pin name pub)
  assume "distinct (keys (trusted ts))"
  with Pin show ?thesis
    by (auto simp: pin_def Let_def log_event_def AList.distinct_update split: option.splits)
next
  case (Ask name pub answer)
  assume d: "distinct (keys (trusted ts))"
  show ?thesis
  proof (cases rule: verify_and_pin_cases [of L name pub answer ts])
    case (pinned sh ts')
    then have "trusted ts' = AList.update name pub (trusted ts)"
      by (auto simp: pin_def pins_def log_event_def)
    with pinned Ask d show ?thesis by (simp add: AList.distinct_update)
  qed (simp_all add: Ask d)
qed

lemma trust_run_distinct: "distinct (keys (trusted ts)) \<Longrightarrow> distinct (keys (trusted (fold (trust_step L) cs ts)))"
  by (induction cs arbitrary: ts) (simp_all add: trust_step_distinct)

fun call_name :: "trust_call \<Rightarrow> string" where
  "call_name (Pin name pub) = name"
| "call_name (Ask name pub answer) = name"

lemma pin_names: "pin name pub ts = (r, ts') \<Longrightarrow> set (keys (trusted ts')) \<subseteq> insert name (set (keys (trusted ts)))"
  by (auto simp: pin_def Let_def log_event_def set_keys_update simp del: set_map split: option.splits if_splits)

lemma trust_step_names: "set (keys (trusted (trust_step L c ts))) \<subseteq> insert (call_name c) (set (keys (trusted ts)))"
proof (cases c)
  case (Pin name pub)
  then show ?thesis
    using pin_names [OF prod.collapse [symmetric], of name pub ts] by simp
next
  case (Ask name pub answer)
  show ?thesis
  proof (cases rule: verify_and_pin_cases [of L name pub answer ts])
    case (pinned sh ts')
    with Ask pin_names [OF pinned(3)] show ?thesis by simp
  qed (auto simp: Ask)
qed

lemma trust_run_names:
  "set (keys (trusted (fold (trust_step L) cs ts))) \<subseteq> call_name ` set cs \<union> set (keys (trusted ts))"
proof (induction cs arbitrary: ts)
  case (Cons c cs)
  then show ?case
    using trust_step_names [of L c ts] by (fastforce simp del: set_map)
qed simp

section \<open>The identity's file\<close>

lemma truthy_cases: "truthy p = None \<longleftrightarrow> p = None \<or> p = Some []" "truthy p = Some q \<longleftrightarrow> p = Some q \<and> q \<noteq> []"
  by (auto simp: truthy_def split: option.splits list.splits)

lemma load_saved_identity:
  assumes "pem_laws P"
  shows "load_identity L P (id_name me) dir q (save_identity P me dir p fs) =
    (if truthy p = truthy q then Inr (new_identity L (id_name me) (private_key me))
     else if truthy p = None \<or> truthy q = None then Inl TypeError
     else Inl ValueError)"
  using assms
  by (cases "truthy p"; cases "truthy q") (auto simp: load_identity_def save_identity_def pem_laws_def)

lemma is_encrypted_saved:
  assumes "pem_laws P"
  shows "is_encrypted P (id_name me) dir (save_identity P me dir p fs) = Inr (truthy p \<noteq> None)"
  using assms
  by (cases "truthy p") (auto simp: is_encrypted_def save_identity_def pem_laws_def)

section \<open>What a fingerprint tells\<close>

lemma hex_take: "take (2 * n) (hex b) = hex (take n b)"
proof (induction b arbitrary: n)
  case Nil
  then show ?case by simp
next
  case (Cons x b)
  then show ?case by (cases n) auto
qed

lemma hex_inject: "hex a = hex b \<longleftrightarrow> a = b"
  by (metis fromhex_hex sum.inject(2))

lemma fingerprint_split:
  "fingerprint_for_bytes a = fingerprint_for_bytes b \<longleftrightarrow> take 8 (sha256 a) = take 8 (sha256 b)"
proof -
  define A where "A = hex (sha256 a)"
  define B where "B = hex (sha256 b)"
  have len: "length A = 64" "length B = 64"
    by (simp_all add: A_def B_def length_sha256)
  have quads: "take 16 X = take 4 X @ take 4 (drop 4 X) @ take 4 (drop 8 X) @ take 4 (drop 12 X)" for X :: string
    using take_add [of 4 12 X] take_add [of 4 8 "drop 4 X"] take_add [of 4 4 "drop 8 X"] by simp
  have "fingerprint_for_bytes a = fingerprint_for_bytes b \<longleftrightarrow>
      take 4 A = take 4 B \<and> take 4 (drop 4 A) = take 4 (drop 4 B) \<and>
      take 4 (drop 8 A) = take 4 (drop 8 B) \<and> take 4 (drop 12 A) = take 4 (drop 12 B)"
    using len by (simp add: fingerprint_for_bytes_def A_def [symmetric] B_def [symmetric])
  also have "\<dots> \<longleftrightarrow> take 16 A = take 16 B"
    unfolding quads [of A] quads [of B] using len by simp
  also have "\<dots> \<longleftrightarrow> take 8 (sha256 a) = take 8 (sha256 b)"
    using hex_take [of 8 "sha256 a"] hex_take [of 8 "sha256 b"] by (simp add: A_def B_def hex_inject)
  finally show ?thesis .
qed

end
