(* ===== verification/Ratchet.thy ===== *)
theory Ratchet
  imports Crypto_Utils
begin

text \<open>
  \<open>ratchet.py\<close>: one step of the symmetric chain, one DH ratchet step, the sending chain
  and the receiving chain with its cache of skipped message keys. The specification of a
  chain is the family \<open>nth_message_key ck n\<close>, the key of message \<open>n\<close> of the chain that starts
  at \<open>ck\<close>.
\<close>

definition CHAIN_KEY_LABEL :: bytes where
  "CHAIN_KEY_LABEL = ascii ''chain-key''"

definition MESSAGE_KEY_LABEL :: bytes where
  "MESSAGE_KEY_LABEL = ascii ''message-key''"

definition ROOT_STEP_INFO :: bytes where
  "ROOT_STEP_INFO = ascii ''dh-ratchet-step''"

definition kdf_chain_step :: "bytes \<Rightarrow> bytes \<times> bytes" where
  "kdf_chain_step chain_key =
     (let message_key = hmac_sha256 chain_key MESSAGE_KEY_LABEL;
          next_chain_key = hmac_sha256 chain_key CHAIN_KEY_LABEL
      in (message_key, next_chain_key))"

definition dh_ratchet_step :: "cryptolib \<Rightarrow> bytes \<Rightarrow> bytes \<Rightarrow> bytes \<times> bytes" where
  "dh_ratchet_step L root_key dh_output =
     (let okm = hkdf L dh_output root_key ROOT_STEP_INFO 64 in (take 32 okm, drop 32 okm))"

section \<open>The sending chain\<close>

record sending_chain =
  sc_key :: bytes
  sc_counter :: nat

definition new_sending_chain :: "bytes \<Rightarrow> sending_chain" where
  "new_sending_chain chain_key = \<lparr>sc_key = chain_key, sc_counter = 0\<rparr>"

definition next_key :: "sending_chain \<Rightarrow> (nat \<times> bytes) \<times> sending_chain" where
  "next_key sc =
     (let counter = sc_counter sc;
          (message_key, chain_key) = kdf_chain_step (sc_key sc)
      in ((counter, message_key), sc\<lparr>sc_key := chain_key, sc_counter := counter + 1\<rparr>))"

section \<open>The receiving chain\<close>

definition MAX_SKIP :: nat where
  "MAX_SKIP = 1024"

record receiving_chain =
  rc_key :: bytes
  rc_next :: nat
  rc_skipped :: "(nat, bytes) dict"

definition new_receiving_chain :: "bytes \<Rightarrow> receiving_chain" where
  "new_receiving_chain chain_key = \<lparr>rc_key = chain_key, rc_next = 0, rc_skipped = []\<rparr>"

text \<open>The loop of \<open>key_for\<close>; the second argument is its local variable \<open>message_key\<close>.\<close>

function derive_until :: "nat \<Rightarrow> bytes option \<Rightarrow> receiving_chain \<Rightarrow> bytes option \<times> receiving_chain" where
  "derive_until counter mk rc =
     (if rc_next rc \<le> counter
      then (let (derived_key, chain_key) = kdf_chain_step (rc_key rc)
            in if rc_next rc = counter
               then derive_until counter (Some derived_key)
                      (rc\<lparr>rc_key := chain_key, rc_next := rc_next rc + 1\<rparr>)
               else derive_until counter mk
                      (rc\<lparr>rc_key := chain_key, rc_next := rc_next rc + 1,
                          rc_skipped := AList.update (rc_next rc) derived_key (rc_skipped rc)\<rparr>))
      else (mk, rc))"
  by pat_completeness auto
termination
  by (relation "measure (\<lambda>(counter, mk, rc). Suc counter - rc_next rc)") auto

declare derive_until.simps [simp del]

definition evict_excess_skipped :: "receiving_chain \<Rightarrow> receiving_chain" where
  "evict_excess_skipped rc = rc\<lparr>rc_skipped := evict_lowest MAX_SKIP (rc_skipped rc)\<rparr>"

text \<open>
  The loop leaves a key in \<open>message_key\<close> whenever it is reached, so the \<open>None\<close> of the
  source (a \<open>TypeError\<close> in the caller) never comes out, as \<open>key_for_derives\<close> shows.
\<close>

definition key_for :: "nat \<Rightarrow> receiving_chain \<Rightarrow> (exn + bytes) \<times> receiving_chain" where
  "key_for counter rc =
     (case map_of (rc_skipped rc) counter of
        Some k \<Rightarrow> (Inr k, rc\<lparr>rc_skipped := AList.delete counter (rc_skipped rc)\<rparr>)
      | None \<Rightarrow>
          if counter < rc_next rc
          then (Inl (ChainDesync (Already_Passed counter)), rc)
          else if counter - rc_next rc > MAX_SKIP
          then (Inl (ChainDesync (Too_Far_Ahead counter (rc_next rc))), rc)
          else (case derive_until counter None rc of
                  (mk, rc') \<Rightarrow>
                    ((case mk of Some k \<Rightarrow> Inr k | None \<Rightarrow> Inl TypeError), evict_excess_skipped rc')))"

section \<open>What a chain is: the specification\<close>

definition chain_at :: "bytes \<Rightarrow> nat \<Rightarrow> bytes" where
  "chain_at ck n = ((snd \<circ> kdf_chain_step) ^^ n) ck"

definition nth_message_key :: "bytes \<Rightarrow> nat \<Rightarrow> bytes" where
  "nth_message_key ck n = fst (kdf_chain_step (chain_at ck n))"

lemma chain_at_0 [simp]: "chain_at ck 0 = ck"
  by (simp add: chain_at_def)

lemma chain_at_Suc: "snd (kdf_chain_step (chain_at ck n)) = chain_at ck (Suc n)"
  by (simp add: chain_at_def)

lemma kdf_chain_at: "kdf_chain_step (chain_at ck n) = (nth_message_key ck n, chain_at ck (Suc n))"
  by (metis chain_at_Suc nth_message_key_def prod.collapse)

lemma length_message_key [simp]: "length (nth_message_key ck n) = 32"
  by (simp add: nth_message_key_def kdf_chain_step_def Let_def)

definition sends :: "bytes \<Rightarrow> sending_chain \<Rightarrow> bool" where
  "sends ck sc \<longleftrightarrow> sc_key sc = chain_at ck (sc_counter sc)"

lemma sends_new: "sends ck (new_sending_chain ck)"
  by (simp add: sends_def new_sending_chain_def)

lemma next_key_sends:
  "sends ck sc \<Longrightarrow> next_key sc = ((sc_counter sc, nth_message_key ck (sc_counter sc)),
     \<lparr>sc_key = chain_at ck (Suc (sc_counter sc)), sc_counter = Suc (sc_counter sc)\<rparr>)"
  by (cases sc) (simp add: sends_def next_key_def kdf_chain_at Let_def)

lemma next_key_keeps_sends: "sends ck sc \<Longrightarrow> sends ck (snd (next_key sc))"
  by (simp add: next_key_sends) (simp add: sends_def)

text \<open>The receiving chain's invariant: position, and every cached key the right one.\<close>

definition receives :: "bytes \<Rightarrow> receiving_chain \<Rightarrow> bool" where
  "receives ck rc \<longleftrightarrow>
     rc_key rc = chain_at ck (rc_next rc) \<and> distinct (keys (rc_skipped rc)) \<and>
     (\<forall>k v. map_of (rc_skipped rc) k = Some v \<longrightarrow> k < rc_next rc \<and> v = nth_message_key ck k) \<and>
     length (rc_skipped rc) \<le> MAX_SKIP"

definition available :: "nat \<Rightarrow> receiving_chain \<Rightarrow> bool" where
  "available c rc \<longleftrightarrow>
     c \<in> set (keys (rc_skipped rc)) \<or> (rc_next rc \<le> c \<and> c - rc_next rc \<le> MAX_SKIP)"

lemma receives_new [simp]: "receives ck (new_receiving_chain ck)"
  by (simp add: receives_def new_receiving_chain_def)

lemma receives_keys_less: "receives ck rc \<Longrightarrow> k \<in> set (keys (rc_skipped rc)) \<Longrightarrow> k < rc_next rc"
  by (force simp: receives_def map_of_eq_None_iff simp flip: not_None_eq)

lemma derive_until_passed: "c < rc_next rc \<Longrightarrow> derive_until c mk rc = (mk, rc)"
  by (simp add: derive_until.simps [of c mk rc])

text \<open>The loop in closed form.\<close>

lemma derive_until_eq:
  assumes "rc_key rc = chain_at ck (rc_next rc)" and "rc_next rc \<le> c"
    and "\<forall>k \<in> set (keys (rc_skipped rc)). k < rc_next rc"
  shows "derive_until c mk rc =
    (Some (nth_message_key ck c),
     \<lparr>rc_key = chain_at ck (Suc c), rc_next = Suc c,
      rc_skipped = rc_skipped rc @ map (\<lambda>i. (i, nth_message_key ck i)) [rc_next rc ..< c]\<rparr>)"
  using assms
proof (induction "c - rc_next rc" arbitrary: mk rc)
  case 0
  then have "rc_next rc = c" by simp
  with 0 show ?case
    by (simp add: derive_until.simps [of c mk rc] kdf_chain_at derive_until_passed)
next
  case (Suc n)
  let ?d = "rc_skipped rc" and ?i = "rc_next rc"
  let ?rc = "rc\<lparr>rc_key := chain_at ck (Suc ?i), rc_next := Suc ?i,
                rc_skipped := AList.update ?i (nth_message_key ck ?i) ?d\<rparr>"
  have new: "AList.update ?i (nth_message_key ck ?i) ?d = ?d @ [(?i, nth_message_key ck ?i)]"
    using Suc.prems(3) by (intro update_fresh) auto
  have "n = c - rc_next ?rc" and less: "?i < c"
    using Suc.hyps(2) by auto
  moreover have "\<forall>k \<in> set (keys (rc_skipped ?rc)). k < rc_next ?rc"
    using Suc.prems(3) by (auto simp: new)
  ultimately have "derive_until c mk ?rc =
    (Some (nth_message_key ck c),
     \<lparr>rc_key = chain_at ck (Suc c), rc_next = Suc c,
      rc_skipped = rc_skipped ?rc @ map (\<lambda>i. (i, nth_message_key ck i)) [rc_next ?rc ..< c]\<rparr>)"
    using Suc.hyps(1) [of ?rc mk] by simp
  with less Suc.prems(1) show ?case
    by (simp add: derive_until.simps [of c mk rc] kdf_chain_at new upt_rec [of ?i c])
qed

text \<open>The three outcomes of \<open>key_for\<close> under the invariant.\<close>

lemma key_for_cached:
  "map_of (rc_skipped rc) c = Some k \<Longrightarrow>
     key_for c rc = (Inr k, rc\<lparr>rc_skipped := AList.delete c (rc_skipped rc)\<rparr>)"
  by (simp add: key_for_def)

lemma key_for_unavailable:
  assumes "\<not> available c rc"
  shows "key_for c rc =
    (Inl (ChainDesync (if c < rc_next rc then Already_Passed c else Too_Far_Ahead c (rc_next rc))), rc)"
proof -
  have "map_of (rc_skipped rc) c = None"
    using assms by (simp add: available_def map_of_eq_None_iff)
  with assms show ?thesis
    by (auto simp: key_for_def available_def)
qed

lemma key_for_derives:
  assumes "receives ck rc" and "rc_next rc \<le> c" and "c - rc_next rc \<le> MAX_SKIP"
  shows "key_for c rc =
    (Inr (nth_message_key ck c),
     \<lparr>rc_key = chain_at ck (Suc c), rc_next = Suc c,
      rc_skipped = evict_lowest MAX_SKIP
        (rc_skipped rc @ map (\<lambda>i. (i, nth_message_key ck i)) [rc_next rc ..< c])\<rparr>)"
proof -
  have less: "\<forall>k \<in> set (keys (rc_skipped rc)). k < rc_next rc"
    using assms(1) receives_keys_less by blast
  then have "map_of (rc_skipped rc) c = None"
    using assms(2) by (force simp: map_of_eq_None_iff)
  moreover have "rc_key rc = chain_at ck (rc_next rc)"
    using assms(1) by (simp add: receives_def)
  ultimately show ?thesis
    using assms(2,3) less by (simp add: key_for_def derive_until_eq evict_excess_skipped_def)
qed

lemma available_cases:
  assumes "receives ck rc"
  obtains (cached) "map_of (rc_skipped rc) c = Some (nth_message_key ck c)" "c < rc_next rc"
  | (ahead) "rc_next rc \<le> c" "c - rc_next rc \<le> MAX_SKIP"
  | (unavailable) "\<not> available c rc"
proof (cases "c \<in> set (keys (rc_skipped rc))")
  case True
  then obtain v where v: "map_of (rc_skipped rc) c = Some v"
    by (metis map_of_eq_None_iff not_None_eq set_map)
  with assms have "v = nth_message_key ck c" "c < rc_next rc"
    by (auto simp: receives_def)
  with v cached show ?thesis by simp
next
  case False
  with ahead unavailable show ?thesis
    unfolding available_def by blast
qed

lemma appended_keys:
  "keys (d @ map (\<lambda>i. (i, f i)) [a ..< b]) = keys d @ [a ..< b]"
  by (simp add: comp_def)

lemma map_of_appended:
  "map_of (map (\<lambda>i. (i, f i)) [a ..< b]) k = (if a \<le> k \<and> k < b then Some (f k) else None)"
proof -
  have "map_of (map (\<lambda>i. (i, f i)) xs) k = (if k \<in> set xs then Some (f k) else None)" for xs
    by (induction xs) auto
  then show ?thesis by simp
qed

lemma receives_delete:
  assumes "receives ck rc"
  shows "receives ck (rc\<lparr>rc_skipped := AList.delete c (rc_skipped rc)\<rparr>)"
proof -
  have "length (AList.delete c (rc_skipped rc)) \<le> MAX_SKIP"
    using assms AList.length_delete_le [of c "rc_skipped rc"] by (simp add: receives_def)
  with assms show ?thesis
    by (simp add: receives_def map_of_dict_delete AList.distinct_delete)
qed

lemma receives_derived:
  assumes inv: "receives ck rc" and ahead: "rc_next rc \<le> c"
  shows "receives ck
     \<lparr>rc_key = chain_at ck (Suc c), rc_next = Suc c,
      rc_skipped = evict_lowest MAX_SKIP
        (rc_skipped rc @ map (\<lambda>i. (i, nth_message_key ck i)) [rc_next rc ..< c])\<rparr>"
proof -
  let ?d = "rc_skipped rc @ map (\<lambda>i. (i, nth_message_key ck i)) [rc_next rc ..< c]"
  have less: "k < rc_next rc" if "k \<in> set (keys (rc_skipped rc))" for k
    using inv that by (rule receives_keys_less)
  have "distinct (keys (rc_skipped rc))"
    using inv by (simp add: receives_def)
  then have "distinct (keys ?d)"
    unfolding appended_keys distinct_append
    using less by (metis disjoint_iff distinct_upt not_le set_upt atLeastLessThan_iff)
  moreover have "k < Suc c \<and> v = nth_message_key ck k"
    if "map_of (evict_lowest MAX_SKIP ?d) k = Some v" for k v
  proof -
    from that have "map_of ?d k = Some v" by (rule evict_lowest_Some)
    then consider "map_of (rc_skipped rc) k = Some v" | "rc_next rc \<le> k" "k < c" "v = nth_message_key ck k"
      by (auto simp: map_add_Some_iff map_of_appended split: if_splits)
    then show ?thesis
      using inv ahead by cases (force simp: receives_def)+
  qed
  ultimately show ?thesis
    unfolding receives_def receiving_chain.simps
    by (intro conjI allI impI evict_lowest_distinct) (simp_all only: length_evict_lowest min.cobounded1)
qed

lemma receives_key_for:
  assumes inv: "receives ck rc"
  shows "receives ck (snd (key_for c rc))"
  using inv
proof (cases rule: available_cases [where c = c])
  case cached
  with inv show ?thesis by (simp add: key_for_cached receives_delete)
next
  case ahead
  with inv show ?thesis by (simp add: key_for_derives receives_derived)
next
  case unavailable
  with inv show ?thesis by (simp add: key_for_unavailable)
qed

lemma key_for_result:
  assumes "receives ck rc"
  shows "fst (key_for c rc) =
    (if available c rc then Inr (nth_message_key ck c)
     else Inl (ChainDesync (if c < rc_next rc then Already_Passed c else Too_Far_Ahead c (rc_next rc))))"
  using assms
proof (cases rule: available_cases [where c = c])
  case cached
  then have "available c rc"
    unfolding available_def by (metis map_of_eq_None_iff not_None_eq option.distinct(1) set_map)
  with cached show ?thesis by (simp add: key_for_cached)
next
  case ahead
  with assms show ?thesis by (simp add: key_for_derives available_def)
next
  case unavailable
  then show ?thesis by (simp add: key_for_unavailable)
qed

section \<open>The contract between the two chains\<close>

locale key_schedule =
  fixes emit :: "'s \<Rightarrow> (nat \<times> 'k) \<times> 's"
    and fetch :: "nat \<Rightarrow> 'r \<Rightarrow> (exn + 'k) \<times> 'r"
    and emits :: "'c \<Rightarrow> 's \<Rightarrow> bool"
    and fetches :: "'c \<Rightarrow> 'r \<Rightarrow> bool"
    and key :: "'c \<Rightarrow> nat \<Rightarrow> 'k"
  assumes emit_key: "emits c s \<Longrightarrow> emit s = ((n, k), s') \<Longrightarrow> k = key c n \<and> emits c s'"
    and fetch_key: "fetches c r \<Longrightarrow> fetch n r = (Inr k, r') \<Longrightarrow> k = key c n"
    and fetch_inv: "fetches c r \<Longrightarrow> fetch n r = (x, r') \<Longrightarrow> fetches c r'"
begin

lemma agreement:
  "emits c s \<Longrightarrow> emit s = ((n, k), s') \<Longrightarrow> fetches c r \<Longrightarrow> fetch n r = (Inr k', r') \<Longrightarrow> k' = k"
  using emit_key fetch_key by blast

end

interpretation ks: key_schedule next_key key_for sends receives nth_message_key
proof
  fix c s n k s'
  assume "sends c s" and "next_key s = ((n, k), s')"
  then show "k = nth_message_key c n \<and> sends c s'"
    using next_key_keeps_sends [of c s] by (auto simp: next_key_sends)
next
  fix c r n k r'
  assume "receives c r" and "key_for n r = (Inr k, r')"
  then show "k = nth_message_key c n"
    using key_for_result [of c r n] by (simp split: if_splits)
next
  fix c r n x r'
  assume "receives c r" and "key_for n r = (x, r')"
  then show "receives c r'"
    using receives_key_for [of c r n] by simp
qed

section \<open>A key is handed out once\<close>

lemma key_for_consumes:
  assumes "receives ck rc" and "key_for c rc = (Inr k, rc')"
  shows "\<not> available c rc'" and "c < rc_next rc'"
proof -
  have "\<not> available c rc' \<and> c < rc_next rc'"
    using assms(1)
  proof (cases rule: available_cases [where c = c])
    case cached
    with assms show ?thesis
      by (auto simp: key_for_cached available_def set_keys_delete simp del: set_map)
  next
    case ahead
    then have rc': "rc' = \<lparr>rc_key = chain_at ck (Suc c), rc_next = Suc c,
      rc_skipped = evict_lowest MAX_SKIP
        (rc_skipped rc @ map (\<lambda>i. (i, nth_message_key ck i)) [rc_next rc ..< c])\<rparr>" (is "_ = ?r")
      using assms by (simp add: key_for_derives)
    have "c \<notin> set (keys (rc_skipped rc @ map (\<lambda>i. (i, nth_message_key ck i)) [rc_next rc ..< c]))"
      using receives_keys_less [OF assms(1), of c] ahead unfolding appended_keys by auto
    then have "c \<notin> set (keys (rc_skipped rc'))"
      unfolding rc' receiving_chain.simps using evict_lowest_sub by (meson in_mono)
    moreover have "rc_next rc' = Suc c"
      by (simp add: rc')
    ultimately show ?thesis
      unfolding available_def by simp
  next
    case unavailable
    with assms show ?thesis by (simp add: key_for_unavailable)
  qed
  then show "\<not> available c rc'" and "c < rc_next rc'" by auto
qed

lemma key_for_again:
  assumes "receives ck rc" and "key_for c rc = (Inr k, rc')"
  shows "key_for c rc' = (Inl (ChainDesync (Already_Passed c)), rc')"
  using key_for_consumes [OF assms] by (simp add: key_for_unavailable)

text \<open>What was passed and is not cached stays so, whatever is asked next.\<close>

definition spent :: "nat \<Rightarrow> receiving_chain \<Rightarrow> bool" where
  "spent c rc \<longleftrightarrow> \<not> available c rc \<and> c < rc_next rc"

lemma spent_iff: "spent c rc \<longleftrightarrow> c < rc_next rc \<and> c \<notin> set (keys (rc_skipped rc))"
  by (auto simp: spent_def available_def simp del: set_map)

lemma key_for_keeps_spent:
  assumes "receives ck rc" and "spent c rc"
  shows "spent c (snd (key_for d rc))"
  using assms(1)
proof (cases rule: available_cases [where c = d])
  case cached
  with assms(2) show ?thesis
    by (simp add: key_for_cached spent_iff set_keys_delete del: set_map)
next
  case ahead
  let ?d = "rc_skipped rc @ map (\<lambda>i. (i, nth_message_key ck i)) [rc_next rc ..< d]"
  have "c \<notin> set (keys ?d)"
    using assms(2) ahead unfolding appended_keys spent_iff by auto
  then have "c \<notin> set (keys (evict_lowest MAX_SKIP ?d))"
    using evict_lowest_sub by (meson in_mono)
  with ahead assms show ?thesis
    by (simp add: key_for_derives spent_iff del: set_map map_append)
next
  case unavailable
  with assms show ?thesis by (simp add: key_for_unavailable)
qed

lemma key_for_step_bound:
  assumes "receives ck rc" and "key_for c rc = (x, rc')"
  shows "rc_next rc \<le> rc_next rc'" and "rc_next rc' \<le> rc_next rc + MAX_SKIP + 1"
proof -
  have "rc_next rc \<le> rc_next rc' \<and> rc_next rc' \<le> rc_next rc + MAX_SKIP + 1"
    using assms(1)
  proof (cases rule: available_cases [where c = c])
    case cached
    with assms show ?thesis by (auto simp: key_for_cached)
  next
    case ahead
    with assms show ?thesis by (auto simp: key_for_derives)
  next
    case unavailable
    with assms show ?thesis by (auto simp: key_for_unavailable)
  qed
  then show "rc_next rc \<le> rc_next rc'" and "rc_next rc' \<le> rc_next rc + MAX_SKIP + 1" by auto
qed

section \<open>Delivery in any order\<close>

fun send_keys :: "nat \<Rightarrow> sending_chain \<Rightarrow> (nat \<times> bytes) list \<times> sending_chain" where
  "send_keys 0 sc = ([], sc)"
| "send_keys (Suc n) sc =
     (let (nk, sc') = next_key sc; (nks, sc'') = send_keys n sc' in (nk # nks, sc''))"

fun receive_keys :: "nat list \<Rightarrow> receiving_chain \<Rightarrow> (exn + bytes) list \<times> receiving_chain" where
  "receive_keys [] rc = ([], rc)"
| "receive_keys (c # cs) rc =
     (let (k, rc') = key_for c rc; (ks, rc'') = receive_keys cs rc' in (k # ks, rc''))"

lemma receive_keys_spent:
  "receives ck rc \<Longrightarrow> spent c rc \<Longrightarrow> receives ck (snd (receive_keys ds rc)) \<and> spent c (snd (receive_keys ds rc))"
proof (induction ds arbitrary: rc)
  case Nil
  then show ?case by simp
next
  case (Cons d ds)
  from Cons.IH [OF receives_key_for [OF Cons.prems(1)] key_for_keeps_spent [OF Cons.prems]] show ?case
    by (simp add: split_beta)
qed

lemma send_keys_eq:
  "sends ck sc \<Longrightarrow> fst (send_keys n sc) =
     map (\<lambda>i. (i, nth_message_key ck i)) [sc_counter sc ..< sc_counter sc + n]"
proof (induction n arbitrary: sc)
  case 0
  then show ?case by simp
next
  case (Suc n)
  have "sends ck (snd (next_key sc))"
    using Suc.prems by (rule next_key_keeps_sends)
  from Suc.IH [OF this] Suc.prems show ?case
    by (simp add: next_key_sends split_beta upt_conv_Cons del: upt_Suc)
qed

text \<open>
  As long as every counter is at most \<open>MAX_SKIP\<close> nothing is evicted, so every counter not
  yet used stays available.
\<close>

definition all_cached :: "nat set \<Rightarrow> receiving_chain \<Rightarrow> bool" where
  "all_cached used rc \<longleftrightarrow>
     rc_next rc \<le> Suc MAX_SKIP \<and> used \<subseteq> {..< rc_next rc} \<and>
     set (keys (rc_skipped rc)) = {..< rc_next rc} - used"

lemma all_cached_available:
  "all_cached used rc \<Longrightarrow> c \<le> MAX_SKIP \<Longrightarrow> c \<notin> used \<Longrightarrow> available c rc"
  by (auto simp: all_cached_def available_def simp del: set_map)

lemma all_cached_step:
  assumes inv: "receives ck rc" and "all_cached used rc" and "c \<le> MAX_SKIP" and "c \<notin> used"
  shows "all_cached (insert c used) (snd (key_for c rc))"
  using inv
proof (cases rule: available_cases [where c = c])
  case cached
  with assms show ?thesis
    by (auto simp: key_for_cached all_cached_def set_keys_delete simp del: set_map)
next
  case ahead
  let ?d = "rc_skipped rc @ map (\<lambda>i. (i, nth_message_key ck i)) [rc_next rc ..< c]"
  have keys: "set (keys ?d) = {..< Suc c} - insert c used"
    using assms(2) ahead unfolding appended_keys set_append all_cached_def by auto
  have "distinct (keys (rc_skipped rc))" "length (keys ?d) = length (keys (rc_skipped rc)) + (c - rc_next rc)"
    using inv by (simp_all add: receives_def)
  then have "length ?d \<le> MAX_SKIP"
    using assms(2,3) ahead distinct_card [of "keys (rc_skipped rc)"]
      card_mono [of "{..< rc_next rc}" "{..< rc_next rc} - used"]
    by (simp add: all_cached_def del: set_map)
  with keys ahead assms show ?thesis
    by (auto simp: key_for_derives all_cached_def simp del: set_map map_append)
next
  case unavailable
  with all_cached_available [OF assms(2,3,4)] show ?thesis by simp
qed

lemma receive_keys_eq:
  assumes "receives ck rc" and "all_cached used rc"
    and "distinct cs" and "set cs \<inter> used = {}" and "\<forall>c \<in> set cs. c \<le> MAX_SKIP"
  shows "fst (receive_keys cs rc) = map (\<lambda>c. Inr (nth_message_key ck c)) cs"
  using assms
proof (induction cs arbitrary: rc used)
  case Nil
  then show ?case by simp
next
  case (Cons c cs)
  have "fst (key_for c rc) = Inr (nth_message_key ck c)"
    using Cons.prems by (simp add: key_for_result all_cached_available)
  moreover have "receives ck (snd (key_for c rc))"
    using Cons.prems(1) by (rule receives_key_for)
  moreover have "all_cached (insert c used) (snd (key_for c rc))"
    using Cons.prems by (intro all_cached_step) auto
  ultimately show ?case
    using Cons.IH [of "snd (key_for c rc)" "insert c used"] Cons.prems(3-5)
    by (simp add: split_beta)
qed

end
