(* ===== verification/Padding.thy ===== *)
theory Padding
  imports Prelude
begin

text \<open>
  \<open>padding.py\<close>: a 4-byte length, the plaintext, zeros up to a bucket. The specification of
  the bucket is the least allowed size that holds the framed message, where the allowed
  sizes are the nine buckets and the multiples of the largest.
\<close>

definition BUCKETS :: "nat list" where
  "BUCKETS = [32, 64, 128, 256, 512, 1024, 2048, 4096, 8192]"

definition LENGTH_PREFIX_SIZE :: nat where
  "LENGTH_PREFIX_SIZE = 4"

definition MAX_PLAINTEXT_SIZE :: nat where
  "MAX_PLAINTEXT_SIZE = 0xFFFFFFFF"

definition bucket_for :: "nat \<Rightarrow> nat" where
  "bucket_for framed_size =
     (case find (\<lambda>bucket. framed_size \<le> bucket) BUCKETS of
        Some bucket \<Rightarrow> bucket
      | None \<Rightarrow> (let largest = last BUCKETS in (framed_size + largest - 1) div largest * largest))"

definition pad :: "bytes \<Rightarrow> exn + bytes" where
  "pad plaintext =
     (if length plaintext > MAX_PLAINTEXT_SIZE
      then Inl (PaddingError (Too_Large (length plaintext)))
      else case to_bytes LENGTH_PREFIX_SIZE (length plaintext) of
        Inl e \<Rightarrow> Inl e
      | Inr prefix \<Rightarrow>
          (let framed = prefix @ plaintext;
               target = bucket_for (length framed)
           in Inr (framed @ replicate (target - length framed) 0)))"

definition unpad :: "bytes \<Rightarrow> exn + bytes" where
  "unpad padded =
     (if length padded < LENGTH_PREFIX_SIZE then Inl (PaddingError No_Prefix)
      else let original_length = from_bytes (take LENGTH_PREFIX_SIZE padded);
               end_pos = LENGTH_PREFIX_SIZE + original_length
           in if end_pos > length padded then Inl (PaddingError Length_Exceeds)
              else Inr (take (end_pos - LENGTH_PREFIX_SIZE) (drop LENGTH_PREFIX_SIZE padded)))"

lemmas padding_consts = BUCKETS_def LENGTH_PREFIX_SIZE_def MAX_PLAINTEXT_SIZE_def

section \<open>The bucket\<close>

definition allowed_size :: "nat \<Rightarrow> bool" where
  "allowed_size n \<longleftrightarrow> n \<in> set BUCKETS \<or> (0 < n \<and> 8192 dvd n)"

lemma bucket_for_cases:
  "bucket_for n =
     (if n \<le> 32 then 32 else if n \<le> 64 then 64 else if n \<le> 128 then 128 else if n \<le> 256 then 256
      else if n \<le> 512 then 512 else if n \<le> 1024 then 1024 else if n \<le> 2048 then 2048
      else if n \<le> 4096 then 4096 else if n \<le> 8192 then 8192 else (n + 8191) div 8192 * 8192)"
  by (simp add: bucket_for_def BUCKETS_def Let_def add.commute)

lemma round_up_ge: "n \<le> (n + 8191) div 8192 * (8192::nat)"
  using div_mult_mod_eq [of "n + 8191" 8192] mod_less_divisor [of 8192 "n + 8191"] by linarith

lemma bucket_for_ge: "n \<le> bucket_for n"
  using round_up_ge [of n] by (simp add: bucket_for_cases)

lemma bucket_for_allowed: "allowed_size (bucket_for n)"
  by (auto simp: bucket_for_cases allowed_size_def BUCKETS_def)

lemma multiple_of_largest_least:
  assumes "8192 dvd m" and "n \<le> m"
  shows "(n + 8191) div 8192 * 8192 \<le> (m::nat)"
proof -
  from assms(1) obtain k where k: "m = 8192 * k" by (rule dvdE)
  with assms(2) have "n + 8191 < Suc k * 8192" by simp
  then have "(n + 8191) div 8192 < Suc k" by (rule less_mult_imp_div_less)
  with k show ?thesis by simp
qed

lemma bucket_for_least: "allowed_size m \<Longrightarrow> n \<le> m \<Longrightarrow> bucket_for n \<le> m"
proof -
  assume m: "allowed_size m" and n: "n \<le> m"
  show ?thesis
  proof (cases "m \<in> set BUCKETS")
    case True
    with n show ?thesis by (auto simp: BUCKETS_def bucket_for_cases)
  next
    case False
    with m have "8192 dvd m" "8192 \<le> m"
      by (auto simp: allowed_size_def dvd_imp_le)
    with n multiple_of_largest_least [of m n] show ?thesis
      by (auto simp: bucket_for_cases)
  qed
qed

section \<open>Padding and unpadding\<close>

lemma pad_Inr:
  "pad p = Inr q \<longleftrightarrow> length p \<le> MAX_PLAINTEXT_SIZE \<and>
     q = be_bytes 4 (length p) @ p @ replicate (bucket_for (length p + 4) - (length p + 4)) 0"
  by (auto simp: pad_def padding_consts to_bytes_def Let_def add.commute)

lemma pad_total: "length p \<le> MAX_PLAINTEXT_SIZE \<Longrightarrow> \<exists>q. pad p = Inr q"
  by (simp add: pad_Inr)

lemma unpad_of_pad: "pad p = Inr q \<Longrightarrow> unpad q = Inr p"
  by (auto simp: pad_Inr unpad_def padding_consts Let_def from_be_bytes)

lemma length_of_pad: "pad p = Inr q \<Longrightarrow> length q = bucket_for (length p + 4)"
  using bucket_for_ge [of "length p + 4"] by (auto simp: pad_Inr)

interpretation padded: codec pad unpad
  by unfold_locales (rule unpad_of_pad)

end
