(* ===== verification/Replay_Window.thy ===== *)
theory Replay_Window
  imports Audit_Log
begin

text \<open>
  The sliding-window replay filter of \<open>secure_channel.py\<close> (\<open>_check_freshness\<close>,
  \<open>_mark_seen\<close>): bit \<open>i\<close> of an unbounded integer says whether counter
  \<open>highest - i\<close> has been seen. The specification is the set of counters seen so far; the
  interface a client of the filter relies on is the locale \<open>replay_filter\<close>.
\<close>

record replay_window = audited +
  window_size :: nat
  window_mask :: int
  highest_recv_counter :: int
  recv_bitmap :: int

definition check_freshness ::
    "nat \<Rightarrow> 'a replay_window_scheme \<Rightarrow> (exn + unit) \<times> 'a replay_window_scheme" where
  "check_freshness counter ch =
     (if int counter > highest_recv_counter ch then (Inr (), ch)
      else let distance = nat (highest_recv_counter ch - int counter);
               rejected = Event REPLAY_REJECTED
                 [(''counter'', CInt (int counter)), (''highest_seen'', CInt (highest_recv_counter ch))]
           in if distance \<ge> window_size ch
              then (Inl (ReplayError (Older_Than_Window counter)), log_event rejected ch)
              else if recv_bitmap ch AND push_bit distance 1 \<noteq> 0
              then (Inl (ReplayError (Already_Received counter)), log_event rejected ch)
              else (Inr (), ch))"

definition mark_seen :: "nat \<Rightarrow> 'a replay_window_scheme \<Rightarrow> 'a replay_window_scheme" where
  "mark_seen counter ch =
     (if int counter > highest_recv_counter ch
      then let shift = nat (int counter - highest_recv_counter ch)
           in ch\<lparr>recv_bitmap :=
                   (if shift \<ge> window_size ch then 1
                    else (push_bit shift (recv_bitmap ch) OR 1) AND window_mask ch),
                 highest_recv_counter := int counter\<rparr>
      else let distance = nat (highest_recv_counter ch - int counter)
           in ch\<lparr>recv_bitmap := recv_bitmap ch OR push_bit distance 1\<rparr>)"

section \<open>The specification: a set of counters\<close>

definition fresh_in :: "nat \<Rightarrow> nat set \<Rightarrow> nat \<Rightarrow> bool" where
  "fresh_in size_w seen c \<longleftrightarrow> c \<notin> seen \<and> (\<forall>s \<in> seen. s < c + size_w)"

definition window_repr :: "nat set \<Rightarrow> 'a replay_window_scheme \<Rightarrow> bool" where
  "window_repr seen w \<longleftrightarrow>
     (\<forall>c \<in> seen. int c \<le> highest_recv_counter w) \<and>
     (highest_recv_counter w = -1 \<or> (\<exists>c \<in> seen. int c = highest_recv_counter w)) \<and>
     window_mask w = mask (window_size w) \<and>
     (\<forall>i < window_size w. bit (recv_bitmap w) i \<longleftrightarrow> (\<exists>c \<in> seen. int c + int i = highest_recv_counter w))"

lemma check_freshness_iff:
  assumes "window_repr seen w"
  shows "fst (check_freshness c w) = Inr () \<longleftrightarrow> fresh_in (window_size w) seen c"
proof -
  let ?h = "highest_recv_counter w" and ?n = "window_size w"
  have le: "\<And>s. s \<in> seen \<Longrightarrow> int s \<le> ?h"
    and top: "?h = -1 \<or> (\<exists>s \<in> seen. int s = ?h)"
    and bits: "\<And>i. i < ?n \<Longrightarrow> bit (recv_bitmap w) i \<longleftrightarrow> (\<exists>s \<in> seen. int s + int i = ?h)"
    using assms by (auto simp: window_repr_def)
  consider (new) "int c > ?h" | (old) "int c \<le> ?h" "int ?n \<le> ?h - int c"
    | (inside) "int c \<le> ?h" "?h - int c < int ?n" by linarith
  then show ?thesis
  proof cases
    case new
    then have "\<forall>s \<in> seen. s < c + ?n" "c \<notin> seen"
      using le by fastforce+
    with new show ?thesis by (auto simp: check_freshness_def fresh_in_def)
  next
    case old
    then obtain s where "s \<in> seen" "int s = ?h"
      using top by auto
    with old show ?thesis by (force simp: check_freshness_def fresh_in_def Let_def)
  next
    case inside
    then have "nat (?h - int c) < ?n" by linarith
    then have "bit (recv_bitmap w) (nat (?h - int c)) \<longleftrightarrow> c \<in> seen"
      using inside by (auto simp: bits)
    moreover have "\<forall>s \<in> seen. s < c + ?n"
      using le inside by fastforce
    ultimately show ?thesis
      using inside by (auto simp: check_freshness_def fresh_in_def Let_def and_exp_eq_0_iff_not_bit)
  qed
qed

lemma mark_seen_repr:
  assumes repr: "window_repr seen w" and fresh: "fresh_in (window_size w) seen c"
  shows "window_repr (insert c seen) (mark_seen c w)"
proof -
  let ?h = "highest_recv_counter w" and ?n = "window_size w" and ?b = "recv_bitmap w"
  have le: "\<And>s. s \<in> seen \<Longrightarrow> int s \<le> ?h"
    and top: "?h = -1 \<or> (\<exists>s \<in> seen. int s = ?h)"
    and bits: "\<And>i. i < ?n \<Longrightarrow> bit ?b i \<longleftrightarrow> (\<exists>s \<in> seen. int s + int i = ?h)"
    and mask: "window_mask w = mask ?n"
    using repr by (auto simp: window_repr_def)
  show ?thesis
  proof (cases "int c > ?h")
    case True
    define sh where "sh = nat (int c - ?h)"
    have sh: "int sh = int c - ?h"
      using True by (simp add: sh_def)
    have new_bits: "bit (if sh \<ge> ?n then 1 else (push_bit sh ?b OR 1) AND mask ?n) i \<longleftrightarrow>
        (\<exists>s \<in> insert c seen. int s + int i = int c)" if "i < ?n" for i
    proof (cases "sh \<ge> ?n")
      case True
      then show ?thesis
        using that le sh by (force simp: bit_1_iff)
    next
      case False
      have "(\<exists>s \<in> seen. int s + int i = int c) \<longleftrightarrow> sh \<le> i \<and> bit ?b (i - sh)"
      proof (cases "sh \<le> i")
        case True
        with that have "i - sh < ?n" by simp
        with True sh show ?thesis by (auto simp: bits of_nat_diff algebra_simps)
      next
        case False
        with le sh show ?thesis by force
      qed
      with False that show ?thesis
        by (auto simp: bit_and_iff bit_or_iff bit_push_bit_iff bit_mask_iff bit_1_iff possible_bit_def)
    qed
    have "mark_seen c w = w\<lparr>recv_bitmap := (if sh \<ge> ?n then 1 else (push_bit sh ?b OR 1) AND mask ?n),
       highest_recv_counter := int c\<rparr>"
      using True by (simp add: mark_seen_def sh_def mask)
    moreover have "s \<le> c" if "s \<in> seen" for s
      using le [OF that] True by linarith
    ultimately show ?thesis
      using new_bits mask by (auto simp: window_repr_def)
  next
    case False
    then obtain s where s: "s \<in> seen" "int s = ?h"
      using top by auto
    define d where "d = nat (?h - int c)"
    have d: "int c + int d = ?h"
      using False by (simp add: d_def)
    have "bit (?b OR push_bit d 1) i \<longleftrightarrow> (\<exists>s \<in> insert c seen. int s + int i = ?h)" if "i < ?n" for i
      using that d bits [OF that]
      by (auto simp: bit_or_iff bit_exp_iff possible_bit_def)
    moreover have "mark_seen c w = w\<lparr>recv_bitmap := ?b OR push_bit d 1\<rparr>"
      using False by (simp add: mark_seen_def d_def)
    ultimately show ?thesis
      using False le s mask by (auto simp: window_repr_def)
  qed
qed

lemma mark_seen_frame [simp]:
  "window_size (mark_seen c w) = window_size w" "audit (mark_seen c w) = audit w"
  "replay_window.more (mark_seen c w) = replay_window.more w"
  by (simp_all add: mark_seen_def Let_def)

section \<open>The filter as an interface\<close>

text \<open>
  What a client needs: a counter the filter passes has not been recorded, and recording a
  counter that passed is reflected in the set.
\<close>

locale replay_filter =
  fixes passes :: "nat \<Rightarrow> 'w \<Rightarrow> bool"
    and record_seen :: "nat \<Rightarrow> 'w \<Rightarrow> 'w"
    and repr :: "nat set \<Rightarrow> 'w \<Rightarrow> bool"
  assumes passes_new: "repr seen w \<Longrightarrow> passes c w \<Longrightarrow> c \<notin> seen"
    and record_repr: "repr seen w \<Longrightarrow> passes c w \<Longrightarrow> repr (insert c seen) (record_seen c w)"
begin

lemma no_replay: "repr seen w \<Longrightarrow> c \<in> seen \<Longrightarrow> \<not> passes c w"
  using passes_new by blast

lemma recorded_rejected: "repr seen w \<Longrightarrow> passes c w \<Longrightarrow> \<not> passes c (record_seen c w)"
  using record_repr no_replay by blast

lemma recorded_stays: "repr seen w \<Longrightarrow> s \<in> seen \<Longrightarrow> passes c w \<Longrightarrow> \<not> passes s (record_seen c w)"
  using record_repr no_replay by blast

end

definition passes_window :: "nat \<Rightarrow> 'a replay_window_scheme \<Rightarrow> bool" where
  "passes_window c w \<longleftrightarrow> fst (check_freshness c w) = Inr ()"

interpretation rw: replay_filter passes_window mark_seen window_repr
proof
  fix seen c and w :: "'a replay_window_scheme"
  assume "window_repr seen w" and "passes_window c w"
  then have "window_repr seen w" and "fresh_in (window_size w) seen c"
    by (simp_all add: passes_window_def check_freshness_iff)
  then show "c \<notin> seen" and "window_repr (insert c seen) (mark_seen c w)"
    by (simp_all add: mark_seen_repr) (simp add: fresh_in_def)
qed

section \<open>A stream of counters\<close>

text \<open>The filter over a stream, and what it must answer: fresh with respect to what it took so far.\<close>

fun admit :: "nat list \<Rightarrow> 'a replay_window_scheme \<Rightarrow> bool list \<times> 'a replay_window_scheme" where
  "admit [] w = ([], w)"
| "admit (c # cs) w =
     (let (r, w1) = check_freshness c w;
          (bs, w2) = admit cs (if r = Inr () then mark_seen c w1 else w1)
      in ((r = Inr ()) # bs, w2))"

fun admit_spec :: "nat \<Rightarrow> nat list \<Rightarrow> nat set \<Rightarrow> bool list" where
  "admit_spec n [] seen = []"
| "admit_spec n (c # cs) seen =
     fresh_in n seen c # admit_spec n cs (if fresh_in n seen c then insert c seen else seen)"

lemma check_freshness_window:
  "check_freshness c w = (r, w1) \<Longrightarrow> r = Inr () \<and> w1 = w \<or>
     window_size w1 = window_size w \<and> window_repr seen w1 = window_repr seen w"
  by (cases w) (auto simp: check_freshness_def log_event_def window_repr_def Let_def split: if_splits)

lemma admit_eq: "window_repr seen w \<Longrightarrow> fst (admit cs w) = admit_spec (window_size w) cs seen"
proof (induction cs arbitrary: seen w)
  case Nil
  then show ?case by simp
next
  case (Cons c cs)
  obtain r w1 where cf: "check_freshness c w = (r, w1)" by (cases "check_freshness c w")
  have fresh: "r = Inr () \<longleftrightarrow> fresh_in (window_size w) seen c"
    using check_freshness_iff [OF Cons.prems, of c] cf by simp
  have same: "window_size w1 = window_size w" "window_repr seen w1"
    using check_freshness_window [OF cf, of seen] Cons.prems by auto
  show ?case
  proof (cases "r = Inr ()")
    case True
    then have f: "fresh_in (window_size w1) seen c"
      using fresh same(1) by simp
    from Cons.IH [OF mark_seen_repr [OF same(2) f]] same True fresh show ?thesis
      by (simp add: cf split_beta)
  next
    case False
    with Cons.IH [OF same(2)] same fresh show ?thesis
      by (simp add: cf split_beta)
  qed
qed

end
