(* ===== verification/Secure_Channel.thy ===== *)
theory Secure_Channel
  imports Ratchet Padding Replay_Window
begin

text \<open>
  \<open>secure_channel.py\<close>: the channel object, \<open>encrypt\<close> with its reactive, count and time
  triggers, \<open>decrypt\<close> with its freshness check, speculative DH step, key derivation,
  authentication and commit. The clock readings and the private key a call draws are its
  arguments; the audit events a call logs are appended to the channel's \<open>audit\<close> list.
  A method returns its result or exception together with the object it leaves behind.
\<close>

section \<open>State\<close>

record channel = replay_window +
  send_chain :: sending_chain
  recv_chains :: "(nat, receiving_chain) dict"
  root_key :: bytes
  my_ratchet_priv :: bytes
  my_ratchet_pub :: bytes
  peer_ratchet_pub :: bytes
  rekey_interval :: int
  rekey_interval_seconds :: real
  messages_since_rekey :: nat
  last_rekey_time :: real
  pad_messages :: bool
  send_ratchet_owed :: bool
  send_counter :: nat

definition DEFAULT_WINDOW_SIZE :: nat where
  "DEFAULT_WINDOW_SIZE = 1024"

definition DEFAULT_REKEY_INTERVAL :: int where
  "DEFAULT_REKEY_INTERVAL = 20"

definition DEFAULT_REKEY_INTERVAL_SECONDS :: real where
  "DEFAULT_REKEY_INTERVAL_SECONDS = 300"

definition MAX_RETAINED_CHAINS :: nat where
  "MAX_RETAINED_CHAINS = 3"

definition FLAG_NO_REKEY :: byte where
  "FLAG_NO_REKEY = 0"

definition FLAG_REKEY :: byte where
  "FLAG_REKEY = 1"

record channel_params =
  p_window_size :: nat
  p_rekey_interval :: int
  p_rekey_interval_seconds :: real
  p_pad_messages :: bool

definition default_params :: channel_params where
  "default_params =
     \<lparr>p_window_size = DEFAULT_WINDOW_SIZE, p_rekey_interval = DEFAULT_REKEY_INTERVAL,
      p_rekey_interval_seconds = DEFAULT_REKEY_INTERVAL_SECONDS, p_pad_messages = True\<rparr>"

text \<open>\<open>SecureChannel.__init__\<close>; the last argument is the clock reading it takes.\<close>

definition new_channel ::
    "cryptolib \<Rightarrow> bytes \<Rightarrow> bytes \<Rightarrow> bytes \<Rightarrow> bytes \<Rightarrow> bytes \<Rightarrow> channel_params \<Rightarrow> real \<Rightarrow> channel" where
  "new_channel L send_key recv_key initial_root priv peer_pub ps now =
     \<lparr>audit = [],
      window_size = p_window_size ps,
      window_mask = push_bit (p_window_size ps) 1 - 1,
      highest_recv_counter = -1,
      recv_bitmap = 0,
      send_chain = new_sending_chain send_key,
      recv_chains = [(0, new_receiving_chain recv_key)],
      root_key = initial_root,
      my_ratchet_priv = priv,
      my_ratchet_pub = x_public L priv,
      peer_ratchet_pub = peer_pub,
      rekey_interval = p_rekey_interval ps,
      rekey_interval_seconds = p_rekey_interval_seconds ps,
      messages_since_rekey = 0,
      last_rekey_time = now,
      pad_messages = p_pad_messages ps,
      send_ratchet_owed = False,
      send_counter = 0\<rparr>"

section \<open>Sending\<close>

text \<open>What one call of \<open>encrypt\<close> reads from outside: the clock, twice, and a fresh key.\<close>

record send_env =
  clock_start :: real
  fresh_priv :: bytes
  clock_rekey :: real

definition count_due :: "channel \<Rightarrow> bool" where
  "count_due ch \<longleftrightarrow> int (messages_since_rekey ch) \<ge> rekey_interval ch"

definition time_due :: "send_env \<Rightarrow> channel \<Rightarrow> bool" where
  "time_due env ch \<longleftrightarrow> clock_start env - last_rekey_time ch \<ge> rekey_interval_seconds ch"

definition rekey_due :: "send_env \<Rightarrow> channel \<Rightarrow> bool" where
  "rekey_due env ch \<longleftrightarrow> send_ratchet_owed ch \<or> count_due ch \<or> time_due env ch"

definition rekey_reason :: "channel \<Rightarrow> string" where
  "rekey_reason ch =
     (if send_ratchet_owed ch then ''reactive'' else if count_due ch then ''count'' else ''time'')"

definition perform_send_ratchet_step ::
    "cryptolib \<Rightarrow> send_env \<Rightarrow> string \<Rightarrow> real \<Rightarrow> channel \<Rightarrow> (exn + unit) \<times> channel" where
  "perform_send_ratchet_step L env reason elapsed ch =
     (let (new_priv, new_pub) = generate_x25519_keypair L (fresh_priv env)
      in case bind_exn (x25519_public_from_bytes L (peer_ratchet_pub ch))
                (\<lambda>peer_pub_obj. derive_shared_secret L new_priv peer_pub_obj) of
           Inl e \<Rightarrow> (Inl e, ch)
         | Inr dh_output \<Rightarrow>
             (let (new_root, new_chain_key) = dh_ratchet_step L (root_key ch) dh_output
              in (Inr (), log_event
                    (Event REKEY_PERFORMED
                      [(''direction'', CStr ''send''), (''at_counter'', CInt (int (send_counter ch))),
                       (''reason'', CStr reason), (''seconds_since_last_rekey'', CReal elapsed)])
                    (ch\<lparr>root_key := new_root,
                        send_chain := new_sending_chain new_chain_key,
                        my_ratchet_priv := new_priv,
                        my_ratchet_pub := new_pub,
                        messages_since_rekey := 0,
                        last_rekey_time := clock_rekey env,
                        send_ratchet_owed := False\<rparr>))))"

text \<open>The last lines of \<open>encrypt\<close>, once counter and message key are taken.\<close>

definition seal_frame :: "cryptolib \<Rightarrow> bytes \<Rightarrow> nat \<Rightarrow> bytes \<Rightarrow> bool \<Rightarrow> bytes \<Rightarrow> exn + bytes" where
  "seal_frame L key counter header padding plaintext =
     bind_exn (counter_to_nonce counter) (\<lambda>nonce.
     bind_exn (to_bytes 8 counter) (\<lambda>counter_bytes.
     bind_exn (if padding then pad plaintext else Inr plaintext) (\<lambda>payload.
     let aad = header @ counter_bytes
     in bind_exn (aes_gcm_encrypt L key nonce payload aad) (\<lambda>ciphertext. Inr (aad @ ciphertext)))))"

definition encrypt_with_header ::
    "cryptolib \<Rightarrow> bytes \<Rightarrow> bytes \<Rightarrow> channel \<Rightarrow> (exn + bytes) \<times> channel" where
  "encrypt_with_header L header plaintext ch =
     (let counter = send_counter ch;
          ((_, message_key), sc) = next_key (send_chain ch)
      in (seal_frame L message_key counter header (pad_messages ch) plaintext,
          ch\<lparr>send_counter := counter + 1,
             messages_since_rekey := messages_since_rekey ch + 1,
             send_chain := sc\<rparr>))"

definition encrypt :: "cryptolib \<Rightarrow> send_env \<Rightarrow> bytes \<Rightarrow> channel \<Rightarrow> (exn + bytes) \<times> channel" where
  "encrypt L env plaintext ch =
     (if rekey_due env ch
      then case perform_send_ratchet_step L env (rekey_reason ch)
                  (clock_start env - last_rekey_time ch) ch of
             (Inl e, ch') \<Rightarrow> (Inl e, ch')
           | (Inr _, ch') \<Rightarrow> encrypt_with_header L (FLAG_REKEY # my_ratchet_pub ch') plaintext ch'
      else encrypt_with_header L [FLAG_NO_REKEY] plaintext ch)"

section \<open>Receiving\<close>

text \<open>The header of a frame: an attached ratchet key, the counter, the associated data, the rest.\<close>

definition parse_frame :: "bytes \<Rightarrow> exn + (bytes option \<times> nat \<times> bytes \<times> bytes)" where
  "parse_frame framed =
     (if length framed < 9 then Inl (TamperError Frame_Too_Short)
      else let flag = framed ! 0
           in if flag = FLAG_REKEY
              then if length framed < 1 + 32 + 8 then Inl (TamperError Too_Short_For_Key)
                   else Inr (Some (take 32 (drop 1 framed)), from_bytes (take 8 (drop 33 framed)),
                             take 41 framed, drop 41 framed)
              else if flag \<noteq> FLAG_NO_REKEY then Inl (TamperError (Invalid_Flag flag))
              else Inr (None, from_bytes (take 8 (drop 1 framed)), take 9 framed, drop 9 framed))"

record pending_receive_ratchet =
  pr_root_key :: bytes
  pr_chain :: receiving_chain
  pr_peer_pub :: bytes

definition compute_receive_ratchet_step ::
    "cryptolib \<Rightarrow> bytes \<Rightarrow> channel \<Rightarrow> exn + pending_receive_ratchet" where
  "compute_receive_ratchet_step L new_peer_pub ch =
     bind_exn (x25519_public_from_bytes L new_peer_pub) (\<lambda>peer_pub_obj.
     bind_exn (derive_shared_secret L (my_ratchet_priv ch) peer_pub_obj) (\<lambda>dh_output.
     let (candidate_root, new_chain_key) = dh_ratchet_step L (root_key ch) dh_output
     in Inr \<lparr>pr_root_key = candidate_root, pr_chain = new_receiving_chain new_chain_key,
             pr_peer_pub = new_peer_pub\<rparr>))"

definition prune_old_recv_chains :: "channel \<Rightarrow> channel" where
  "prune_old_recv_chains ch =
     ch\<lparr>recv_chains := evict_lowest MAX_RETAINED_CHAINS (recv_chains ch)\<rparr>"

definition commit_receive_ratchet_step ::
    "pending_receive_ratchet \<Rightarrow> nat \<Rightarrow> channel \<Rightarrow> channel" where
  "commit_receive_ratchet_step pending start_counter ch =
     (let ch1 = ch\<lparr>root_key := pr_root_key pending,
                   recv_chains := AList.update start_counter (pr_chain pending) (recv_chains ch),
                   peer_ratchet_pub := pr_peer_pub pending\<rparr>;
          ch2 = prune_old_recv_chains ch1
      in log_event
           (Event REKEY_PERFORMED
             [(''direction'', CStr ''recv''), (''at_counter'', CInt (int start_counter))])
           (ch2\<lparr>send_ratchet_owed := True\<rparr>))"

text \<open>
  \<open>max(k for k in self._recv_chains if k <= counter)\<close>: \<open>max\<close> of nothing is a
  \<open>ValueError\<close>.
\<close>

definition chain_start_for :: "nat \<Rightarrow> channel \<Rightarrow> exn + nat" where
  "chain_start_for counter ch =
     (case filter (\<lambda>k. k \<le> counter) (keys (recv_chains ch)) of
        [] \<Rightarrow> Inl ValueError
      | k # ks \<Rightarrow> Inr (fold max ks k))"

text \<open>
  \<open>decrypt\<close> from the key on: \<open>key\<close> is what \<open>chain.key_for\<close> returned or raised, \<open>pending\<close>
  the candidate step, if the frame announced one.
\<close>

definition authenticate_and_commit ::
    "cryptolib \<Rightarrow> exn + bytes \<Rightarrow> nat \<Rightarrow> bytes \<Rightarrow> bytes \<Rightarrow> pending_receive_ratchet option \<Rightarrow> channel \<Rightarrow>
     (exn + bytes) \<times> channel" where
  "authenticate_and_commit L key counter aad ciphertext pending ch =
     (let note = (\<lambda>c. log_event (Event c [(''counter'', CInt (int counter))]) ch)
      in case key of
        Inl e \<Rightarrow> (case e of
            ChainDesync r \<Rightarrow> (Inl (TamperError (Desync r)), note CHAIN_DESYNC)
          | _ \<Rightarrow> (Inl e, ch))
      | Inr message_key \<Rightarrow>
      (case bind_exn (counter_to_nonce counter)
              (\<lambda>nonce. aes_gcm_decrypt L message_key nonce ciphertext aad) of
        Inl e \<Rightarrow> (if e = InvalidTag then (Inl (TamperError Tag_Mismatch), note TAMPER_DETECTED)
                  else (Inl e, ch))
      | Inr payload \<Rightarrow>
      (case (if pad_messages ch then unpad payload else Inr payload) of
        Inl e \<Rightarrow> (case e of
            PaddingError r \<Rightarrow> (Inl (TamperError (Invalid_Padding r)), note TAMPER_DETECTED)
          | _ \<Rightarrow> (Inl e, ch))
      | Inr plaintext \<Rightarrow>
          (Inr plaintext, mark_seen counter
             (case pending of None \<Rightarrow> ch | Some p \<Rightarrow> commit_receive_ratchet_step p counter ch)))))"

definition decrypt :: "cryptolib \<Rightarrow> bytes \<Rightarrow> channel \<Rightarrow> (exn + bytes) \<times> channel" where
  "decrypt L framed ch =
     (case parse_frame framed of
        Inl e \<Rightarrow> (Inl e, ch)
      | Inr (new_peer_pub, counter, aad, ciphertext) \<Rightarrow>
      (case check_freshness counter ch of
        (Inl e, ch1) \<Rightarrow> (Inl e, ch1)
      | (Inr _, ch1) \<Rightarrow>
          (if new_peer_pub \<noteq> None \<and> new_peer_pub \<noteq> Some (peer_ratchet_pub ch1)
           then (case compute_receive_ratchet_step L (the new_peer_pub) ch1 of
                   Inl e \<Rightarrow> (Inl e, ch1)
                 | Inr pending \<Rightarrow>
                   (let (key, chain) = key_for 0 (pr_chain pending)
                    in authenticate_and_commit L key counter aad ciphertext
                         (Some (pending\<lparr>pr_chain := chain\<rparr>)) ch1))
           else (case chain_start_for counter ch1 of
                   Inl e \<Rightarrow> (Inl e, ch1)
                 | Inr chain_start \<Rightarrow>
                   (let (key, chain) = key_for (counter - chain_start)
                                         (the (map_of (recv_chains ch1) chain_start))
                    in authenticate_and_commit L key counter aad ciphertext None
                         (ch1\<lparr>recv_chains := AList.update chain_start chain (recv_chains ch1)\<rparr>))))))"

section \<open>Frames\<close>

definition frame_header :: "bytes option \<Rightarrow> nat \<Rightarrow> bytes" where
  "frame_header announced counter =
     (case announced of None \<Rightarrow> [FLAG_NO_REKEY] | Some pub \<Rightarrow> FLAG_REKEY # pub) @ be_bytes 8 counter"

lemmas frame_flags = FLAG_NO_REKEY_def FLAG_REKEY_def

lemma length_frame_header:
  "length (frame_header np c) = (case np of None \<Rightarrow> 9 | Some pub \<Rightarrow> 9 + length pub)"
  by (simp add: frame_header_def split: option.splits)

lemma parse_frame_of_header:
  assumes "c < 256 ^ 8" and "\<And>p. np = Some p \<Longrightarrow> length p = 32"
  shows "parse_frame (frame_header np c @ ct) = Inr (np, c, frame_header np c, ct)"
proof (cases np)
  case None
  with assms(1) show ?thesis
    by (simp add: parse_frame_def frame_header_def frame_flags Let_def from_be_bytes)
next
  case (Some p)
  then have "length p = 32" by (rule assms(2))
  with Some assms(1) show ?thesis
    by (simp add: parse_frame_def frame_header_def frame_flags Let_def from_be_bytes)
qed

lemma be_bytes_take: "length xs = n \<Longrightarrow> be_bytes n (from_bytes xs) = xs"
  using be_from_bytes [of xs] by simp

lemma parse_frame_Inr:
  assumes "parse_frame f = Inr (np, c, aad, ct)"
  shows "c < 256 ^ 8" and "aad = frame_header np c" and "f = aad @ ct"
    and "np = Some p \<Longrightarrow> length p = 32"
proof -
  have "c < 256 ^ 8 \<and> aad = frame_header np c \<and> f = aad @ ct \<and> (np = Some p \<longrightarrow> length p = 32)"
  proof (cases "f ! 0 = FLAG_REKEY")
    case True
    with assms have len: "41 \<le> length f" and np: "np = Some (take 32 (drop 1 f))"
      and c: "c = from_bytes (take 8 (drop 33 f))" and aad: "aad = take 41 f" and ct: "ct = drop 41 f"
      by (auto simp: parse_frame_def Let_def split: if_splits)
    have "take 41 f = take 1 f @ take 32 (drop 1 f) @ take 8 (drop 33 f)"
      by (simp flip: take_add [of 1 40 f, simplified] take_add [of 32 8 "drop 1 f", simplified])
    moreover have "take 1 f = [FLAG_REKEY]"
      using True len by (cases f) auto
    moreover have "be_bytes 8 c = take 8 (drop 33 f)"
      using len unfolding c by (intro be_bytes_take) simp
    moreover have "c < 256 ^ 8"
      using len from_bytes_less [of "take 8 (drop 33 f)"] unfolding c by simp
    ultimately have "c < 256 ^ 8 \<and> aad = frame_header np c \<and> length (the np) = 32"
      using len by (simp add: frame_header_def np aad)
    moreover have "f = aad @ ct"
      unfolding aad ct by simp
    ultimately show ?thesis
      by auto
  next
    case False
    with assms have len: "9 \<le> length f" and flag: "f ! 0 = FLAG_NO_REKEY" and np: "np = None"
      and c: "c = from_bytes (take 8 (drop 1 f))" and aad: "aad = take 9 f" and ct: "ct = drop 9 f"
      by (auto simp: parse_frame_def Let_def split: if_splits)
    have "take 9 f = take 1 f @ take 8 (drop 1 f)"
      by (simp flip: take_add [of 1 8 f, simplified])
    moreover have "take 1 f = [FLAG_NO_REKEY]"
      using flag len by (cases f) auto
    moreover have "be_bytes 8 c = take 8 (drop 1 f)"
      using len unfolding c by (intro be_bytes_take) simp
    moreover have "c < 256 ^ 8"
      using len from_bytes_less [of "take 8 (drop 1 f)"] unfolding c by simp
    ultimately have "c < 256 ^ 8 \<and> aad = frame_header np c"
      by (simp add: frame_header_def np aad)
    moreover have "f = aad @ ct"
      unfolding aad ct by simp
    ultimately show ?thesis
      by (simp add: np)
  qed
  then show "c < 256 ^ 8" and "aad = frame_header np c" and "f = aad @ ct"
    and "np = Some p \<Longrightarrow> length p = 32" by auto
qed

text \<open>What \<open>seal_frame\<close> puts out, and when it does.\<close>

lemma seal_frame_Inr:
  assumes "seal_frame L key c header padding p = Inr f"
  shows "c < 256 ^ 8" and "\<exists>nonce payload ct. counter_to_nonce c = Inr nonce \<and>
    (if padding then pad p else Inr p) = Inr payload \<and>
    aes_gcm_encrypt L key nonce payload (header @ be_bytes 8 c) = Inr ct \<and>
    f = header @ be_bytes 8 c @ ct"
  using assms by (auto simp: seal_frame_def bind_exn_Inr to_bytes_Inr Let_def)

section \<open>The chain of a counter\<close>

lemma chain_start_for_eq:
  "chain_start_for c ch =
     (let ks = {k \<in> set (keys (recv_chains ch)). k \<le> c}
      in if ks = {} then Inl ValueError else Inr (Max ks))"
proof -
  define l where "l = filter (\<lambda>k. k \<le> c) (keys (recv_chains ch))"
  have set_l: "{k \<in> set (keys (recv_chains ch)). k \<le> c} = set l"
    by (auto simp: l_def)
  have "chain_start_for c ch = (case l of [] \<Rightarrow> Inl ValueError | k # ks \<Rightarrow> Inr (fold max ks k))"
    by (simp add: chain_start_for_def l_def)
  then show ?thesis
    unfolding set_l Let_def by (cases l) (simp_all only: list.case Max.set_eq_fold, auto)
qed

end
