(* ===== verification/Channel_Safety.thy ===== *)
theory Channel_Safety
  imports Secure_Channel
begin

text \<open>
  What holds of one channel object whatever frames reach it: the state a rejected frame can
  change, the channel's invariant, no counter accepted or emitted twice in any sequence of
  calls, the bound on the messages of an epoch, the exceptions \<open>decrypt\<close> lets out.
\<close>

section \<open>Calls and their effect on the window\<close>

lemma check_freshness_state:
  "check_freshness c w = (r, w') \<Longrightarrow> \<exists>lg. w' = w\<lparr>audit := lg\<rparr> \<and> (r = Inr () \<longrightarrow> w' = w)"
  by (cases w) (auto simp: check_freshness_def log_event_def Let_def split: if_splits)

lemma check_freshness_exn: "check_freshness c w = (Inl e, w') \<Longrightarrow> \<exists>r. e = ReplayError r"
  by (auto simp: check_freshness_def Let_def split: if_splits)

lemma log_event_channel: "log_event ev (ch :: channel) = ch\<lparr>audit := audit ch @ [ev]\<rparr>"
  by (simp add: log_event_def)

lemma window_repr_log [simp]: "window_repr S (w\<lparr>audit := lg\<rparr>) = window_repr S w"
  by (simp add: window_repr_def)

text \<open>
  \<open>authenticate_and_commit\<close> raises without touching the channel but for the audit log,
  or returns and commits.
\<close>

lemma authenticate_Inl:
  "authenticate_and_commit L key c aad ct pending ch = (Inl e, ch') \<Longrightarrow> \<exists>lg. ch' = ch\<lparr>audit := lg\<rparr>"
  by (cases ch) (auto simp: authenticate_and_commit_def Let_def log_event_channel
      split: sum.splits exn.splits if_splits)

lemma authenticate_Inr:
  assumes "authenticate_and_commit L key c aad ct pending ch = (Inr p, ch')"
  obtains mk nonce payload where "key = Inr mk" "counter_to_nonce c = Inr nonce"
    "aes_gcm_decrypt L mk nonce ct aad = Inr payload"
    "(if pad_messages ch then unpad payload else Inr payload) = Inr p"
    "ch' = mark_seen c (case pending of None \<Rightarrow> ch | Some q \<Rightarrow> commit_receive_ratchet_step q c ch)"
  using assms
  by (auto simp: authenticate_and_commit_def Let_def bind_exn_Inr split: sum.splits exn.splits if_splits)

text \<open>A successful \<open>decrypt\<close>, taken apart.\<close>

definition announces :: "bytes option \<Rightarrow> channel \<Rightarrow> bool" where
  "announces np ch \<longleftrightarrow> np \<noteq> None \<and> np \<noteq> Some (peer_ratchet_pub ch)"

lemma decrypt_parsed:
  assumes "parse_frame f = Inr (np, c, aad, ct)" and "passes_window c ch"
  shows "decrypt L f ch =
    (if announces np ch
     then (case compute_receive_ratchet_step L (the np) ch of
             Inl e \<Rightarrow> (Inl e, ch)
           | Inr q \<Rightarrow> authenticate_and_commit L (fst (key_for 0 (pr_chain q))) c aad ct
                         (Some (q\<lparr>pr_chain := snd (key_for 0 (pr_chain q))\<rparr>)) ch)
     else (case chain_start_for c ch of
             Inl e \<Rightarrow> (Inl e, ch)
           | Inr s \<Rightarrow>
             (let kc = key_for (c - s) (the (map_of (recv_chains ch) s))
              in authenticate_and_commit L (fst kc) c aad ct None
                   (ch\<lparr>recv_chains := AList.update s (snd kc) (recv_chains ch)\<rparr>))))"
proof -
  have "check_freshness c ch = (Inr (), ch)"
    using assms(2) check_freshness_state [of c ch] by (cases "check_freshness c ch") (auto simp: passes_window_def)
  with assms(1) show ?thesis
    by (simp add: decrypt_def announces_def split_beta Let_def split: sum.splits)
qed

lemma decrypt_stale:
  assumes "parse_frame f = Inr (np, c, aad, ct)" and "\<not> passes_window c ch"
  shows "\<exists>r lg. decrypt L f ch = (Inl (ReplayError r), ch\<lparr>audit := lg\<rparr>)"
proof -
  obtain x ch1 where cf: "check_freshness c ch = (x, ch1)" by (cases "check_freshness c ch")
  with assms(2) obtain e where "x = Inl e"
    by (cases x) (auto simp: passes_window_def)
  with cf check_freshness_exn [of c ch] check_freshness_state [of c ch] assms(1) show ?thesis
    by (fastforce simp: decrypt_def)
qed

lemma decrypt_unparsed: "parse_frame f = Inl e \<Longrightarrow> decrypt L f ch = (Inl e, ch)"
  by (simp add: decrypt_def)

lemma parse_frame_exn: "parse_frame f = Inl e \<Longrightarrow> \<exists>r. e = TamperError r"
  by (auto simp: parse_frame_def Let_def split: if_splits)

lemma chain_start_for_Inr:
  assumes "chain_start_for c ch = Inr s"
  shows "s \<le> c" and "s \<in> set (keys (recv_chains ch))" and "\<exists>rc. map_of (recv_chains ch) s = Some rc"
proof -
  let ?K = "{k \<in> set (keys (recv_chains ch)). k \<le> c}"
  have "?K \<noteq> {}" "s = Max ?K"
    using assms by (auto simp: chain_start_for_eq Let_def simp del: set_map split: if_splits)
  then have "s \<in> ?K"
    using Max_in [of ?K] by simp
  then show "s \<le> c" and s: "s \<in> set (keys (recv_chains ch))" by auto
  from s show "\<exists>rc. map_of (recv_chains ch) s = Some rc"
    by (metis map_of_eq_None_iff not_None_eq set_map)
qed

text \<open>
  What a rejected frame may change: the audit log, and the position and cache of one
  receiving chain. The number and the starting counters of the chains stay.
\<close>

definition only_caches_differ :: "channel \<Rightarrow> channel \<Rightarrow> bool" where
  "only_caches_differ ch ch' \<longleftrightarrow>
     ch' = ch\<lparr>audit := audit ch', recv_chains := recv_chains ch'\<rparr> \<and>
     keys (recv_chains ch') = keys (recv_chains ch)"

lemma only_caches_differ_log [intro]: "ch' = ch\<lparr>audit := lg\<rparr> \<Longrightarrow> only_caches_differ ch ch'"
  by (cases ch) (simp add: only_caches_differ_def)

lemma decrypt_Inl_cases:
  assumes "decrypt L f ch = (Inl e, ch')"
  obtains (untouched) lg where "ch' = ch\<lparr>audit := lg\<rparr>"
  | (advanced) lg np c aad ct s rc where "parse_frame f = Inr (np, c, aad, ct)" "passes_window c ch"
      "\<not> announces np ch" "chain_start_for c ch = Inr s" "map_of (recv_chains ch) s = Some rc"
      "ch' = ch\<lparr>audit := lg, recv_chains := AList.update s (snd (key_for (c - s) rc)) (recv_chains ch)\<rparr>"
proof (cases "parse_frame f")
  case (Inl a)
  with assms have "ch' = ch\<lparr>audit := audit ch\<rparr>" by (simp add: decrypt_unparsed)
  then show ?thesis by (rule untouched)
next
  case (Inr b)
  then obtain np c aad ct where parse: "parse_frame f = Inr (np, c, aad, ct)"
    by (cases b) auto
  show ?thesis
  proof (cases "passes_window c ch")
    case False
    with parse assms untouched show ?thesis using decrypt_stale [of f np c aad ct ch L] by auto
  next
    case True
    note d = decrypt_parsed [OF parse True, of L]
    show ?thesis
    proof (cases "announces np ch")
      case True
      have "ch' = ch\<lparr>audit := audit ch\<rparr> \<or> (\<exists>lg. ch' = ch\<lparr>audit := lg\<rparr>)"
        using assms d True authenticate_Inl by (fastforce split: sum.splits)
      with untouched show ?thesis by blast
    next
      case False
      show ?thesis
      proof (cases "chain_start_for c ch")
        case (Inl e')
        with assms d False have "ch' = ch\<lparr>audit := audit ch\<rparr>" by simp
        then show ?thesis by (rule untouched)
      next
        case (Inr s)
        then obtain rc where rc: "map_of (recv_chains ch) s = Some rc"
          using chain_start_for_Inr(3) by blast
        let ?rcs = "AList.update s (snd (key_for (c - s) rc)) (recv_chains ch)"
        have "authenticate_and_commit L (fst (key_for (c - s) rc)) c aad ct None
            (ch\<lparr>recv_chains := ?rcs\<rparr>) = (Inl e, ch')"
          using assms d False Inr rc by (simp add: Let_def)
        then obtain lg where "ch' = ch\<lparr>recv_chains := ?rcs, audit := lg\<rparr>"
          using authenticate_Inl by blast
        then have "ch' = ch\<lparr>audit := lg, recv_chains := ?rcs\<rparr>" by (cases ch) simp
        with parse True False Inr rc advanced show ?thesis by blast
      qed
    qed
  qed
qed

lemma decrypt_Inl_state:
  assumes "decrypt L f ch = (Inl e, ch')"
  shows "only_caches_differ ch ch'"
  using assms
proof (cases rule: decrypt_Inl_cases)
  case untouched
  then show ?thesis by blast
next
  case (advanced lg np c aad ct s rc)
  have "keys (recv_chains ch') = keys (recv_chains ch)"
    using chain_start_for_Inr(2) [OF advanced(4)] advanced(6) by (simp add: AList.update_keys)
  with advanced(6) show ?thesis
    by (cases ch) (simp add: only_caches_differ_def)
qed

lemma decrypt_announced_Inl_state:
  assumes "decrypt L f ch = (Inl e, ch')" and "parse_frame f = Inr (np, c, aad, ct)" and "announces np ch"
  shows "ch' = ch\<lparr>audit := audit ch'\<rparr>"
proof (cases "passes_window c ch")
  case False
  with assms show ?thesis
    using decrypt_stale [of f np c aad ct ch L] by (cases ch) auto
next
  case True
  note d = decrypt_parsed [OF assms(2) True, of L]
  have "ch' = ch\<lparr>audit := audit ch\<rparr> \<or> (\<exists>lg. ch' = ch\<lparr>audit := lg\<rparr>)"
    using assms d authenticate_Inl by (fastforce split: sum.splits)
  then show ?thesis by (cases ch) auto
qed

section \<open>The invariant of a channel\<close>

definition chains_ok :: "(nat, receiving_chain) dict \<Rightarrow> bool" where
  "chains_ok rcs \<longleftrightarrow> distinct (keys rcs) \<and> rcs \<noteq> [] \<and> length rcs \<le> MAX_RETAINED_CHAINS \<and>
     (\<forall>s rc. map_of rcs s = Some rc \<longrightarrow> (\<exists>ck. receives ck rc))"

definition channel_inv :: "nat set \<Rightarrow> channel \<Rightarrow> bool" where
  "channel_inv seen ch \<longleftrightarrow>
     window_repr seen ch \<and> chains_ok (recv_chains ch) \<and> (\<exists>ck. sends ck (send_chain ch)) \<and>
     int (messages_since_rekey ch) \<le> max 1 (rekey_interval ch)"

lemma new_channel_inv: "channel_inv {} (new_channel L sk rk r0 priv pub ps now)"
proof -
  have "window_repr {} (new_channel L sk rk r0 priv pub ps now)"
    by (simp add: window_repr_def new_channel_def mask_eq_exp_minus_1 push_bit_eq_mult)
  then show ?thesis
    by (auto simp: channel_inv_def chains_ok_def new_channel_def MAX_RETAINED_CHAINS_def
        intro: sends_new receives_new)
qed

lemma chains_ok_update_existing:
  assumes "chains_ok rcs" and "s \<in> set (keys rcs)" and "receives ck rc"
  shows "chains_ok (AList.update s rc rcs)"
proof -
  have "length (AList.update s rc rcs) = length rcs"
    using assms(2) AList.update_keys [of s rc rcs] by (metis length_map)
  with assms show ?thesis
    by (auto simp: chains_ok_def AList.distinct_update map_of_dict_update simp del: set_map)
qed

lemma chains_ok_commit:
  assumes "chains_ok rcs" and "receives ck rc"
  shows "chains_ok (evict_lowest MAX_RETAINED_CHAINS (AList.update s rc rcs))"
proof -
  let ?d = "AList.update s rc rcs" and ?e = "evict_lowest MAX_RETAINED_CHAINS (AList.update s rc rcs)"
  have d: "distinct (keys ?d)"
    using assms(1) by (simp add: chains_ok_def AList.distinct_update)
  have len: "length ?e = min MAX_RETAINED_CHAINS (length ?d)"
    using d by (rule length_evict_lowest)
  moreover have "0 < length ?d"
    by (rule length_greater_0_conv [THEN iffD2]) (rule AList.update_nonempty)
  ultimately have "0 < length ?e"
    by (simp only: MAX_RETAINED_CHAINS_def)
  then have "?e \<noteq> []"
    by (rule length_greater_0_conv [THEN iffD1])
  moreover have "\<exists>ck. receives ck r" if "map_of ?e k = Some r" for k r
    using evict_lowest_Some [OF that] assms
    by (auto simp: chains_ok_def map_of_dict_update split: if_splits)
  ultimately show ?thesis
    unfolding chains_ok_def using d len by (metis evict_lowest_distinct min.cobounded1)
qed

lemma window_repr_more:
  "window_size w = window_size w' \<Longrightarrow> window_mask w = window_mask w' \<Longrightarrow>
   highest_recv_counter w = highest_recv_counter w' \<Longrightarrow> recv_bitmap w = recv_bitmap w' \<Longrightarrow>
   window_repr S w = window_repr S w'"
  by (simp add: window_repr_def)

lemma mark_seen_channel [simp]:
  "recv_chains (mark_seen c ch) = recv_chains (ch :: channel)"
  "send_chain (mark_seen c ch) = send_chain ch" "root_key (mark_seen c ch) = root_key ch"
  "my_ratchet_priv (mark_seen c ch) = my_ratchet_priv ch" "my_ratchet_pub (mark_seen c ch) = my_ratchet_pub ch"
  "peer_ratchet_pub (mark_seen c ch) = peer_ratchet_pub ch" "rekey_interval (mark_seen c ch) = rekey_interval ch"
  "rekey_interval_seconds (mark_seen c ch) = rekey_interval_seconds ch"
  "messages_since_rekey (mark_seen c ch) = messages_since_rekey ch"
  "last_rekey_time (mark_seen c ch) = last_rekey_time ch" "pad_messages (mark_seen c ch) = pad_messages ch"
  "send_ratchet_owed (mark_seen c ch) = send_ratchet_owed ch" "send_counter (mark_seen c ch) = send_counter ch"
  by (simp_all add: mark_seen_def Let_def)

lemma commit_channel [simp]:
  "recv_chains (commit_receive_ratchet_step q c ch) =
     evict_lowest MAX_RETAINED_CHAINS (AList.update c (pr_chain q) (recv_chains ch))"
  "root_key (commit_receive_ratchet_step q c ch) = pr_root_key q"
  "peer_ratchet_pub (commit_receive_ratchet_step q c ch) = pr_peer_pub q"
  "send_ratchet_owed (commit_receive_ratchet_step q c ch) = True"
  "send_chain (commit_receive_ratchet_step q c ch) = send_chain ch"
  "my_ratchet_priv (commit_receive_ratchet_step q c ch) = my_ratchet_priv ch"
  "my_ratchet_pub (commit_receive_ratchet_step q c ch) = my_ratchet_pub ch"
  "rekey_interval (commit_receive_ratchet_step q c ch) = rekey_interval ch"
  "messages_since_rekey (commit_receive_ratchet_step q c ch) = messages_since_rekey ch"
  "pad_messages (commit_receive_ratchet_step q c ch) = pad_messages ch"
  "send_counter (commit_receive_ratchet_step q c ch) = send_counter ch"
  "window_size (commit_receive_ratchet_step q c ch) = window_size ch"
  "window_mask (commit_receive_ratchet_step q c ch) = window_mask ch"
  "highest_recv_counter (commit_receive_ratchet_step q c ch) = highest_recv_counter ch"
  "recv_bitmap (commit_receive_ratchet_step q c ch) = recv_bitmap ch"
  by (simp_all add: commit_receive_ratchet_step_def prune_old_recv_chains_def Let_def log_event_def)

lemma receives_new_ex: "\<exists>ck'. receives ck' (new_receiving_chain ck)"
  using receives_new by blast

lemma compute_receives:
  "compute_receive_ratchet_step L pub ch = Inr q \<Longrightarrow> \<exists>ck. receives ck (pr_chain q)"
  by (auto simp: compute_receive_ratchet_step_def bind_exn_Inr Let_def split_beta receives_new_ex)

text \<open>An accepted frame carries a counter that was not accepted before, and records it.\<close>

lemma decrypt_Inr:
  assumes inv: "channel_inv seen ch" and dec: "decrypt L f ch = (Inr p, ch')"
  obtains np c aad ct where "parse_frame f = Inr (np, c, aad, ct)" "passes_window c ch" "c \<notin> seen"
    "channel_inv (insert c seen) ch'"
proof (cases "parse_frame f")
  case (Inl e)
  with dec show ?thesis by (simp add: decrypt_unparsed)
next
  case (Inr b)
  then obtain np c aad ct where parse: "parse_frame f = Inr (np, c, aad, ct)" by (cases b) auto
  have passes: "passes_window c ch"
  proof (rule ccontr)
    assume "\<not> passes_window c ch"
    from decrypt_stale [OF parse this, of L] dec show False by auto
  qed
  have repr: "window_repr seen ch" and ok: "chains_ok (recv_chains ch)"
    using inv by (auto simp: channel_inv_def)
  have marked: "channel_inv (insert c seen) (mark_seen c ch1)"
    if "chains_ok (recv_chains ch1)" and "send_chain ch1 = send_chain ch"
      and "messages_since_rekey ch1 = messages_since_rekey ch" and "rekey_interval ch1 = rekey_interval ch"
      and w: "window_size ch1 = window_size ch" "window_mask ch1 = window_mask ch"
        "highest_recv_counter ch1 = highest_recv_counter ch" "recv_bitmap ch1 = recv_bitmap ch" for ch1
  proof -
    have "window_repr seen ch1"
      using repr window_repr_more [OF w] by simp
    moreover have "passes_window c ch1"
      using passes w by (auto simp: passes_window_def check_freshness_def Let_def split: if_splits)
    ultimately have "window_repr (insert c seen) (mark_seen c ch1)"
      by (rule rw.record_repr)
    with that inv show ?thesis by (simp add: channel_inv_def)
  qed
  have "channel_inv (insert c seen) ch'"
  proof (cases "announces np ch")
    case True
    with dec decrypt_parsed [OF parse passes, of L] obtain q where
      q: "compute_receive_ratchet_step L (the np) ch = Inr q" and
      a: "authenticate_and_commit L (fst (key_for 0 (pr_chain q))) c aad ct
            (Some (q\<lparr>pr_chain := snd (key_for 0 (pr_chain q))\<rparr>)) ch = (Inr p, ch')"
      by (auto split: sum.splits)
    obtain ck where "receives ck (snd (key_for 0 (pr_chain q)))"
      using compute_receives [OF q] receives_key_for by blast
    with ok have "chains_ok (evict_lowest MAX_RETAINED_CHAINS
        (AList.update c (snd (key_for 0 (pr_chain q))) (recv_chains ch)))"
      by (rule chains_ok_commit)
    then show ?thesis
      using a by (elim authenticate_Inr) (auto intro!: marked)
  next
    case False
    with dec decrypt_parsed [OF parse passes, of L] obtain s where
      s: "chain_start_for c ch = Inr s" and
      a: "authenticate_and_commit L (fst (key_for (c - s) (the (map_of (recv_chains ch) s)))) c aad ct None
            (ch\<lparr>recv_chains := AList.update s (snd (key_for (c - s) (the (map_of (recv_chains ch) s))))
               (recv_chains ch)\<rparr>) = (Inr p, ch')"
      by (auto simp: Let_def split: sum.splits)
    obtain rc where rc: "map_of (recv_chains ch) s = Some rc"
      using chain_start_for_Inr(3) [OF s] by blast
    with ok obtain ck where "receives ck (snd (key_for (c - s) rc))"
      unfolding chains_ok_def using receives_key_for by blast
    with ok chain_start_for_Inr(2) [OF s] rc
    have "chains_ok (AList.update s (snd (key_for (c - s) (the (map_of (recv_chains ch) s)))) (recv_chains ch))"
      by (simp add: chains_ok_update_existing del: set_map)
    then show ?thesis
      using a by (elim authenticate_Inr) (auto intro!: marked)
  qed
  with parse passes rw.passes_new [OF repr passes] that show ?thesis by blast
qed

section \<open>What \<open>encrypt\<close> does to the channel\<close>

lemma encrypt_with_header_eq:
  "encrypt_with_header L header p ch =
     (seal_frame L (snd (fst (next_key (send_chain ch)))) (send_counter ch) header (pad_messages ch) p,
      ch\<lparr>send_counter := send_counter ch + 1, messages_since_rekey := messages_since_rekey ch + 1,
         send_chain := snd (next_key (send_chain ch))\<rparr>)"
  by (simp add: encrypt_with_header_def split_beta Let_def)

definition send_dh :: "cryptolib \<Rightarrow> send_env \<Rightarrow> channel \<Rightarrow> exn + bytes" where
  "send_dh L env ch =
     bind_exn (x25519_public_from_bytes L (peer_ratchet_pub ch)) (derive_shared_secret L (fresh_priv env))"

lemma perform_send_Inl:
  "send_dh L env ch = Inl e \<Longrightarrow> perform_send_ratchet_step L env why t ch = (Inl e, ch)"
  by (simp add: perform_send_ratchet_step_def send_dh_def generate_x25519_keypair_def)

lemma perform_send_Inr:
  assumes "send_dh L env ch = Inr dh"
  shows "\<exists>lg. perform_send_ratchet_step L env why t ch =
    (Inr (), ch\<lparr>audit := lg, root_key := fst (dh_ratchet_step L (root_key ch) dh),
       send_chain := new_sending_chain (snd (dh_ratchet_step L (root_key ch) dh)),
       my_ratchet_priv := fresh_priv env, my_ratchet_pub := x_public L (fresh_priv env),
       messages_since_rekey := 0, last_rekey_time := clock_rekey env, send_ratchet_owed := False\<rparr>)"
  using assms
  by (cases ch) (auto simp: perform_send_ratchet_step_def send_dh_def generate_x25519_keypair_def
      split_beta log_event_channel)

text \<open>The three ways \<open>encrypt\<close> can go: no rekey, a rekey, a rekey that raises.\<close>

lemma encrypt_cases:
  obtains (plain) "\<not> rekey_due env ch" "encrypt L env p ch = encrypt_with_header L [FLAG_NO_REKEY] p ch"
  | (rekey) dh lg where "rekey_due env ch" "send_dh L env ch = Inr dh"
      "encrypt L env p ch = encrypt_with_header L (FLAG_REKEY # x_public L (fresh_priv env)) p
        (ch\<lparr>audit := lg, root_key := fst (dh_ratchet_step L (root_key ch) dh),
           send_chain := new_sending_chain (snd (dh_ratchet_step L (root_key ch) dh)),
           my_ratchet_priv := fresh_priv env, my_ratchet_pub := x_public L (fresh_priv env),
           messages_since_rekey := 0, last_rekey_time := clock_rekey env, send_ratchet_owed := False\<rparr>)"
  | (refused) e where "rekey_due env ch" "send_dh L env ch = Inl e" "encrypt L env p ch = (Inl e, ch)"
proof (cases "rekey_due env ch")
  case False
  with plain show ?thesis by (simp add: encrypt_def)
next
  case True
  show ?thesis
  proof (cases "send_dh L env ch")
    case (Inl e)
    with True refused show ?thesis by (simp add: encrypt_def perform_send_Inl)
  next
    case (Inr dh)
    obtain lg where "perform_send_ratchet_step L env (rekey_reason ch)
        (clock_start env - last_rekey_time ch) ch =
      (Inr (), ch\<lparr>audit := lg, root_key := fst (dh_ratchet_step L (root_key ch) dh),
       send_chain := new_sending_chain (snd (dh_ratchet_step L (root_key ch) dh)),
       my_ratchet_priv := fresh_priv env, my_ratchet_pub := x_public L (fresh_priv env),
       messages_since_rekey := 0, last_rekey_time := clock_rekey env, send_ratchet_owed := False\<rparr>)"
      using perform_send_Inr [OF Inr] by blast
    with True Inr rekey show ?thesis by (simp add: encrypt_def)
  qed
qed

lemma sends_next: "\<exists>ck. sends ck sc \<Longrightarrow> \<exists>ck. sends ck (snd (next_key sc))"
  using next_key_keeps_sends by blast

lemma encrypt_inv:
  assumes "channel_inv seen ch"
  shows "channel_inv seen (snd (encrypt L env p ch))"
proof (cases rule: encrypt_cases [of env ch L p])
  case plain
  then have "int (messages_since_rekey ch) < rekey_interval ch"
    by (simp add: rekey_due_def count_due_def)
  with plain assms show ?thesis
    by (auto simp: channel_inv_def encrypt_with_header_eq sends_next window_repr_def)
next
  case (rekey dh lg)
  then show ?thesis
    using assms sends_next [OF exI, OF sends_new]
    by (auto simp: channel_inv_def encrypt_with_header_eq window_repr_def)
next
  case refused
  with assms show ?thesis by simp
qed

lemma encrypt_counter:
  assumes "dh_laws L" and "encrypt L env p ch = (r, ch')"
  shows "send_counter ch \<le> send_counter ch'"
    and "r = Inr f \<Longrightarrow> send_counter ch' = send_counter ch + 1 \<and>
      (\<exists>np aad ct. parse_frame f = Inr (np, send_counter ch, aad, ct) \<and> (np \<noteq> None \<longleftrightarrow> rekey_due env ch))"
proof -
  have sealed: "parse_frame f = Inr (np, c, frame_header np c, ct)"
    if "seal_frame L k c (case np of None \<Rightarrow> [FLAG_NO_REKEY] | Some pub \<Rightarrow> FLAG_REKEY # pub) b p = Inr f"
      and "f = frame_header np c @ ct" and "\<And>q. np = Some q \<Longrightarrow> length q = 32" for k c np b ct
    using that parse_frame_of_header seal_frame_Inr(1) by blast
  have ct: "\<exists>ct. f = frame_header np c @ ct"
    if "seal_frame L k c (case np of None \<Rightarrow> [FLAG_NO_REKEY] | Some pub \<Rightarrow> FLAG_REKEY # pub) b p = Inr f"
    for k c np b
    using seal_frame_Inr(2) [OF that] by (auto simp: frame_header_def)
  have "send_counter ch \<le> send_counter ch' \<and>
      (r = Inr f \<longrightarrow> send_counter ch' = send_counter ch + 1 \<and>
        (\<exists>np aad ct. parse_frame f = Inr (np, send_counter ch, aad, ct) \<and> (np \<noteq> None \<longleftrightarrow> rekey_due env ch)))"
  proof (cases rule: encrypt_cases [of env ch L p])
    case plain
    with assms(2) sealed [where np = None] ct [where np = None] show ?thesis
      by (fastforce simp: encrypt_with_header_eq)
  next
    case (rekey dh lg)
    have "length (x_public L (fresh_priv env)) = 32"
      using assms(1) by (simp add: dh_laws_def)
    with rekey assms(2) sealed [where np = "Some (x_public L (fresh_priv env))"]
      ct [where np = "Some (x_public L (fresh_priv env))"] show ?thesis
      by (fastforce simp: encrypt_with_header_eq)
  next
    case refused
    with assms(2) show ?thesis by auto
  qed
  then show "send_counter ch \<le> send_counter ch'"
    and "r = Inr f \<Longrightarrow> send_counter ch' = send_counter ch + 1 \<and>
      (\<exists>np aad ct. parse_frame f = Inr (np, send_counter ch, aad, ct) \<and> (np \<noteq> None \<longleftrightarrow> rekey_due env ch))"
    by auto
qed

section \<open>Sequences of calls\<close>

datatype call = Encrypt send_env bytes | Decrypt bytes

fun perform :: "cryptolib \<Rightarrow> call \<Rightarrow> channel \<Rightarrow> (exn + bytes) \<times> channel" where
  "perform L (Encrypt env p) ch = encrypt L env p ch"
| "perform L (Decrypt f) ch = decrypt L f ch"

fun run_calls :: "cryptolib \<Rightarrow> call list \<Rightarrow> channel \<Rightarrow> (call \<times> (exn + bytes)) list \<times> channel" where
  "run_calls L [] ch = ([], ch)"
| "run_calls L (c # cs) ch =
     (let (r, ch') = perform L c ch; (rs, ch'') = run_calls L cs ch' in ((c, r) # rs, ch''))"

fun frame_counter :: "bytes \<Rightarrow> nat option" where
  "frame_counter f = (case parse_frame f of Inr (_, c, _, _) \<Rightarrow> Some c | Inl _ \<Rightarrow> None)"

text \<open>The counters of the frames accepted, and of the frames sent, in order.\<close>

fun accepted :: "(call \<times> (exn + bytes)) list \<Rightarrow> nat list" where
  "accepted [] = []"
| "accepted ((Decrypt f, Inr _) # rs) =
     (case frame_counter f of Some c \<Rightarrow> c # accepted rs | None \<Rightarrow> accepted rs)"
| "accepted (_ # rs) = accepted rs"

fun emitted :: "(call \<times> (exn + bytes)) list \<Rightarrow> nat list" where
  "emitted [] = []"
| "emitted ((Encrypt _ _, Inr f) # rs) =
     (case frame_counter f of Some c \<Rightarrow> c # emitted rs | None \<Rightarrow> emitted rs)"
| "emitted (_ # rs) = emitted rs"

lemma decrypt_Inl_inv:
  assumes inv: "channel_inv seen ch" and "decrypt L f ch = (Inl e, ch')"
  shows "channel_inv seen ch'"
  using assms(2)
proof (cases rule: decrypt_Inl_cases)
  case untouched
  with inv show ?thesis by (simp add: channel_inv_def)
next
  case (advanced lg np c aad ct s rc)
  have ok: "chains_ok (recv_chains ch)"
    using inv by (simp add: channel_inv_def)
  then obtain ck where "receives ck (snd (key_for (c - s) rc))"
    using advanced(5) receives_key_for unfolding chains_ok_def by blast
  with ok chain_start_for_Inr(2) [OF advanced(4)]
  have "chains_ok (AList.update s (snd (key_for (c - s) rc)) (recv_chains ch))"
    by (rule chains_ok_update_existing)
  with inv advanced(6) show ?thesis
    by (simp add: channel_inv_def window_repr_def)
qed

lemma run_calls_inv:
  "channel_inv seen ch \<Longrightarrow>
     \<exists>seen'. channel_inv seen' (snd (run_calls L cs ch)) \<and>
       seen' = seen \<union> set (accepted (fst (run_calls L cs ch))) \<and>
       distinct (accepted (fst (run_calls L cs ch))) \<and>
       seen \<inter> set (accepted (fst (run_calls L cs ch))) = {}"
proof (induction cs arbitrary: seen ch)
  case Nil
  then show ?case by auto
next
  case (Cons call cs)
  obtain r ch' where step: "perform L call ch = (r, ch')" by (cases "perform L call ch")
  have run: "run_calls L (call # cs) ch =
      ((call, r) # fst (run_calls L cs ch'), snd (run_calls L cs ch'))"
    using step by (simp add: split_beta)
  show ?case
  proof (cases "\<exists>f p. call = Decrypt f \<and> r = Inr p")
    case True
    then obtain f p where f: "call = Decrypt f" "r = Inr p" by blast
    with step have "decrypt L f ch = (Inr p, ch')" by simp
    with Cons.prems obtain np c aad ct where
      "parse_frame f = Inr (np, c, aad, ct)" "c \<notin> seen" "channel_inv (insert c seen) ch'"
      by (rule decrypt_Inr)
    with Cons.IH [of "insert c seen" ch'] f run show ?thesis by auto
  next
    case False
    then have "accepted ((call, r) # rs) = accepted rs" for rs
      by (cases call; cases r) auto
    moreover have "channel_inv seen ch'"
    proof (cases call)
      case (Encrypt env p)
      with step encrypt_inv [OF Cons.prems, of L env p] show ?thesis by simp
    next
      case (Decrypt f)
      with False step decrypt_Inl_inv [OF Cons.prems] show ?thesis by (cases r) auto
    qed
    ultimately show ?thesis
      using Cons.IH [of seen ch'] run by simp
  qed
qed

lemma decrypt_send_counter: "send_counter (snd (decrypt L f ch)) = send_counter ch"
proof (cases "decrypt L f ch")
  case (Pair r ch')
  show ?thesis
  proof (cases r)
    case (Inl e)
    with Pair decrypt_Inl_state [of L f ch e ch'] show ?thesis
      by (auto simp: only_caches_differ_def dest: arg_cong [where f = send_counter])
  next
    case (Inr p)
    then show ?thesis
      using Pair unfolding decrypt_def
      by (auto split: sum.splits prod.splits if_splits elim!: authenticate_Inr
          dest!: check_freshness_state simp: Let_def)
  qed
qed

lemma run_calls_emitted:
  assumes "dh_laws L"
  shows "sorted_wrt (<) (emitted (fst (run_calls L cs ch))) \<and>
     (\<forall>c \<in> set (emitted (fst (run_calls L cs ch))). send_counter ch \<le> c)"
proof (induction cs arbitrary: ch)
  case Nil
  then show ?case by simp
next
  case (Cons call cs)
  obtain r ch' where step: "perform L call ch = (r, ch')" by (cases "perform L call ch")
  have run: "fst (run_calls L (call # cs) ch) = (call, r) # fst (run_calls L cs ch')"
    using step by (simp add: split_beta)
  have IH: "sorted_wrt (<) (emitted (fst (run_calls L cs ch')))"
    "\<forall>c \<in> set (emitted (fst (run_calls L cs ch'))). send_counter ch' \<le> c"
    using Cons.IH [of ch'] by auto
  show ?case
  proof (cases "\<exists>env p f. call = Encrypt env p \<and> r = Inr f")
    case True
    then obtain env p f where e: "call = Encrypt env p" "r = Inr f" by blast
    with step have "encrypt L env p ch = (Inr f, ch')" by simp
    with encrypt_counter(2) [OF assms this, of f]
    have "send_counter ch' = send_counter ch + 1" "frame_counter f = Some (send_counter ch)"
      by auto
    with e IH run show ?thesis by fastforce
  next
    case False
    then have "emitted ((call, r) # rs) = emitted rs" for rs
      by (cases call; cases r) auto
    moreover have "send_counter ch \<le> send_counter ch'"
    proof (cases call)
      case (Encrypt env p)
      with step encrypt_counter(1) [OF assms] show ?thesis by simp
    next
      case (Decrypt f)
      with step decrypt_send_counter [of L f ch] show ?thesis by simp
    qed
    ultimately show ?thesis
      using IH run by fastforce
  qed
qed

lemma chain_receives:
  assumes "channel_inv seen ch" and "map_of (recv_chains ch) s = Some rc"
  shows "\<exists>ck. receives ck rc"
  using assms unfolding channel_inv_def chains_ok_def by blast

lemma open_exn:
  "bind_exn (counter_to_nonce c) (\<lambda>nonce. aes_gcm_decrypt L mk nonce ct aad) = Inl e \<Longrightarrow>
     e \<in> {OverflowError, ValueError, InvalidTag, InvalidSignature}"
proof (cases "counter_to_nonce c")
  case (Inl x)
  moreover assume "bind_exn (counter_to_nonce c) (\<lambda>nonce. aes_gcm_decrypt L mk nonce ct aad) = Inl e"
  ultimately show ?thesis by (simp add: counter_to_nonce_def to_bytes_def split: if_splits)
next
  case (Inr nonce)
  moreover assume "bind_exn (counter_to_nonce c) (\<lambda>nonce. aes_gcm_decrypt L mk nonce ct aad) = Inl e"
  ultimately obtain x where "e = raise_lib x"
    by (cases "gcm_decrypt L mk nonce ct aad") (auto simp: aes_gcm_decrypt_def)
  then show ?thesis by (cases x) auto
qed

lemma unpad_exn: "unpad x = Inl e \<Longrightarrow> \<exists>r. e = PaddingError r"
  by (auto simp: unpad_def Let_def split: if_splits)

section \<open>What an accepted frame is\<close>

text \<open>The key \<open>decrypt\<close> takes for a header, by the channel's state.\<close>

definition expected_key :: "cryptolib \<Rightarrow> channel \<Rightarrow> bytes option \<Rightarrow> nat \<Rightarrow> exn + bytes" where
  "expected_key L ch np c =
     (if announces np ch
      then bind_exn (compute_receive_ratchet_step L (the np) ch) (\<lambda>q. fst (key_for 0 (pr_chain q)))
      else bind_exn (chain_start_for c ch)
             (\<lambda>s. fst (key_for (c - s) (the (map_of (recv_chains ch) s)))))"

lemma decrypt_accepts:
  assumes "decrypt L f ch = (Inr p, ch')"
  obtains np c ct mk nonce payload where
    "f = frame_header np c @ ct" "c < 256 ^ 8" "passes_window c ch"
    "expected_key L ch np c = Inr mk" "counter_to_nonce c = Inr nonce"
    "aes_gcm_decrypt L mk nonce ct (frame_header np c) = Inr payload"
    "(if pad_messages ch then unpad payload else Inr payload) = Inr p"
proof (cases "parse_frame f")
  case (Inl e)
  with assms show ?thesis by (simp add: decrypt_unparsed)
next
  case (Inr b)
  then obtain np c aad ct where parse: "parse_frame f = Inr (np, c, aad, ct)" by (cases b) auto
  have passes: "passes_window c ch"
  proof (rule ccontr)
    assume "\<not> passes_window c ch"
    from decrypt_stale [OF parse this, of L] assms show False by auto
  qed
  note d = decrypt_parsed [OF parse passes, of L]
  obtain key pend ch1 where a: "authenticate_and_commit L key c aad ct pend ch1 = (Inr p, ch')"
    and key: "key = expected_key L ch np c" and pm: "pad_messages ch1 = pad_messages ch"
  proof (cases "announces np ch")
    case True
    with assms d that show ?thesis by (auto simp: expected_key_def split: sum.splits)
  next
    case False
    with assms d that show ?thesis by (auto simp: expected_key_def Let_def split: sum.splits)
  qed
  from a obtain mk nonce payload where k: "key = Inr mk" and rest: "counter_to_nonce c = Inr nonce"
    "aes_gcm_decrypt L mk nonce ct aad = Inr payload"
    "(if pad_messages ch1 then unpad payload else Inr payload) = Inr p"
    by (rule authenticate_Inr)
  from k key have "expected_key L ch np c = Inr mk" by simp
  with that [of np c ct mk nonce payload] parse_frame_Inr [OF parse] passes pm rest
  show ?thesis by simp
qed

lemma expected_key_length:
  assumes "channel_inv seen ch" and "expected_key L ch np c = Inr mk"
  shows "length mk = 32"
proof -
  obtain rc ck n where "receives ck rc" "fst (key_for n rc) = Inr mk"
  proof (cases "announces np ch")
    case True
    with assms(2) that show ?thesis
      by (auto simp: expected_key_def bind_exn_Inr dest: compute_receives)
  next
    case False
    with assms(2) obtain s where s: "chain_start_for c ch = Inr s"
      "fst (key_for (c - s) (the (map_of (recv_chains ch) s))) = Inr mk"
      by (auto simp: expected_key_def bind_exn_Inr)
    then obtain rc where "map_of (recv_chains ch) s = Some rc"
      using chain_start_for_Inr(3) by blast
    moreover from this assms(1) obtain ck where "receives ck rc"
      using chain_receives by blast
    ultimately show ?thesis using s that by simp
  qed
  then show ?thesis
    using key_for_result [of ck rc n] length_message_key [of ck n] by (auto split: if_splits)
qed

section \<open>A forged frame and the counter it names\<close>

lemma authenticate_tag_mismatch:
  assumes "authenticate_and_commit L (Inr mk) c aad ct pend ch = (Inl (TamperError Tag_Mismatch), ch')"
  shows "ch' = log_event (Event TAMPER_DETECTED [(''counter'', CInt (int c))]) ch"
proof (cases "bind_exn (counter_to_nonce c) (\<lambda>nonce. aes_gcm_decrypt L mk nonce ct aad)")
  case (Inl e)
  with assms open_exn [OF Inl] show ?thesis
    by (auto simp: authenticate_and_commit_def Let_def)
next
  case (Inr payload)
  with assms unpad_exn [of payload] show ?thesis
    by (auto simp: authenticate_and_commit_def Let_def split: sum.splits if_splits)
qed

lemma passes_window_same:
  "highest_recv_counter w = highest_recv_counter w' \<Longrightarrow> window_size w = window_size w' \<Longrightarrow>
   recv_bitmap w = recv_bitmap w' \<Longrightarrow> passes_window c w = passes_window c w'"
  by (simp add: passes_window_def check_freshness_def Let_def)

lemma forged_tag_advances:
  assumes inv: "channel_inv seen ch" and parse: "parse_frame f = Inr (np, c, aad, ct)"
    and old: "\<not> announces np ch"
    and forged: "decrypt L f ch = (Inl (TamperError Tag_Mismatch), ch')"
  obtains s rc k rc' lg where "chain_start_for c ch = Inr s" "map_of (recv_chains ch) s = Some rc"
    "key_for (c - s) rc = (Inr k, rc')"
    "ch' = ch\<lparr>audit := lg, recv_chains := AList.update s rc' (recv_chains ch)\<rparr>"
    "\<exists>ck. receives ck rc" "passes_window c ch"
proof -
  have passes: "passes_window c ch"
  proof (rule ccontr)
    assume "\<not> passes_window c ch"
    from decrypt_stale [OF parse this, of L] forged show False by auto
  qed
  note d = decrypt_parsed [OF parse passes, of L]
  obtain s where s: "chain_start_for c ch = Inr s"
    using forged d old by (cases "chain_start_for c ch") (auto simp: chain_start_for_eq Let_def split: if_splits)
  obtain rc where rc: "map_of (recv_chains ch) s = Some rc"
    using chain_start_for_Inr(3) [OF s] by blast
  then obtain ck where ck: "receives ck rc"
    using inv chain_receives by blast
  obtain x rc' where kf: "key_for (c - s) rc = (x, rc')" by (cases "key_for (c - s) rc")
  have a: "authenticate_and_commit L x c aad ct None
      (ch\<lparr>recv_chains := AList.update s rc' (recv_chains ch)\<rparr>) = (Inl (TamperError Tag_Mismatch), ch')"
    using forged d old s rc kf by (simp add: Let_def)
  obtain k where k: "x = Inr k"
  proof (cases x)
    case (Inl e)
    with kf key_for_result [OF ck, of "c - s"] have "\<exists>r. e = ChainDesync r"
      by (auto split: if_splits)
    with a Inl show ?thesis by (auto simp: authenticate_and_commit_def Let_def)
  qed
  with authenticate_tag_mismatch a have
    "ch' = log_event (Event TAMPER_DETECTED [(''counter'', CInt (int c))])
       (ch\<lparr>recv_chains := AList.update s rc' (recv_chains ch)\<rparr>)" by blast
  then have "\<exists>lg. ch' = ch\<lparr>audit := lg, recv_chains := AList.update s rc' (recv_chains ch)\<rparr>"
    by (cases ch) (auto simp: log_event_channel)
  with s rc kf k ck passes that show ?thesis by blast
qed

lemma chain_start_for_keys:
  "set (keys (recv_chains ch)) = set (keys (recv_chains ch')) \<Longrightarrow> chain_start_for c ch = chain_start_for c ch'"
  by (simp add: chain_start_for_eq del: set_map)

lemma burnt_counter:
  assumes inv: "channel_inv seen ch" and parse: "parse_frame f = Inr (np, c, aad, ct)"
    and old: "\<not> announces np ch"
    and forged: "decrypt L f ch = (Inl (TamperError Tag_Mismatch), ch')"
    and genuine: "parse_frame g = Inr (np', c, aad', ct')" "\<not> announces np' ch"
  shows "\<exists>n lg. decrypt L g ch' = (Inl (TamperError (Desync (Already_Passed n))), ch'\<lparr>audit := lg\<rparr>)"
proof -
  obtain s rc k rc' lg ck where s: "chain_start_for c ch = Inr s" and rc: "map_of (recv_chains ch) s = Some rc"
    and kf: "key_for (c - s) rc = (Inr k, rc')" and passes: "passes_window c ch" and ck: "receives ck rc"
    and ch': "ch' = ch\<lparr>audit := lg, recv_chains := AList.update s rc' (recv_chains ch)\<rparr>"
    by (rule forged_tag_advances [OF inv parse old forged]) blast
  have "set (keys (recv_chains ch')) = set (keys (recv_chains ch))"
    using chain_start_for_Inr(2) [OF s] by (auto simp: ch' set_keys_update simp del: set_map)
  then have s': "chain_start_for c ch' = Inr s"
    using s chain_start_for_keys by metis
  have "passes_window c ch'"
    using passes passes_window_same [of ch' ch c] by (simp add: ch')
  moreover have "\<not> announces np' ch'"
    using genuine(2) by (simp add: ch' announces_def)
  moreover have "map_of (recv_chains ch') s = Some rc'"
    by (simp add: ch' map_of_dict_update)
  moreover have "AList.update s rc' (recv_chains ch') = recv_chains ch'"
    by (simp add: ch')
  moreover have "key_for (c - s) rc' = (Inl (ChainDesync (Already_Passed (c - s))), rc')"
    using key_for_again [OF ck kf] .
  ultimately have "decrypt L g ch' =
      authenticate_and_commit L (Inl (ChainDesync (Already_Passed (c - s)))) c aad' ct' None
        (ch'\<lparr>recv_chains := recv_chains ch'\<rparr>)"
    using decrypt_parsed [OF genuine(1), of ch' L] s' by (simp add: Let_def del: channel.surjective)
  then show ?thesis
    by (simp add: authenticate_and_commit_def Let_def log_event_channel) blast
qed

section \<open>The exceptions that come out\<close>

definition rejecting :: "exn \<Rightarrow> bool" where
  "rejecting e \<longleftrightarrow> (\<exists>r. e = ReplayError r) \<or> (\<exists>r. e = TamperError r)"

lemma authenticate_exn:
  assumes a: "authenticate_and_commit L key c aad ct pend ch = (Inl e, ch')"
    and key: "\<And>e'. key = Inl e' \<Longrightarrow> \<exists>r. e' = ChainDesync r" "\<And>mk. key = Inr mk \<Longrightarrow> length mk = 32"
    and c: "c < 256 ^ 8" and errs: "lib_errors L" and small: "length ct < gcm_limit" "length aad < gcm_limit"
  shows "rejecting e"
proof (cases key)
  case (Inl e')
  with a key(1) show ?thesis by (auto simp: authenticate_and_commit_def Let_def rejecting_def)
next
  case (Inr mk)
  obtain nonce where n: "counter_to_nonce c = Inr nonce" "length nonce = NONCE_SIZE"
    using counter_to_nonce_Inr [OF c] by blast
  have "e' = InvalidTag" if d: "aes_gcm_decrypt L mk nonce ct aad = Inl e'" for e'
  proof -
    from d obtain x where x: "gcm_decrypt L mk nonce ct aad = Inl x" "e' = raise_lib x"
      by (cases "gcm_decrypt L mk nonce ct aad") (auto simp: aes_gcm_decrypt_def)
    then have "x = Lib_InvalidTag"
      using errs key(2) [OF Inr] n(2) small unfolding lib_errors_def by blast
    with x show ?thesis by simp
  qed
  with a Inr n(1) show ?thesis
    by (auto simp: authenticate_and_commit_def Let_def rejecting_def split: sum.splits if_splits
        dest!: unpad_exn)
qed

text \<open>The two ways a \<open>ValueError\<close> escapes: a key no exchange accepts, a counter no chain covers.\<close>

definition refused_key :: "cryptolib \<Rightarrow> channel \<Rightarrow> bytes \<Rightarrow> bool" where
  "refused_key L ch pub \<longleftrightarrow> (\<exists>e. x_exchange L (my_ratchet_priv ch) pub = Inl e)"

definition uncovered :: "channel \<Rightarrow> nat \<Rightarrow> bool" where
  "uncovered ch c \<longleftrightarrow> (\<forall>k \<in> set (keys (recv_chains ch)). c < k)"

lemma chain_start_for_Inl: "chain_start_for c ch = Inl e \<longleftrightarrow> e = ValueError \<and> uncovered ch c"
  by (auto simp: chain_start_for_eq uncovered_def Let_def not_le simp del: set_map)

lemma x_load_32: "dh_laws L \<Longrightarrow> length pub = 32 \<Longrightarrow> x25519_public_from_bytes L pub = Inr pub"
  by (simp add: x25519_public_from_bytes_def dh_laws_def)

lemma compute_Inl:
  assumes "dh_laws L" and "lib_errors L" and "length pub = 32"
    and "compute_receive_ratchet_step L pub ch = Inl e"
  shows "e = ValueError \<and> refused_key L ch pub"
proof -
  obtain x where "x_exchange L (my_ratchet_priv ch) pub = Inl x" "e = raise_lib x"
    using assms(4) x_load_32 [OF assms(1,3)]
    by (cases "x_exchange L (my_ratchet_priv ch) pub")
      (auto simp: compute_receive_ratchet_step_def bind_exn_Inl derive_shared_secret_def Let_def split_beta)
  moreover from this(1) have "x = Lib_ValueError"
    using assms(2) unfolding lib_errors_def by blast
  ultimately show ?thesis by (auto simp: refused_key_def)
qed

lemma key_for_desync: "receives ck rc \<Longrightarrow> fst (key_for n rc) = Inl e \<Longrightarrow> \<exists>r. e = ChainDesync r"
  by (auto simp: key_for_result split: if_splits)

lemma key_for_length: "receives ck rc \<Longrightarrow> fst (key_for n rc) = Inr k \<Longrightarrow> length k = 32"
  by (auto simp: key_for_result split: if_splits)

lemma decrypt_exn:
  assumes inv: "channel_inv seen ch" and laws: "dh_laws L" "lib_errors L" and small: "length f < gcm_limit"
    and dec: "decrypt L f ch = (Inl e, ch')"
  shows "rejecting e \<or> (e = ValueError \<and> (\<exists>np c aad ct. parse_frame f = Inr (np, c, aad, ct) \<and>
    (announces np ch \<and> refused_key L ch (the np) \<or> \<not> announces np ch \<and> uncovered ch c)))"
proof (cases "parse_frame f")
  case (Inl e')
  with dec parse_frame_exn show ?thesis by (fastforce simp: decrypt_unparsed rejecting_def)
next
  case (Inr b)
  then obtain np c aad ct where parse: "parse_frame f = Inr (np, c, aad, ct)" by (cases b) auto
  note pf = parse_frame_Inr [OF parse]
  have sizes: "length ct < gcm_limit" "length aad < gcm_limit"
    using small pf(3) by auto
  show ?thesis
  proof (cases "passes_window c ch")
    case False
    from decrypt_stale [OF parse this, of L] dec show ?thesis by (auto simp: rejecting_def)
  next
    case True
    note d = decrypt_parsed [OF parse True, of L]
    show ?thesis
    proof (cases "announces np ch")
      case an: True
      show ?thesis
      proof (cases "compute_receive_ratchet_step L (the np) ch")
        case (Inl e')
        have "length (the np) = 32"
          using an pf(4) by (auto simp: announces_def)
        with compute_Inl laws Inl d dec an parse show ?thesis by fastforce
      next
        case (Inr q)
        then obtain ck where ck: "receives ck (pr_chain q)"
          using compute_receives by blast
        have "rejecting e"
          by (rule authenticate_exn [where ch = ch and ch' = ch' and L = L and ct = ct and aad = aad and c = c])
            (use d dec an Inr key_for_desync [OF ck] key_for_length [OF ck] pf(1) laws(2) sizes in auto)
        then show ?thesis by simp
      qed
    next
      case old: False
      show ?thesis
      proof (cases "chain_start_for c ch")
        case (Inl e')
        with chain_start_for_Inl d dec old parse show ?thesis by fastforce
      next
        case (Inr s)
        then obtain rc ck where rc: "map_of (recv_chains ch) s = Some rc" and ck: "receives ck rc"
          using chain_start_for_Inr(3) chain_receives [OF inv] by blast
        have "rejecting e"
          by (rule authenticate_exn [where ch' = ch' and L = L and ct = ct and aad = aad and c = c
                and ch = "ch\<lparr>recv_chains := AList.update s (snd (key_for (c - s) rc)) (recv_chains ch)\<rparr>"])
            (use d dec old Inr rc key_for_desync [OF ck] key_for_length [OF ck] pf(1) laws(2) sizes
              in \<open>auto simp: Let_def\<close>)
        then show ?thesis by simp
      qed
    qed
  qed
qed

text \<open>Both do happen, on frames nobody has authenticated.\<close>

lemma decrypt_refused_key:
  assumes "dh_laws L" and "lib_errors L" and "length pub = 32" and "c < 256 ^ 8" and "passes_window c ch"
    and "pub \<noteq> peer_ratchet_pub ch" and "refused_key L ch pub"
  shows "decrypt L (frame_header (Some pub) c @ ct) ch = (Inl ValueError, ch)"
proof -
  obtain e where e: "x_exchange L (my_ratchet_priv ch) pub = Inl e"
    using assms(7) by (auto simp: refused_key_def)
  then have "e = Lib_ValueError"
    using assms(2) unfolding lib_errors_def by blast
  with e have "compute_receive_ratchet_step L pub ch = Inl ValueError"
    using x_load_32 [OF assms(1,3)] by (simp add: compute_receive_ratchet_step_def derive_shared_secret_def)
  moreover have "parse_frame (frame_header (Some pub) c @ ct) = Inr (Some pub, c, frame_header (Some pub) c, ct)"
    using assms(3,4) by (intro parse_frame_of_header) auto
  moreover have "announces (Some pub) ch"
    using assms(6) by (simp add: announces_def)
  ultimately show ?thesis
    using decrypt_parsed assms(5) by fastforce
qed

lemma decrypt_uncovered:
  assumes "c < 256 ^ 8" and "passes_window c ch" and "uncovered ch c"
  shows "decrypt L (frame_header None c @ ct) ch = (Inl ValueError, ch)"
proof -
  have "parse_frame (frame_header None c @ ct) = Inr (None, c, frame_header None c, ct)"
    using assms(1) by (intro parse_frame_of_header) auto
  moreover have "chain_start_for c ch = Inl ValueError"
    using assms(3) by (simp add: chain_start_for_Inl)
  moreover have "\<not> announces None ch"
    by (simp add: announces_def)
  ultimately show ?thesis
    using decrypt_parsed assms(2) by fastforce
qed

section \<open>The length of a frame\<close>

lemma seal_frame_length:
  assumes "aead_laws L" and "length k = 32" and "bucket_for (length p + 4) < gcm_limit"
    and "seal_frame L k c header True p = Inr f" and "length header \<le> 33"
  shows "length f = length header + 8 + bucket_for (length p + 4) + 16"
proof -
  obtain nonce payload ct where n: "counter_to_nonce c = Inr nonce" and pay: "pad p = Inr payload"
    and ct: "aes_gcm_encrypt L k nonce payload (header @ be_bytes 8 c) = Inr ct"
    and f: "f = header @ be_bytes 8 c @ ct" and c: "c < 256 ^ 8"
    using seal_frame_Inr [OF assms(4)] by auto
  have "length nonce = NONCE_SIZE"
    using counter_to_nonce_Inr [OF c] n by auto
  moreover have len: "length payload = bucket_for (length p + 4)"
    using pay by (rule length_of_pad)
  moreover have "length (header @ be_bytes 8 c) < gcm_limit"
    using assms(5) by (simp add: gcm_limit_def)
  ultimately obtain c' where "gcm_encrypt L k nonce payload (header @ be_bytes 8 c) = Inr c'"
    "length c' = length payload + 16"
    using assms(1,2,3) unfolding aead_laws_def by metis
  with ct f len show ?thesis by (simp add: aes_gcm_encrypt_def)
qed

lemma encrypt_length:
  assumes "dh_laws L" and "aead_laws L" and "channel_inv seen ch" and "pad_messages ch"
    and "bucket_for (length p + 4) < gcm_limit" and "encrypt L env p ch = (Inr f, ch')"
  shows "length f = (if rekey_due env ch then 41 else 9) + bucket_for (length p + 4) + 16"
proof (cases rule: encrypt_cases [of env ch L p])
  case plain
  obtain ck where "sends ck (send_chain ch)"
    using assms(3) by (auto simp: channel_inv_def)
  then have "length (snd (fst (next_key (send_chain ch)))) = 32"
    by (simp add: next_key_sends)
  from seal_frame_length [OF assms(2) this assms(5), of "send_counter ch" "[FLAG_NO_REKEY]" f] plain assms(4,6)
  show ?thesis by (simp add: encrypt_with_header_eq)
next
  case (rekey dh lg)
  let ?sc = "new_sending_chain (snd (dh_ratchet_step L (root_key ch) dh))"
  have "length (snd (fst (next_key ?sc))) = 32"
    using next_key_sends [OF sends_new] by simp
  moreover have "length (x_public L (fresh_priv env)) = 32"
    using assms(1) by (simp add: dh_laws_def)
  ultimately show ?thesis
    using seal_frame_length [OF assms(2) _ assms(5), of "snd (fst (next_key ?sc))" "send_counter ch"
        "FLAG_REKEY # x_public L (fresh_priv env)" f] rekey assms(4,6)
    by (simp add: encrypt_with_header_eq)
next
  case refused
  with assms(6) show ?thesis by simp
qed

end
