(* ===== verification/Channel_Session.thy ===== *)
theory Channel_Session
  imports Channel_Safety
begin

text \<open>
  Two channels at the two ends of a session: the relation that ties their root keys, ratchet
  keys, chains and counters together, that it holds after the handshake and is kept by every
  message delivered in either direction and by the loss of messages that announce no ratchet
  key, and that every message delivered is read back.
\<close>

section \<open>Two channels in step\<close>

text \<open>
  What \<open>a\<close> sends, \<open>b\<close> can read: \<open>b\<close> keeps the chain that \<open>a\<close> sends on, under the counter
  that chain started at, and is not ahead of it.
\<close>

definition shares_chain :: "channel \<Rightarrow> channel \<Rightarrow> bool" where
  "shares_chain b a \<longleftrightarrow>
     (\<exists>s ck rc. sends ck (send_chain a) \<and> send_counter a = s + sc_counter (send_chain a) \<and>
        map_of (recv_chains b) s = Some rc \<and> receives ck rc \<and> rc_next rc \<le> sc_counter (send_chain a) \<and>
        (\<forall>k \<in> set (keys (recv_chains b)). k \<le> s))"

definition follows :: "channel \<Rightarrow> channel \<Rightarrow> bool" where
  "follows b a \<longleftrightarrow> shares_chain b a \<and>
     sc_counter (send_chain a) = messages_since_rekey a \<and> rekey_interval a \<le> int MAX_SKIP + 1 \<and>
     distinct (keys (recv_chains b)) \<and> highest_recv_counter b < int (send_counter a)"

definition in_step :: "cryptolib \<Rightarrow> channel \<Rightarrow> channel \<Rightarrow> bool" where
  "in_step L a b \<longleftrightarrow> follows b a \<and> follows a b \<and> root_key a = root_key b \<and>
     pad_messages a = pad_messages b \<and>
     my_ratchet_pub a = x_public L (my_ratchet_priv a) \<and> my_ratchet_pub b = x_public L (my_ratchet_priv b) \<and>
     peer_ratchet_pub b = my_ratchet_pub a \<and> peer_ratchet_pub a = my_ratchet_pub b"

lemma in_step_sym: "in_step L a b = in_step L b a"
  by (auto simp: in_step_def)

lemma new_channels_in_step:
  assumes "p_pad_messages ps = p_pad_messages qs"
    and "p_rekey_interval ps \<le> int MAX_SKIP + 1" and "p_rekey_interval qs \<le> int MAX_SKIP + 1"
  shows "in_step L (new_channel L ka kb r pa (x_public L pb) ps t) (new_channel L kb ka r pb (x_public L pa) qs u)"
  using assms
  by (auto simp: in_step_def follows_def shares_chain_def new_channel_def new_sending_chain_def sends_def
      intro!: exI [of _ ka] exI [of _ kb] exI [of _ "new_receiving_chain ka"]
        exI [of _ "new_receiving_chain kb"])
    (simp_all add: new_receiving_chain_def)

section \<open>One message\<close>

lemma seal_frame_ok:
  assumes "aead_laws L" and "length key = 32" and "c < 256 ^ 8" and "length header \<le> 33" and "length p < 2 ^ 30"
  shows "\<exists>nonce payload ct. counter_to_nonce c = Inr nonce \<and>
    seal_frame L key c header padding p = Inr ((header @ be_bytes 8 c) @ ct) \<and>
    aes_gcm_decrypt L key nonce ct (header @ be_bytes 8 c) = Inr payload \<and>
    (if padding then unpad payload else Inr payload) = Inr p"
proof -
  obtain nonce where n: "counter_to_nonce c = Inr nonce" "length nonce = NONCE_SIZE"
    using counter_to_nonce_Inr [OF assms(3)] by blast
  have bucket: "bucket_for n \<le> n + 8223" for n
    using div_mult_mod_eq [of "n + 8191" 8192] by (auto simp: bucket_for_cases)
  obtain payload where payload: "(if padding then pad p else Inr p) = Inr payload"
    and undo: "(if padding then unpad payload else Inr payload) = Inr p" and small: "length payload < gcm_limit"
  proof (cases padding)
    case True
    obtain q where q: "pad p = Inr q"
      using pad_total [of p] assms(5) by (auto simp: MAX_PLAINTEXT_SIZE_def)
    have "length q < gcm_limit"
      using length_of_pad [OF q] bucket [of "length p + 4"] assms(5) by (simp add: gcm_limit_def)
    with True q unpad_of_pad [OF q] that show ?thesis by simp
  next
    case False
    with assms(5) that show ?thesis by (simp add: gcm_limit_def)
  qed
  have "length (header @ be_bytes 8 c) < gcm_limit"
    using assms(4) by (simp add: gcm_limit_def)
  with assms(1,2) n small obtain ct where
    "gcm_encrypt L key nonce payload (header @ be_bytes 8 c) = Inr ct"
    "gcm_decrypt L key nonce ct (header @ be_bytes 8 c) = Inr payload"
    unfolding aead_laws_def by blast
  with n payload undo assms(3) show ?thesis
    by (auto simp: seal_frame_def to_bytes_def aes_gcm_encrypt_def aes_gcm_decrypt_def Let_def)
qed

lemma passes_above: "highest_recv_counter ch < int c \<Longrightarrow> passes_window c ch"
  by (simp add: passes_window_def check_freshness_def)

lemma mark_above: "highest_recv_counter ch < int c \<Longrightarrow> highest_recv_counter (mark_seen c ch) = int c"
  by (simp add: mark_seen_def Let_def)

lemma authenticate_ok:
  assumes "counter_to_nonce c = Inr nonce" and "aes_gcm_decrypt L mk nonce ct aad = Inr payload"
    and "(if pad_messages ch then unpad payload else Inr payload) = Inr p"
  shows "authenticate_and_commit L (Inr mk) c aad ct pend ch =
    (Inr p, mark_seen c (case pend of None \<Rightarrow> ch | Some q \<Rightarrow> commit_receive_ratchet_step q c ch))"
  using assms by (simp add: authenticate_and_commit_def)

lemma follows_sender:
  assumes "follows b a" and "send_chain a' = send_chain a" and "send_counter a' = send_counter a"
    and "messages_since_rekey a' = messages_since_rekey a" and "rekey_interval a' = rekey_interval a"
    and "recv_chains b' = recv_chains b" and "highest_recv_counter b' = highest_recv_counter b"
  shows "follows b' a'"
  using assms(1) unfolding follows_def shares_chain_def assms(2-7) .


text \<open>A message that carries no new ratchet key: its receiver reads it, or never sees it.\<close>

lemma follows_key:
  assumes "follows b a" and "int (messages_since_rekey a) < rekey_interval a"
  obtains s ck rc where "sends ck (send_chain a)" "send_counter a = s + sc_counter (send_chain a)"
    "chain_start_for (send_counter a) b = Inr s" "map_of (recv_chains b) s = Some rc" "receives ck rc"
    "rc_next rc \<le> sc_counter (send_chain a)" "sc_counter (send_chain a) - rc_next rc \<le> MAX_SKIP"
    "\<forall>k \<in> set (keys (recv_chains b)). k \<le> s"
proof -
  from assms(1) obtain s ck rc where s: "sends ck (send_chain a)" "send_counter a = s + sc_counter (send_chain a)"
    "map_of (recv_chains b) s = Some rc" "receives ck rc" "rc_next rc \<le> sc_counter (send_chain a)"
    and top: "\<forall>k \<in> set (keys (recv_chains b)). k \<le> s"
    unfolding follows_def shares_chain_def by blast
  have "s \<in> set (keys (recv_chains b))"
    using s(3) by (metis map_of_eq_None_iff not_None_eq set_map)
  moreover have "{k \<in> set (keys (recv_chains b)). k \<le> send_counter a} = set (keys (recv_chains b))"
    using top s(2) by fastforce
  moreover from calculation(1) top have "Max (set (keys (recv_chains b))) = s"
    by (intro Max_eqI) auto
  ultimately have "chain_start_for (send_counter a) b = Inr s"
    unfolding chain_start_for_eq Let_def by (metis empty_iff)
  moreover have "sc_counter (send_chain a) - rc_next rc \<le> MAX_SKIP"
    using assms unfolding follows_def by linarith
  ultimately show ?thesis using s top that by blast
qed

lemma plain_message:
  assumes "aead_laws L" and sync: "in_step L a b" and quiet: "\<not> rekey_due env a"
    and "send_counter a < 256 ^ 8" and "length p < 2 ^ 30"
  obtains f a' b' where "encrypt L env p a = (Inr f, a')" "decrypt L f b = (Inr p, b')"
    "in_step L a' b" "in_step L a' b'" "send_counter a' = send_counter a + 1"
    "my_ratchet_pub a' = my_ratchet_pub a"
    "send_counter b' = send_counter b" "my_ratchet_pub b' = my_ratchet_pub b"
proof -
  have fol: "follows b a" "follows a b" and high: "highest_recv_counter b < int (send_counter a)"
    and dist: "distinct (keys (recv_chains b))" and pads: "pad_messages b = pad_messages a"
    and eqs: "root_key a = root_key b" "my_ratchet_pub a = x_public L (my_ratchet_priv a)"
      "my_ratchet_pub b = x_public L (my_ratchet_priv b)"
      "peer_ratchet_pub b = my_ratchet_pub a" "peer_ratchet_pub a = my_ratchet_pub b"
    using sync by (simp_all add: in_step_def follows_def)
  let ?n = "sc_counter (send_chain a)" and ?c = "send_counter a"
  have "int (messages_since_rekey a) < rekey_interval a"
    using quiet by (simp add: rekey_due_def count_due_def)
  with fol(1) obtain s ck rc where s: "sends ck (send_chain a)" "?c = s + ?n"
    "chain_start_for ?c b = Inr s" "map_of (recv_chains b) s = Some rc" "receives ck rc"
    "rc_next rc \<le> ?n" "?n - rc_next rc \<le> MAX_SKIP" and top: "\<forall>k \<in> set (keys (recv_chains b)). k \<le> s"
    by (rule follows_key)
  let ?mk = "nth_message_key ck ?n"
  obtain nonce payload ct where sealed: "counter_to_nonce ?c = Inr nonce"
    "seal_frame L ?mk ?c [FLAG_NO_REKEY] (pad_messages a) p = Inr (frame_header None ?c @ ct)"
    "aes_gcm_decrypt L ?mk nonce ct (frame_header None ?c) = Inr payload"
    "(if pad_messages a then unpad payload else Inr payload) = Inr p"
    using seal_frame_ok [OF assms(1) length_message_key assms(4) _ assms(5), of "[FLAG_NO_REKEY]" ck ?n "pad_messages a"]
    by (auto simp: frame_header_def)
  define a' where "a' = snd (encrypt_with_header L [FLAG_NO_REKEY] p a)"
  have a': "a' = a\<lparr>send_counter := ?c + 1, messages_since_rekey := messages_since_rekey a + 1,
      send_chain := \<lparr>sc_key = chain_at ck (Suc ?n), sc_counter = Suc ?n\<rparr>\<rparr>"
    using next_key_sends [OF s(1)] by (simp add: a'_def encrypt_with_header_eq)
  have enc: "encrypt L env p a = (Inr (frame_header None ?c @ ct), a')"
    using quiet sealed(2) next_key_sends [OF s(1)]
    by (simp add: encrypt_def a'_def encrypt_with_header_eq)
  obtain rc' where kf: "key_for ?n rc = (Inr ?mk, rc')" and rc': "receives ck rc'" "rc_next rc' = Suc ?n"
    using key_for_derives [OF s(5,6,7)] receives_key_for [OF s(5), of ?n] by auto
  let ?b = "b\<lparr>recv_chains := AList.update s rc' (recv_chains b)\<rparr>"
  have parse: "parse_frame (frame_header None ?c @ ct) = Inr (None, ?c, frame_header None ?c, ct)"
    using assms(4) by (rule parse_frame_of_header) simp
  have dec: "decrypt L (frame_header None ?c @ ct) b = (Inr p, mark_seen ?c ?b)"
    using decrypt_parsed [OF parse passes_above [OF high], of L] s(2,3,4) kf sealed pads
    by (simp add: announces_def authenticate_ok)
  have sends': "sends ck (send_chain a')"
    by (simp add: a' sends_def)
  have "shares_chain b a'"
    unfolding shares_chain_def
    using s sends' top
    by (intro exI [of _ s] exI [of _ ck] exI [of _ rc]) (simp add: a')
  moreover have "shares_chain (mark_seen ?c ?b) a'"
    unfolding shares_chain_def
    using s sends' top rc'
    by (intro exI [of _ s] exI [of _ ck] exI [of _ rc'])
      (simp add: a' map_of_dict_update set_keys_update del: set_map)
  ultimately have "follows b a'" "follows (mark_seen ?c ?b) a'"
    using fol(1) high by (simp_all add: follows_def a' mark_above AList.distinct_update)
  moreover have "follows a' b" and "follows a' (mark_seen ?c ?b)"
    using fol(2) by (auto intro: follows_sender simp: a')
  ultimately have "in_step L a' b" "in_step L a' (mark_seen ?c ?b)"
    using eqs pads by (simp_all add: in_step_def a')
  with enc dec that [of "frame_header None ?c @ ct" a' "mark_seen ?c ?b"] show ?thesis by (simp add: a')
qed


text \<open>A message that announces a new ratchet key, delivered.\<close>

lemma evict_shares_greatest:
  assumes "distinct (keys d)" and "\<forall>k \<in> set (keys d). k \<le> c"
  shows "map_of (evict_lowest MAX_RETAINED_CHAINS (AList.update c rc d)) c = Some rc"
    and "\<forall>k \<in> set (keys (evict_lowest MAX_RETAINED_CHAINS (AList.update c rc d))). k \<le> c"
    and "distinct (keys (evict_lowest MAX_RETAINED_CHAINS (AList.update c rc d)))"
proof -
  let ?u = "AList.update c rc d"
  have dist: "distinct (keys ?u)"
    using assms(1) by (rule AList.distinct_update)
  have top: "\<forall>k \<in> set (keys ?u). k \<le> c"
    using assms(2) by (simp add: set_keys_update del: set_map)
  show "map_of (evict_lowest MAX_RETAINED_CHAINS ?u) c = Some rc"
    using evict_lowest_keeps_greatest [OF dist _ top, of MAX_RETAINED_CHAINS]
    by (simp add: set_keys_update map_of_dict_update MAX_RETAINED_CHAINS_def del: set_map)
  show "\<forall>k \<in> set (keys (evict_lowest MAX_RETAINED_CHAINS ?u)). k \<le> c"
    using top evict_lowest_sub by blast
  show "distinct (keys (evict_lowest MAX_RETAINED_CHAINS ?u))"
    using dist by (rule evict_lowest_distinct)
qed

lemma rekey_message:
  assumes "dh_laws L" and "aead_laws L" and sync: "in_step L a b" and due: "rekey_due env a"
    and fresh: "x_public L (fresh_priv env) \<noteq> my_ratchet_pub a"
    and "send_counter a < 256 ^ 8" and "length p < 2 ^ 30"
  obtains f a' b' where "encrypt L env p a = (Inr f, a')" "decrypt L f b = (Inr p, b')"
    "in_step L a' b'" "send_counter a' = send_counter a + 1"
    "my_ratchet_pub a' = x_public L (fresh_priv env)"
    "send_counter b' = send_counter b" "my_ratchet_pub b' = my_ratchet_pub b"
proof -
  have fol: "follows b a" "follows a b" and high: "highest_recv_counter b < int (send_counter a)"
    and dist: "distinct (keys (recv_chains b))" and pads: "pad_messages b = pad_messages a"
    and eqs: "root_key a = root_key b" "my_ratchet_pub a = x_public L (my_ratchet_priv a)"
      "my_ratchet_pub b = x_public L (my_ratchet_priv b)"
      "peer_ratchet_pub b = my_ratchet_pub a" "peer_ratchet_pub a = my_ratchet_pub b"
    using sync by (simp_all add: in_step_def follows_def)
  let ?c = "send_counter a" and ?pub = "x_public L (fresh_priv env)"
  have top: "\<forall>k \<in> set (keys (recv_chains b)). k \<le> ?c"
    using fol(1) unfolding follows_def shares_chain_def by fastforce
  have pub32: "length ?pub = 32" "length (x_public L (my_ratchet_priv b)) = 32"
    using assms(1) by (simp_all add: dh_laws_def)
  obtain dh where "x_exchange L (fresh_priv env) (x_public L (my_ratchet_priv b)) = Inr dh"
    "x_exchange L (my_ratchet_priv b) ?pub = Inr dh"
    using assms(1) unfolding dh_laws_def by blast
  then have dh: "send_dh L env a = Inr dh"
    "x25519_public_from_bytes L ?pub = Inr ?pub" "derive_shared_secret L (my_ratchet_priv b) ?pub = Inr dh"
    using assms(1) pub32 eqs
    by (simp_all add: send_dh_def derive_shared_secret_def x_load_32)
  define ck where "ck = snd (dh_ratchet_step L (root_key a) dh)"
  define rt where "rt = fst (dh_ratchet_step L (root_key a) dh)"
  have q: "compute_receive_ratchet_step L ?pub b =
      Inr \<lparr>pr_root_key = rt, pr_chain = new_receiving_chain ck, pr_peer_pub = ?pub\<rparr>"
    using dh(2,3) eqs(1)
    by (simp add: compute_receive_ratchet_step_def ck_def rt_def split_beta Let_def)
  let ?mk = "nth_message_key ck 0"
  obtain nonce payload ct where sealed: "counter_to_nonce ?c = Inr nonce"
    "seal_frame L ?mk ?c (FLAG_REKEY # ?pub) (pad_messages a) p = Inr (frame_header (Some ?pub) ?c @ ct)"
    "aes_gcm_decrypt L ?mk nonce ct (frame_header (Some ?pub) ?c) = Inr payload"
    "(if pad_messages a then unpad payload else Inr payload) = Inr p"
    using seal_frame_ok [OF assms(2) length_message_key assms(6) _ assms(7),
        of "FLAG_REKEY # ?pub" ck 0 "pad_messages a"] pub32(1)
    by (auto simp: frame_header_def)
  let ?f = "frame_header (Some ?pub) ?c @ ct"
  have nk: "next_key (new_sending_chain ck) = ((0, ?mk), \<lparr>sc_key = chain_at ck 1, sc_counter = 1\<rparr>)"
    using next_key_sends [OF sends_new [of ck]] by (simp add: new_sending_chain_def)
  obtain a' where enc: "encrypt L env p a = (Inr ?f, a')" and a': "send_counter a' = ?c + 1"
    "messages_since_rekey a' = 1" "send_chain a' = \<lparr>sc_key = chain_at ck 1, sc_counter = 1\<rparr>"
    "root_key a' = rt" "my_ratchet_priv a' = fresh_priv env" "my_ratchet_pub a' = ?pub"
    "peer_ratchet_pub a' = peer_ratchet_pub a" "recv_chains a' = recv_chains a"
    "highest_recv_counter a' = highest_recv_counter a" "rekey_interval a' = rekey_interval a"
    "pad_messages a' = pad_messages a"
    using due dh(1) sealed(2) nk
    by (cases rule: encrypt_cases [of env a L p])
      (auto simp: encrypt_with_header_eq ck_def rt_def)
  obtain rc where kf: "key_for 0 (new_receiving_chain ck) = (Inr ?mk, rc)"
    and rc: "receives ck rc" "rc_next rc = 1"
    using key_for_derives [OF receives_new [of ck], of 0] receives_key_for [OF receives_new [of ck], of 0]
    by (auto simp: new_receiving_chain_def)
  let ?q = "\<lparr>pr_root_key = rt, pr_chain = rc, pr_peer_pub = ?pub\<rparr>"
  let ?b = "mark_seen ?c (commit_receive_ratchet_step ?q ?c b)"
  have parse: "parse_frame ?f = Inr (Some ?pub, ?c, frame_header (Some ?pub) ?c, ct)"
    using assms(6) pub32(1) by (intro parse_frame_of_header) auto
  have dec: "decrypt L ?f b = (Inr p, ?b)"
    using decrypt_parsed [OF parse passes_above [OF high], of L] q kf sealed pads fresh eqs
    by (simp add: announces_def authenticate_ok)
  note kept = evict_shares_greatest [OF dist top, of rc]
  have "sends ck (send_chain a')"
    by (simp add: a'(3) sends_def)
  then have "shares_chain ?b a'"
    unfolding shares_chain_def
    using kept rc a'
    by (intro exI [of _ ?c] exI [of _ ck] exI [of _ rc]) (simp del: set_map)
  moreover have "highest_recv_counter ?b = int ?c"
    using high by (simp add: mark_above)
  ultimately have "follows ?b a'"
    using fol(1) kept(3) a' by (simp add: follows_def del: set_map)
  moreover have "follows a' ?b"
    using fol(2) by (rule follows_sender) (simp_all add: a')
  ultimately have "in_step L a' ?b"
    using eqs pads a' by (simp add: in_step_def)
  with enc dec a' that [of ?f a' ?b] show ?thesis by simp
qed


section \<open>Sessions\<close>

text \<open>
  A session is a sequence of messages in both directions. Each is sealed by its sender and
  either read by the other side or lost; \<open>None\<close> is the outcome of a lost one.
\<close>

record message =
  forward :: bool
  msg_env :: send_env
  msg_text :: bytes
  msg_lost :: bool

fun transfer :: "cryptolib \<Rightarrow> message \<Rightarrow> channel \<times> channel \<Rightarrow> (exn + bytes) option \<times> channel \<times> channel" where
  "transfer L m (s, r) =
     (case encrypt L (msg_env m) (msg_text m) s of
        (Inl e, s') \<Rightarrow> (Some (Inl e), s', r)
      | (Inr f, s') \<Rightarrow>
          if msg_lost m then (None, s', r)
          else (case decrypt L f r of (x, r') \<Rightarrow> (Some x, s', r')))"

fun session_step :: "cryptolib \<Rightarrow> message \<Rightarrow> channel \<times> channel \<Rightarrow> (exn + bytes) option \<times> channel \<times> channel" where
  "session_step L m (a, b) =
     (if forward m then transfer L m (a, b)
      else (case transfer L m (b, a) of (x, b', a') \<Rightarrow> (x, a', b')))"

fun run_session :: "cryptolib \<Rightarrow> message list \<Rightarrow> channel \<times> channel \<Rightarrow> (exn + bytes) option list \<times> channel \<times> channel" where
  "run_session L [] ab = ([], ab)"
| "run_session L (m # ms) ab =
     (let (x, ab') = session_step L m ab; (xs, ab'') = run_session L ms ab' in (x # xs, ab''))"

text \<open>No frame that announces a ratchet key is lost.\<close>

fun rekeys_arrive :: "cryptolib \<Rightarrow> message list \<Rightarrow> channel \<times> channel \<Rightarrow> bool" where
  "rekeys_arrive L [] ab = True"
| "rekeys_arrive L (m # ms) ab =
     ((msg_lost m \<longrightarrow> \<not> rekey_due (msg_env m) (if forward m then fst ab else snd ab)) \<and>
      rekeys_arrive L ms (snd (session_step L m ab)))"

definition fresh_pub :: "cryptolib \<Rightarrow> message \<Rightarrow> bytes" where
  "fresh_pub L m = x_public L (fresh_priv (msg_env m))"

lemma transfer_in_step:
  assumes "dh_laws L" and "aead_laws L" and sync: "in_step L s r"
    and lost: "msg_lost m \<Longrightarrow> \<not> rekey_due (msg_env m) s"
    and fresh: "fresh_pub L m \<noteq> my_ratchet_pub s"
    and "send_counter s < 256 ^ 8" and "length (msg_text m) < 2 ^ 30"
  obtains s' r' where "transfer L m (s, r) = (if msg_lost m then None else Some (Inr (msg_text m)), s', r')"
    "in_step L s' r'" "send_counter s' = send_counter s + 1" "send_counter r' = send_counter r"
    "my_ratchet_pub s' \<in> {my_ratchet_pub s, fresh_pub L m}" "my_ratchet_pub r' = my_ratchet_pub r"
proof (cases "rekey_due (msg_env m) s")
  case True
  obtain f s' r' where e: "encrypt L (msg_env m) (msg_text m) s = (Inr f, s')" "decrypt L f r = (Inr (msg_text m), r')"
    and post: "in_step L s' r'" "send_counter s' = send_counter s + 1" "my_ratchet_pub s' = fresh_pub L m"
      "send_counter r' = send_counter r" "my_ratchet_pub r' = my_ratchet_pub r"
    unfolding fresh_pub_def by (rule rekey_message [OF assms(1,2) sync True fresh [unfolded fresh_pub_def] assms(6,7)])
  from True lost have "\<not> msg_lost m" by blast
  with e post that [of s' r'] show ?thesis by simp
next
  case False
  obtain f s' r' where e: "encrypt L (msg_env m) (msg_text m) s = (Inr f, s')" "decrypt L f r = (Inr (msg_text m), r')"
    and post: "in_step L s' r" "in_step L s' r'" "send_counter s' = send_counter s + 1"
      "my_ratchet_pub s' = my_ratchet_pub s" "send_counter r' = send_counter r" "my_ratchet_pub r' = my_ratchet_pub r"
    by (rule plain_message [OF assms(2) sync False assms(6,7)])
  show ?thesis
  proof (cases "msg_lost m")
    case True
    with e post that [of s' r] show ?thesis by simp
  next
    case False
    with e post that [of s' r'] show ?thesis by simp
  qed
qed

lemma run_session_in_step:
  assumes "dh_laws L" and "aead_laws L" and "in_step L a b" and "rekeys_arrive L ms (a, b)"
    and "distinct (map (fresh_pub L) ms)"
    and "my_ratchet_pub a \<notin> set (map (fresh_pub L) ms)" and "my_ratchet_pub b \<notin> set (map (fresh_pub L) ms)"
    and "send_counter a + length ms \<le> 256 ^ 8" and "send_counter b + length ms \<le> 256 ^ 8"
    and "\<forall>m \<in> set ms. length (msg_text m) < 2 ^ 30"
  shows "fst (run_session L ms (a, b)) = map (\<lambda>m. if msg_lost m then None else Some (Inr (msg_text m))) ms \<and>
    (\<exists>a' b'. snd (run_session L ms (a, b)) = (a', b') \<and> in_step L a' b')"
  using assms(3-)
proof (induction ms arbitrary: a b)
  case Nil
  then show ?case by simp
next
  case (Cons m ms)
  define out where "out = (if msg_lost m then None else Some (Inr (msg_text m) :: exn + bytes))"
  obtain a' b' where step: "session_step L m (a, b) = (out, a', b')" and sync: "in_step L a' b'"
    and cnt: "send_counter a' \<le> send_counter a + 1" "send_counter b' \<le> send_counter b + 1"
    and pubs: "my_ratchet_pub a' \<in> {my_ratchet_pub a, fresh_pub L m}"
      "my_ratchet_pub b' \<in> {my_ratchet_pub b, fresh_pub L m}"
  proof (cases "forward m")
    case True
    obtain s' r' where "transfer L m (a, b) = (out, s', r')" "in_step L s' r'"
      "send_counter s' = send_counter a + 1" "send_counter r' = send_counter b"
      "my_ratchet_pub s' \<in> {my_ratchet_pub a, fresh_pub L m}" "my_ratchet_pub r' = my_ratchet_pub b"
      by (rule transfer_in_step [OF assms(1,2) Cons.prems(1), of m]) (use Cons.prems True out_def in auto)
    with True that [of s' r'] show ?thesis by simp
  next
    case False
    have "in_step L b a"
      using Cons.prems(1) by (simp add: in_step_sym)
    then obtain s' r' where "transfer L m (b, a) = (out, s', r')" "in_step L s' r'"
      "send_counter s' = send_counter b + 1" "send_counter r' = send_counter a"
      "my_ratchet_pub s' \<in> {my_ratchet_pub b, fresh_pub L m}" "my_ratchet_pub r' = my_ratchet_pub a"
      by (rule transfer_in_step [OF assms(1,2), of b a m]) (use Cons.prems False out_def in auto)
    with False that [of r' s'] show ?thesis by (simp add: in_step_sym [of L r' s'])
  qed
  have "my_ratchet_pub a' \<notin> set (map (fresh_pub L) ms)" "my_ratchet_pub b' \<notin> set (map (fresh_pub L) ms)"
    using pubs Cons.prems(3,4,5) by auto
  with Cons.IH [OF sync] Cons.prems cnt step show ?case
    by (simp add: out_def split_beta del: session_step.simps)
qed

end
