(* ===== verification/Handshake.thy ===== *)
theory Handshake
  imports Identity Json Channel_Session
begin

text \<open>
  \<open>handshake.py\<close>: the three messages and their wire form, the transcript, the derivation of
  the channel, and the two functions of each side. The ephemeral private key a side draws
  and the clock reading of the channel it creates are arguments; a function returns its
  result or exception and the audit events it logs. The name in a message is whatever JSON
  value the peer sent, since \<open>from_wire\<close> does not check it.
\<close>

section \<open>Messages\<close>

record handshake_message1 =
  m1_name :: json
  m1_epk :: bytes

record handshake_message2 =
  m2_name :: json
  m2_epk :: bytes
  m2_sig :: bytes

record handshake_message3 =
  m3_sig :: bytes

definition to_wire1 :: "handshake_message1 \<Rightarrow> json" where
  "to_wire1 m = JObj [(''name'', m1_name m), (''epk'', JStr (hex (m1_epk m)))]"

definition from_wire1 :: "json \<Rightarrow> exn + handshake_message1" where
  "from_wire1 d =
     bind_exn (json_get ''name'' d) (\<lambda>name.
     bind_exn (json_hex_field ''epk'' d) (\<lambda>epk.
     Inr \<lparr>m1_name = name, m1_epk = epk\<rparr>))"

definition to_wire2 :: "handshake_message2 \<Rightarrow> json" where
  "to_wire2 m = JObj [(''name'', m2_name m), (''epk'', JStr (hex (m2_epk m))), (''sig'', JStr (hex (m2_sig m)))]"

definition from_wire2 :: "json \<Rightarrow> exn + handshake_message2" where
  "from_wire2 d =
     bind_exn (json_get ''name'' d) (\<lambda>name.
     bind_exn (json_hex_field ''epk'' d) (\<lambda>epk.
     bind_exn (json_hex_field ''sig'' d) (\<lambda>sg.
     Inr \<lparr>m2_name = name, m2_epk = epk, m2_sig = sg\<rparr>)))"

definition to_wire3 :: "handshake_message3 \<Rightarrow> json" where
  "to_wire3 m = JObj [(''sig'', JStr (hex (m3_sig m)))]"

definition from_wire3 :: "json \<Rightarrow> exn + handshake_message3" where
  "from_wire3 d = bind_exn (json_hex_field ''sig'' d) (\<lambda>sg. Inr \<lparr>m3_sig = sg\<rparr>)"

section \<open>Transcript and keys\<close>

definition transcript :: "bytes \<Rightarrow> bytes \<Rightarrow> bytes" where
  "transcript epk_initiator epk_responder =
     ascii ''secure-comms-handshake-v1|'' @ epk_initiator @ ascii ''|'' @ epk_responder"

definition derive_channel ::
    "cryptolib \<Rightarrow> bytes \<Rightarrow> bytes \<Rightarrow> bytes \<Rightarrow> bool \<Rightarrow> bytes \<Rightarrow> bytes \<Rightarrow> real \<Rightarrow> channel" where
  "derive_channel L shared_secret epk_initiator epk_responder is_initiator my_priv peer_pub now =
     (let salt = epk_initiator @ epk_responder;
          key_i2r = hkdf L shared_secret salt (ascii ''initiator-to-responder'') 32;
          key_r2i = hkdf L shared_secret salt (ascii ''responder-to-initiator'') 32;
          initial_root = hkdf L shared_secret salt (ascii ''root-key'') 32;
          (send_key, recv_key) = (if is_initiator then (key_i2r, key_r2i) else (key_r2i, key_i2r))
      in new_channel L send_key recv_key initial_root my_priv peer_pub default_params now)"

section \<open>The initiator\<close>

record initiator_state =
  is_eph_priv :: bytes
  is_epk_bytes :: bytes

definition initiator_start :: "cryptolib \<Rightarrow> identity \<Rightarrow> bytes \<Rightarrow> handshake_message1 \<times> initiator_state" where
  "initiator_start L me priv =
     (let (eph_priv, eph_pub) = generate_x25519_keypair L priv
      in (\<lparr>m1_name = JStr (id_name me), m1_epk = eph_pub\<rparr>,
          \<lparr>is_eph_priv = eph_priv, is_epk_bytes = eph_pub\<rparr>))"

definition handshake_event :: "event_code \<Rightarrow> string \<Rightarrow> json \<Rightarrow> event" where
  "handshake_event c role name = Event c [(''role'', CStr role), (''peer_name'', CJson name)]"

definition initiator_finish ::
    "cryptolib \<Rightarrow> identity \<Rightarrow> trust_store \<Rightarrow> initiator_state \<Rightarrow> handshake_message2 \<Rightarrow> real \<Rightarrow>
     (exn + handshake_message3 \<times> channel) \<times> event list" where
  "initiator_finish L me ts st msg2 now =
     (let note = (\<lambda>c. [handshake_event c ''initiator'' (m2_name msg2)])
      in case trusted_key_of_wire L (m2_name msg2) ts of
        Inl e \<Rightarrow> (Inl e, [])
      | Inr None \<Rightarrow> (Inl (HandshakeError (Unknown_Identity (m2_name msg2))), note HANDSHAKE_UNKNOWN_IDENTITY)
      | Inr (Some peer_pub) \<Rightarrow>
      (let tr = transcript (is_epk_bytes st) (m2_epk msg2)
       in case verify L peer_pub (m2_sig msg2) tr of
        Inl e \<Rightarrow> (Inl e, [])
      | Inr False \<Rightarrow> (Inl (HandshakeError (Signature_Failed (m2_name msg2))), note HANDSHAKE_SIG_FAIL)
      | Inr True \<Rightarrow>
      (let msg3 = \<lparr>m3_sig = sign L (private_key me) tr\<rparr>
       in case bind_exn (x25519_public_from_bytes L (m2_epk msg2)) (derive_shared_secret L (is_eph_priv st)) of
        Inl e \<Rightarrow> (Inl e, [])
      | Inr shared_secret \<Rightarrow>
          (Inr (msg3, derive_channel L shared_secret (is_epk_bytes st) (m2_epk msg2) True
                  (is_eph_priv st) (m2_epk msg2) now),
           note HANDSHAKE_COMPLETED))))"

section \<open>The responder\<close>

record responder_state =
  rs_eph_priv :: bytes
  rs_epk_bytes :: bytes
  rs_peer_epk_bytes :: bytes
  rs_peer_name :: json

definition responder_respond ::
    "cryptolib \<Rightarrow> identity \<Rightarrow> handshake_message1 \<Rightarrow> bytes \<Rightarrow> handshake_message2 \<times> responder_state" where
  "responder_respond L me msg1 priv =
     (let (eph_priv, eph_pub) = generate_x25519_keypair L priv;
          sg = sign L (private_key me) (transcript (m1_epk msg1) eph_pub)
      in (\<lparr>m2_name = JStr (id_name me), m2_epk = eph_pub, m2_sig = sg\<rparr>,
          \<lparr>rs_eph_priv = eph_priv, rs_epk_bytes = eph_pub, rs_peer_epk_bytes = m1_epk msg1,
           rs_peer_name = m1_name msg1\<rparr>))"

definition responder_finish ::
    "cryptolib \<Rightarrow> trust_store \<Rightarrow> responder_state \<Rightarrow> handshake_message3 \<Rightarrow> real \<Rightarrow>
     (exn + channel) \<times> event list" where
  "responder_finish L ts st msg3 now =
     (let note = (\<lambda>c. [handshake_event c ''responder'' (rs_peer_name st)])
      in case trusted_key_of_wire L (rs_peer_name st) ts of
        Inl e \<Rightarrow> (Inl e, [])
      | Inr None \<Rightarrow> (Inl (HandshakeError (Unknown_Identity (rs_peer_name st))), note HANDSHAKE_UNKNOWN_IDENTITY)
      | Inr (Some peer_pub) \<Rightarrow>
      (case verify L peer_pub (m3_sig msg3) (transcript (rs_peer_epk_bytes st) (rs_epk_bytes st)) of
        Inl e \<Rightarrow> (Inl e, [])
      | Inr False \<Rightarrow> (Inl (HandshakeError (Signature_Failed (rs_peer_name st))), note HANDSHAKE_SIG_FAIL)
      | Inr True \<Rightarrow>
      (case bind_exn (x25519_public_from_bytes L (rs_peer_epk_bytes st)) (derive_shared_secret L (rs_eph_priv st)) of
        Inl e \<Rightarrow> (Inl e, [])
      | Inr shared_secret \<Rightarrow>
          (Inr (derive_channel L shared_secret (rs_peer_epk_bytes st) (rs_epk_bytes st) False
                  (rs_eph_priv st) (rs_peer_epk_bytes st) now),
           note HANDSHAKE_COMPLETED))))"

section \<open>The wire form\<close>

interpretation wire1: codec "\<lambda>m. Inr (to_wire1 m)" from_wire1
  by unfold_locales (auto simp: to_wire1_def from_wire1_def json_hex_field_def fromhex_hex)

interpretation wire2: codec "\<lambda>m. Inr (to_wire2 m)" from_wire2
  by unfold_locales (auto simp: to_wire2_def from_wire2_def json_hex_field_def fromhex_hex)

interpretation wire3: codec "\<lambda>m. Inr (to_wire3 m)" from_wire3
  by unfold_locales (auto simp: to_wire3_def from_wire3_def json_hex_field_def fromhex_hex)

section \<open>What a signature binds\<close>

lemma transcript_inject:
  "length b = length b' \<Longrightarrow> transcript a b = transcript a' b' \<longleftrightarrow> a = a' \<and> b = b'"
  unfolding transcript_def by auto

lemma transcript_inject_responder: "transcript a b = transcript a b' \<longleftrightarrow> b = b'"
  unfolding transcript_def by auto

text \<open>
  A signature verifies for the message it was made for and no other, and a verification
  fails with \<open>InvalidSignature\<close> only.
\<close>

definition signatures_bind :: "cryptolib \<Rightarrow> bool" where
  "signatures_bind L \<longleftrightarrow>
     (\<forall>sk m m'. ed_verify L (ed_public L sk) (ed_sign L sk m) m' = Inr () \<longrightarrow> m = m') \<and>
     (\<forall>pk s m e. ed_verify L pk s m = Inl e \<longrightarrow> e = Lib_InvalidSignature)"

lemma initiator_finish_Inr:
  assumes "initiator_finish L me ts st msg2 now = (Inr (msg3, ch), evs)"
  obtains name pub raw shared where "dict_key (m2_name msg2) = Some name" "pins ts name = Some raw"
    "ed25519_public_from_bytes L raw = Inr pub"
    "ed_verify L pub (m2_sig msg2) (transcript (is_epk_bytes st) (m2_epk msg2)) = Inr ()"
    "bind_exn (x25519_public_from_bytes L (m2_epk msg2)) (derive_shared_secret L (is_eph_priv st)) = Inr shared"
    "ch = derive_channel L shared (is_epk_bytes st) (m2_epk msg2) True (is_eph_priv st) (m2_epk msg2) now"
    "msg3 = \<lparr>m3_sig = sign L (private_key me) (transcript (is_epk_bytes st) (m2_epk msg2))\<rparr>"
  using assms
  by (auto simp: initiator_finish_def trusted_key_of_wire_def trusted_key_def verify_def pins_def map_sum_Inr Let_def
      split: json.splits sum.splits option.splits bool.splits if_splits)

lemma responder_finish_Inr:
  assumes "responder_finish L ts st msg3 now = (Inr ch, evs)"
  obtains name pub raw shared where "dict_key (rs_peer_name st) = Some name" "pins ts name = Some raw"
    "ed25519_public_from_bytes L raw = Inr pub"
    "ed_verify L pub (m3_sig msg3) (transcript (rs_peer_epk_bytes st) (rs_epk_bytes st)) = Inr ()"
    "bind_exn (x25519_public_from_bytes L (rs_peer_epk_bytes st)) (derive_shared_secret L (rs_eph_priv st)) = Inr shared"
    "ch = derive_channel L shared (rs_peer_epk_bytes st) (rs_epk_bytes st) False (rs_eph_priv st)
            (rs_peer_epk_bytes st) now"
  using assms
  by (auto simp: responder_finish_def trusted_key_of_wire_def trusted_key_def verify_def pins_def map_sum_Inr Let_def
      split: json.splits sum.splits option.splits bool.splits if_splits)

section \<open>Two honest sides\<close>

text \<open>The three messages of a run between honest sides, delivered unchanged.\<close>

record party =
  self :: identity
  store :: trust_store
  eph :: bytes
  joined :: real

definition honest_handshake :: "cryptolib \<Rightarrow> party \<Rightarrow> party \<Rightarrow> exn + channel \<times> channel" where
  "honest_handshake L i r =
     (let (msg1, st_i) = initiator_start L (self i) (eph i);
          (msg2, st_r) = responder_respond L (self r) msg1 (eph r)
      in bind_exn (fst (initiator_finish L (self i) (store i) st_i msg2 (joined i))) (\<lambda>(msg3, ch_i).
         bind_exn (fst (responder_finish L (store r) st_r msg3 (joined r))) (\<lambda>ch_r.
         Inr (ch_i, ch_r))))"

definition genuine :: "cryptolib \<Rightarrow> party \<Rightarrow> bool" where
  "genuine L p \<longleftrightarrow> public_key (self p) = ed_public L (private_key (self p))"

definition pinned_by :: "party \<Rightarrow> party \<Rightarrow> bool" where
  "pinned_by p q \<longleftrightarrow> pins (store q) (id_name (self p)) = Some (public_bytes (self p))"

lemma trusted_key_pinned:
  assumes "signature_laws L" and "genuine L p" and "pinned_by p q"
  shows "trusted_key_of_wire L (JStr (id_name (self p))) (store q) = Inr (Some (ed_public L (private_key (self p))))"
  using assms
  by (simp add: trusted_key_of_wire_def trusted_key_def pinned_by_def pins_def genuine_def public_bytes_def
      ed25519_public_from_bytes_def signature_laws_def)

lemma honest_handshake_completes:
  assumes dh: "dh_laws L" and sigs: "signature_laws L"
    and gen: "genuine L i" "genuine L r" and pin: "pinned_by i r" "pinned_by r i"
  obtains a b where "honest_handshake L i r = Inr (a, b)" "in_step L a b"
    "my_ratchet_pub a = x_public L (eph i)" "my_ratchet_pub b = x_public L (eph r)"
    "send_counter a = 0" "send_counter b = 0" "channel_inv {} a" "channel_inv {} b"
proof -
  let ?pi = "x_public L (eph i)" and ?pr = "x_public L (eph r)"
  obtain s where s: "x_exchange L (eph i) ?pr = Inr s" "x_exchange L (eph r) ?pi = Inr s"
    using dh unfolding dh_laws_def by blast
  then have secret: "bind_exn (x25519_public_from_bytes L ?pr) (derive_shared_secret L (eph i)) = Inr s"
    "bind_exn (x25519_public_from_bytes L ?pi) (derive_shared_secret L (eph r)) = Inr s"
    using dh by (simp_all add: dh_laws_def x25519_public_from_bytes_def derive_shared_secret_def)
  have ver: "verify L (ed_public L sk) (ed_sign L sk m) m = Inr True" for sk m
    using sigs by (simp add: verify_def signature_laws_def)
  let ?a = "derive_channel L s ?pi ?pr True (eph i) ?pr (joined i)"
  let ?b = "derive_channel L s ?pi ?pr False (eph r) ?pi (joined r)"
  have "honest_handshake L i r = Inr (?a, ?b)"
    using trusted_key_pinned [OF sigs gen(1) pin(1)] trusted_key_pinned [OF sigs gen(2) pin(2)] secret
    by (simp add: honest_handshake_def initiator_start_def responder_respond_def initiator_finish_def
        responder_finish_def generate_x25519_keypair_def sign_def ver Let_def)
  moreover have "in_step L ?a ?b"
    unfolding derive_channel_def Let_def
    by (simp add: new_channels_in_step default_params_def DEFAULT_REKEY_INTERVAL_def MAX_SKIP_def)
  moreover have "channel_inv {} ?a" "channel_inv {} ?b"
    by (simp_all add: derive_channel_def Let_def new_channel_inv)
  ultimately show ?thesis
    by (intro that [of ?a ?b]) (simp_all add: derive_channel_def Let_def new_channel_def)
qed

section \<open>The peer that is not honest\<close>

text \<open>
  A key exchanged on the way, in either direction, under the signature of an honest side:
  the side that checks it refuses, and no channel comes out.
\<close>

lemma verify_other_message:
  "signatures_bind L \<Longrightarrow> m \<noteq> m' \<Longrightarrow> verify L (ed_public L sk) (ed_sign L sk m) m' = Inr False"
  by (cases "ed_verify L (ed_public L sk) (ed_sign L sk m) m'") (auto simp: signatures_bind_def verify_def)

lemma initiator_refuses_substitution:
  assumes "signature_laws L" and "signatures_bind L" and "genuine L r" and "pinned_by r i"
    and "initiator_start L (self i) (eph i) = (msg1, st)"
    and "responder_respond L (self r) msg1' (eph r) = (msg2, st_r)"
    and "m1_epk msg1' \<noteq> m1_epk msg1 \<or> epk \<noteq> m2_epk msg2" and "length epk = 32"
    and "dh_laws L"
  shows "initiator_finish L (self i) (store i) st (msg2\<lparr>m2_epk := epk\<rparr>) now =
    (Inl (HandshakeError (Signature_Failed (JStr (id_name (self r))))),
     [handshake_event HANDSHAKE_SIG_FAIL ''initiator'' (JStr (id_name (self r)))])"
proof -
  have st: "is_epk_bytes st = m1_epk msg1"
    using assms(5) by (auto simp: initiator_start_def generate_x25519_keypair_def)
  have m2: "m2_name msg2 = JStr (id_name (self r))"
    "m2_sig msg2 = ed_sign L (private_key (self r)) (transcript (m1_epk msg1') (m2_epk msg2))"
    "length (m2_epk msg2) = 32"
    using assms(6,9) by (auto simp: responder_respond_def generate_x25519_keypair_def sign_def dh_laws_def)
  have "transcript (m1_epk msg1') (m2_epk msg2) \<noteq> transcript (m1_epk msg1) epk"
    using assms(7,8) m2(3) transcript_inject [of "m2_epk msg2" epk "m1_epk msg1'" "m1_epk msg1"] by auto
  with trusted_key_pinned [OF assms(1,3,4)] verify_other_message [OF assms(2)] show ?thesis
    by (simp add: initiator_finish_def m2 st Let_def)
qed

lemma responder_refuses_substitution:
  assumes "signature_laws L" and "signatures_bind L" and "genuine L i" and "pinned_by i r"
    and "initiator_finish L (self i) (store i) st_i msg2' t = (Inr (msg3, ch), evs)"
    and "responder_respond L (self r) msg1' (eph r) = (msg2, st)" and "m1_name msg1' = JStr (id_name (self i))"
    and "m1_epk msg1' \<noteq> is_epk_bytes st_i \<or> m2_epk msg2' \<noteq> m2_epk msg2"
    and "dh_laws L"
  shows "responder_finish L (store r) st msg3 now =
    (Inl (HandshakeError (Signature_Failed (JStr (id_name (self i))))),
     [handshake_event HANDSHAKE_SIG_FAIL ''responder'' (JStr (id_name (self i)))])"
proof -
  from assms(5) obtain shared where
    shared: "bind_exn (x25519_public_from_bytes L (m2_epk msg2')) (derive_shared_secret L (is_eph_priv st_i)) = Inr shared"
    and msg3: "msg3 = \<lparr>m3_sig = sign L (private_key (self i)) (transcript (is_epk_bytes st_i) (m2_epk msg2'))\<rparr>"
    by (rule initiator_finish_Inr)
  have "length (m2_epk msg2') = 32"
    using shared assms(9)
    by (auto simp: bind_exn_Inr x25519_public_from_bytes_def dh_laws_def map_sum_Inr split: if_splits)
  moreover have "rs_peer_name st = JStr (id_name (self i))" "rs_peer_epk_bytes st = m1_epk msg1'"
    "rs_epk_bytes st = m2_epk msg2" "length (m2_epk msg2) = 32"
    using assms(6,7,9) by (auto simp: responder_respond_def generate_x25519_keypair_def dh_laws_def)
  moreover from calculation have
    "transcript (is_epk_bytes st_i) (m2_epk msg2') \<noteq> transcript (m1_epk msg1') (m2_epk msg2)"
    using assms(8) transcript_inject [of "m2_epk msg2'" "m2_epk msg2" "is_epk_bytes st_i" "m1_epk msg1'"] by auto
  ultimately show ?thesis
    using trusted_key_pinned [OF assms(1,3,4)] verify_other_message [OF assms(2)]
    by (simp add: responder_finish_def msg3 sign_def)
qed

text \<open>
  Agreement: if the holder of the pinned key signs transcripts of known pairs of ephemeral
  keys only, a channel at the initiator means that its own key and the one it received are
  such a pair.
\<close>

definition signs_only :: "cryptolib \<Rightarrow> bytes \<Rightarrow> (bytes \<times> bytes) set \<Rightarrow> bool" where
  "signs_only L pub pairs \<longleftrightarrow>
     (\<forall>s m. ed_verify L pub s m = Inr () \<longrightarrow> (\<exists>(a, b) \<in> pairs. m = transcript a b \<and> length b = 32))"

lemma signed_pair:
  assumes "signs_only L pub pairs" and "ed_verify L pub s (transcript a b) = Inr ()" and "length b = 32"
  shows "(a, b) \<in> pairs"
proof -
  from assms(1,2) obtain a' b' where ab: "(a', b') \<in> pairs" "transcript a b = transcript a' b'" "length b' = 32"
    unfolding signs_only_def by blast
  with assms(3) transcript_inject [of b b' a a'] show ?thesis by simp
qed

lemma x_loaded_length:
  "dh_laws L \<Longrightarrow> bind_exn (x25519_public_from_bytes L b) f = Inr s \<Longrightarrow> length b = 32"
  by (auto simp: bind_exn_Inr x25519_public_from_bytes_def dh_laws_def map_sum_Inr split: if_splits)

lemma ed_loaded_same:
  "signature_laws L \<Longrightarrow> ed25519_public_from_bytes L raw = Inr pub \<Longrightarrow> pub = raw"
  by (auto simp: ed25519_public_from_bytes_def signature_laws_def split: if_splits)

lemma initiator_agreement:
  assumes "dh_laws L" and "signature_laws L"
    and "initiator_finish L me ts st msg2 now = (Inr (msg3, ch), evs)"
  shows "\<exists>name raw. dict_key (m2_name msg2) = Some name \<and> pins ts name = Some raw \<and>
    (\<forall>pairs. signs_only L raw pairs \<longrightarrow> (is_epk_bytes st, m2_epk msg2) \<in> pairs)"
  using assms(3)
proof (rule initiator_finish_Inr)
  fix name pub raw shared
  assume named: "dict_key (m2_name msg2) = Some name" "pins ts name = Some raw"
    and key: "ed25519_public_from_bytes L raw = Inr pub"
    and v: "ed_verify L pub (m2_sig msg2) (transcript (is_epk_bytes st) (m2_epk msg2)) = Inr ()"
    and x: "bind_exn (x25519_public_from_bytes L (m2_epk msg2)) (derive_shared_secret L (is_eph_priv st)) = Inr shared"
  have "pub = raw" and len: "length (m2_epk msg2) = 32"
    using ed_loaded_same [OF assms(2) key] x_loaded_length [OF assms(1) x] .
  then have "\<forall>pairs. signs_only L raw pairs \<longrightarrow> (is_epk_bytes st, m2_epk msg2) \<in> pairs"
    using signed_pair [OF _ v len] by blast
  with named show ?thesis by blast
qed

lemma responder_agreement:
  assumes "dh_laws L" and "signature_laws L"
    and "responder_finish L ts st msg3 now = (Inr ch, evs)" and "length (rs_epk_bytes st) = 32"
  shows "\<exists>name raw. dict_key (rs_peer_name st) = Some name \<and> pins ts name = Some raw \<and>
    (\<forall>pairs. signs_only L raw pairs \<longrightarrow> (rs_peer_epk_bytes st, rs_epk_bytes st) \<in> pairs)"
  using assms(3)
proof (rule responder_finish_Inr)
  fix name pub raw shared
  assume named: "dict_key (rs_peer_name st) = Some name" "pins ts name = Some raw"
    and key: "ed25519_public_from_bytes L raw = Inr pub"
    and v: "ed_verify L pub (m3_sig msg3) (transcript (rs_peer_epk_bytes st) (rs_epk_bytes st)) = Inr ()"
  have "pub = raw"
    using ed_loaded_same [OF assms(2) key] .
  then have "\<forall>pairs. signs_only L raw pairs \<longrightarrow> (rs_peer_epk_bytes st, rs_epk_bytes st) \<in> pairs"
    using signed_pair [OF _ v assms(4)] by blast
  with named show ?thesis by blast
qed

end
