(* ===== verification/Demo_Lib.thy ===== *)
theory Demo_Lib
  imports Identity
begin

text \<open>
  A concrete instance of the third-party operations that satisfies every law the properties
  assume of them. It has no cryptographic strength: it serves to show that the hypotheses of
  the properties can hold, and to evaluate the model on concrete inputs.
\<close>

definition demo_pub :: "bytes \<Rightarrow> bytes" where
  "demo_pub a = 1 # take 31 (a @ replicate 31 0)"

definition demo_load :: "bytes \<Rightarrow> lib_exn + bytes" where
  "demo_load b = (if length b = 32 then Inr b else Inl Lib_ValueError)"

definition demo_exchange :: "bytes \<Rightarrow> bytes \<Rightarrow> lib_exn + bytes" where
  "demo_exchange a p =
     (if p = replicate 32 0 then Inl Lib_ValueError else Inr (map2 (XOR) (demo_pub a) p))"

definition demo_sign :: "bytes \<Rightarrow> bytes \<Rightarrow> bytes" where
  "demo_sign sk m = demo_pub sk @ m"

definition demo_verify :: "bytes \<Rightarrow> bytes \<Rightarrow> bytes \<Rightarrow> lib_exn + unit" where
  "demo_verify pub s m = (if s = pub @ m then Inr () else Inl Lib_InvalidSignature)"

definition demo_kdf :: "bytes \<Rightarrow> bytes \<Rightarrow> bytes \<Rightarrow> nat \<Rightarrow> bytes" where
  "demo_kdf s salt info n = take n (s @ salt @ info @ replicate n 0)"

definition demo_tag :: "bytes \<Rightarrow> bytes" where
  "demo_tag key = take 16 (key @ replicate 16 0)"

definition demo_seal :: "bytes \<Rightarrow> bytes \<Rightarrow> bytes \<Rightarrow> bytes \<Rightarrow> lib_exn + bytes" where
  "demo_seal key nonce pt aad = Inr (pt @ demo_tag key)"

definition demo_open :: "bytes \<Rightarrow> bytes \<Rightarrow> bytes \<Rightarrow> bytes \<Rightarrow> lib_exn + bytes" where
  "demo_open key nonce c aad =
     (if 16 \<le> length c \<and> drop (length c - 16) c = demo_tag key
      then Inr (take (length c - 16) c) else Inl Lib_InvalidTag)"

definition demo :: cryptolib where
  "demo =
     \<lparr>x_public = demo_pub, x_load = demo_load, x_exchange = demo_exchange,
      ed_public = demo_pub, ed_load = demo_load, ed_sign = demo_sign, ed_verify = demo_verify,
      hkdf_derive = demo_kdf, scrypt_derive = (\<lambda>p salt n. demo_kdf p salt [] n),
      gcm_encrypt = demo_seal, gcm_decrypt = demo_open\<rparr>"

lemma demo_select [simp]: "x_public demo = demo_pub" "ed_public demo = demo_pub" "ed_sign demo = demo_sign"
  by (simp_all add: demo_def)

lemma length_demo_pub [simp]: "length (demo_pub a) = 32"
  by (simp add: demo_pub_def)

lemma length_demo_tag [simp]: "length (demo_tag k) = 16"
  by (simp add: demo_tag_def)

lemma demo_pub_nonzero: "demo_pub a \<noteq> replicate 32 0"
  by (simp add: demo_pub_def numeral_eq_Suc)

lemma map2_xor_commute: "map2 (XOR) a b = map2 (XOR) b (a :: bytes)"
proof (induction a arbitrary: b)
  case Nil
  then show ?case by simp
next
  case (Cons x a)
  then show ?case by (cases b) (simp_all add: xor.commute)
qed

lemma demo_dh: "dh_laws demo"
  by (auto simp: dh_laws_def demo_def demo_load_def demo_exchange_def demo_pub_nonzero
      intro: map2_xor_commute)

lemma demo_aead: "aead_laws demo"
  by (simp add: aead_laws_def demo_def demo_seal_def demo_open_def)

lemma demo_authentic: "aead_authentic demo"
proof -
  have "c = take (length c - 16) c @ demo_tag key"
    if "drop (length c - 16) c = demo_tag key" for c key
    using append_take_drop_id [of "length c - 16" c] that by simp
  then show ?thesis
    by (auto simp: aead_authentic_def demo_def demo_seal_def demo_open_def split: if_splits)
qed

lemma demo_errors: "lib_errors demo"
  by (auto simp: lib_errors_def demo_def demo_exchange_def demo_open_def split: if_splits)

lemma demo_signatures: "signature_laws demo"
  by (simp add: signature_laws_def demo_def demo_load_def demo_sign_def demo_verify_def)

lemma demo_hkdf: "hkdf_laws demo"
  by (auto simp: hkdf_laws_def demo_def demo_kdf_def min_def)

lemma demo_scrypt: "scrypt_laws demo"
  by (auto simp: scrypt_laws_def demo_def demo_kdf_def min_def)

lemmas demo_laws = demo_dh demo_aead demo_authentic demo_errors demo_signatures demo_hkdf demo_scrypt

section \<open>Key files\<close>

text \<open>A passphrase is written in front of the key, its length in unary.\<close>

definition demo_lock :: "string \<Rightarrow> bytes" where
  "demo_lock q = 1 # replicate (length q) 1 @ 0 # ascii q"

definition demo_pem :: pemlib where
  "demo_pem =
     \<lparr>pem_dump = (\<lambda>k p. case p of None \<Rightarrow> 0 # k | Some q \<Rightarrow> demo_lock q @ k),
      pem_load = (\<lambda>pem p. case p of
          None \<Rightarrow> (if hd pem = 0 then Inr (tl pem) else Inl TypeError)
        | Some q \<Rightarrow> if hd pem = 0 then Inl TypeError
                    else if take (length (demo_lock q)) pem = demo_lock q
                    then Inr (drop (length (demo_lock q)) pem) else Inl ValueError)\<rparr>"

lemma demo_lock_prefix: "take (length (demo_lock q)) (demo_lock p @ k) = demo_lock q \<Longrightarrow> p = q"
proof -
  assume pre: "take (length (demo_lock q)) (demo_lock p @ k) = demo_lock q"
  then obtain r where r: "demo_lock p @ k = demo_lock q @ r"
    by (metis append_take_drop_id)
  have ones: "takeWhile (\<lambda>b. b = 1) (demo_lock x @ y) = replicate (Suc (length x)) 1" for x y
    by (simp add: demo_lock_def takeWhile_append)
  have "length p = length q"
    using ones [of p k] ones [of q r] unfolding r by (metis Suc_inject length_replicate)
  with r show "p = q"
    by (simp add: demo_lock_def)
qed

lemma demo_pem_laws: "pem_laws demo_pem"
  using demo_lock_prefix by (fastforce simp: pem_laws_def demo_pem_def demo_lock_def)

end
