(* ===== verification/Demo_Session.thy ===== *)
theory Demo_Session
  imports Handshake Demo_Lib
begin

text \<open>
  Two concrete parties over the concrete primitives: each has pinned the other, and their
  handshake gives two channels. The witnesses of the properties are about them.
\<close>

lemma demo_bind: "signatures_bind demo"
  by (simp add: signatures_bind_def demo_def demo_sign_def demo_verify_def)

definition demo_party :: "string \<Rightarrow> byte \<Rightarrow> string \<Rightarrow> byte \<Rightarrow> byte \<Rightarrow> party" where
  "demo_party name k peer pk e =
     \<lparr>self = new_identity demo name [k],
      store = \<lparr>audit = [], trusted = [(peer, demo_pub [pk])]\<rparr>,
      eph = [e], joined = 0\<rparr>"

definition alice :: party where
  "alice = demo_party ''alice'' 1 ''bob'' 2 3"

definition bob :: party where
  "bob = demo_party ''bob'' 2 ''alice'' 1 4"

lemma demo_parties:
  "genuine demo alice" "genuine demo bob" "pinned_by alice bob" "pinned_by bob alice"
  by (simp_all add: alice_def bob_def demo_party_def genuine_def pinned_by_def new_identity_def
      public_bytes_def pins_def demo_def)

lemma demo_pub_inject: "demo_pub [a] = demo_pub [b] \<longleftrightarrow> a = b"
  by (simp add: demo_pub_def)

text \<open>One channel, as the constructor leaves it.\<close>

definition demo_channel :: channel where
  "demo_channel = new_channel demo [1] [2] [3] [4] (demo_pub [5]) default_params 0"

lemma demo_channel_inv: "channel_inv {} demo_channel"
  by (simp add: demo_channel_def new_channel_inv)

lemma demo_channel_passes: "passes_window c demo_channel"
  by (rule passes_above) (simp add: demo_channel_def new_channel_def)

lemma demo_channel_chain: "chain_start_for c demo_channel = Inr 0"
  "map_of (recv_chains demo_channel) 0 = Some (new_receiving_chain [2])"
  by (simp_all add: chain_start_for_def demo_channel_def new_channel_def)

text \<open>A frame of a header and nothing else is no encryption.\<close>

lemma demo_forged:
  assumes "c \<le> MAX_SKIP"
  shows "\<exists>ch'. decrypt demo (frame_header None c) demo_channel = (Inl (TamperError Tag_Mismatch), ch')"
proof -
  have "c < 256 ^ 8"
    using assms by (simp add: MAX_SKIP_def)
  then have parse: "parse_frame (frame_header None c) = Inr (None, c, frame_header None c, [])"
    using parse_frame_of_header [of c None "[]"] by simp
  obtain nonce where nonce: "counter_to_nonce c = Inr nonce"
    using counter_to_nonce_Inr [OF \<open>c < 256 ^ 8\<close>] by blast
  have key: "fst (key_for c (new_receiving_chain [2])) = Inr (nth_message_key [2] c)"
    using key_for_result [OF receives_new [of "[2]"], of c] assms
    by (simp add: available_def new_receiving_chain_def)
  have "aes_gcm_decrypt demo k nonce [] aad = Inl InvalidTag" for k aad
    by (simp add: aes_gcm_decrypt_def demo_def demo_open_def)
  with decrypt_parsed [OF parse demo_channel_passes, of demo] key nonce show ?thesis
    by (simp add: announces_def demo_channel_chain authenticate_and_commit_def Let_def)
qed

definition demo_message :: "bool \<Rightarrow> byte \<Rightarrow> bytes \<Rightarrow> message" where
  "demo_message fwd e text =
     \<lparr>forward = fwd, msg_env = \<lparr>clock_start = 1, fresh_priv = [e], clock_rekey = 1\<rparr>,
      msg_text = text, msg_lost = False\<rparr>"

text \<open>A message from \<open>demo_channel\<close> to its counterpart.\<close>

lemma demo_exchange_of_channels:
  "\<exists>f a b. decrypt demo f (new_channel demo [2] [1] [3] [5] (demo_pub [4]) default_params 0) = (Inr [9], b) \<and>
     encrypt demo \<lparr>clock_start = 1, fresh_priv = [6], clock_rekey = 1\<rparr> [9] demo_channel = (Inr f, a)"
proof -
  let ?env = "\<lparr>clock_start = 1, fresh_priv = [6], clock_rekey = 1\<rparr>"
  have "in_step demo demo_channel (new_channel demo [2] [1] [3] [5] (x_public demo [4]) default_params 0)"
    using new_channels_in_step [of default_params default_params demo "[1]" "[2]" "[3]" "[4]" "[5]" 0 0]
    by (simp add: demo_channel_def default_params_def DEFAULT_REKEY_INTERVAL_def MAX_SKIP_def demo_def)
  moreover have "\<not> rekey_due ?env demo_channel"
    by (simp add: rekey_due_def count_due_def time_due_def demo_channel_def new_channel_def default_params_def
        DEFAULT_REKEY_INTERVAL_def DEFAULT_REKEY_INTERVAL_SECONDS_def)
  moreover have "send_counter demo_channel < 256 ^ 8" "length [9 :: byte] < 2 ^ 30"
    by (simp_all add: demo_channel_def new_channel_def)
  ultimately show ?thesis
    by (rule plain_message [OF demo_aead, where env = ?env and p = "[9]"]) (auto simp: demo_def)
qed

end
