(* ===== verification/Transport.thy ===== *)
theory Transport
  imports Audit_Log Json_Laws
begin

text \<open>
  \<open>transport.py\<close>: length-prefixed frames over a byte stream. A socket's incoming side is the
  list of the pieces in which its bytes become available: \<open>recv(n)\<close> returns at most \<open>n\<close>
  bytes of the first piece, and the empty string when nothing more comes, because the peer
  closed the connection or it was reset (whose exception is a \<open>ConnectionError\<close> as well).
  Every schedule of \<open>recv\<close> results is the one of some list of non-empty pieces. A peer may
  also fall \<open>silent\<close> after its last piece: then a call raises a \<open>TimeoutError\<close> if a timeout
  is set (\<open>deadline\<close>), and otherwise waits until the connection is lost.
\<close>

record socket = audited +
  incoming :: "bytes list"
  outgoing :: bytes
  writable :: bool
  silent :: bool
  deadline :: bool

definition HEADER_SIZE :: nat where
  "HEADER_SIZE = 4"

definition MAX_FRAME_SIZE :: nat where
  "MAX_FRAME_SIZE = 1 * 1024 * 1024"

text \<open>\<open>sock.sendall\<close>, \<open>sock.recv\<close>.\<close>

definition sendall :: "bytes \<Rightarrow> socket \<Rightarrow> (exn + unit) \<times> socket" where
  "sendall data sock =
     (if writable sock then (Inr (), sock\<lparr>outgoing := outgoing sock @ data\<rparr>)
      else (Inl (if silent sock \<and> deadline sock then TimeoutError else OSError), sock))"

definition recv :: "nat \<Rightarrow> bytes list \<Rightarrow> bytes \<times> bytes list" where
  "recv n pieces =
     (case pieces of
        [] \<Rightarrow> ([], [])
      | p # ps \<Rightarrow> if length p \<le> n then (p, ps) else (take n p, drop n p # ps))"

definition send_bytes :: "bytes \<Rightarrow> socket \<Rightarrow> (exn + unit) \<times> socket" where
  "send_bytes data sock =
     (if length data > MAX_FRAME_SIZE then (Inl (FrameError (Refusing_To_Send (length data))), sock)
      else case to_bytes HEADER_SIZE (length data) of
        Inl e \<Rightarrow> (Inl e, sock)
      | Inr header \<Rightarrow> sendall (header @ data) sock)"

function recv_loop :: "nat \<Rightarrow> bytes \<Rightarrow> bytes list \<Rightarrow> (exn + bytes) \<times> bytes list" where
  "recv_loop n buf pieces =
     (if length buf < n
      then (let (chunk, pieces') = recv (n - length buf) pieces
            in if chunk = [] then (Inl ConnectionError, pieces')
               else recv_loop n (buf @ chunk) pieces')
      else (Inr buf, pieces))"
  by pat_completeness auto
termination
proof (relation "measure (\<lambda>(n, buf, _). n - length buf)", goal_cases)
  case (2 n buf pieces x chunk pieces')
  then show ?case by (cases chunk) auto
qed simp

declare recv_loop.simps [simp del]

definition lost :: "socket \<Rightarrow> exn" where
  "lost sock = (if silent sock \<and> deadline sock then TimeoutError else ConnectionError)"

definition recv_exact :: "nat \<Rightarrow> socket \<Rightarrow> (exn + bytes) \<times> socket" where
  "recv_exact n sock =
     (let (r, pieces) = recv_loop n [] (incoming sock)
      in (map_sum (\<lambda>_. lost sock) id r, sock\<lparr>incoming := pieces\<rparr>))"

definition recv_bytes :: "socket \<Rightarrow> (exn + bytes) \<times> socket" where
  "recv_bytes sock =
     (case recv_exact HEADER_SIZE sock of
        (Inl e, sock1) \<Rightarrow> (Inl e, sock1)
      | (Inr header, sock1) \<Rightarrow>
          (let len = from_bytes header
           in if len > MAX_FRAME_SIZE
              then (Inl (FrameError (Claimed_Oversize len)),
                    log_event (Event FRAME_OVERSIZE_REJECTED
                      [(''claimed_length'', CInt (int len)), (''max_frame_size'', CInt (int MAX_FRAME_SIZE))]) sock1)
              else recv_exact len sock1))"

definition send_json :: "json \<Rightarrow> socket \<Rightarrow> (exn + unit) \<times> socket" where
  "send_json obj sock = send_bytes (ascii (dumps obj)) sock"

text \<open>Only the two decoding errors are turned into a \<open>FrameError\<close>.\<close>

definition recv_json :: "socket \<Rightarrow> (exn + json) \<times> socket" where
  "recv_json sock =
     (case recv_bytes sock of
        (Inl e, sock1) \<Rightarrow> (Inl e, sock1)
      | (Inr raw, sock1) \<Rightarrow>
          (case bind_exn (decode_utf8 raw) loads of
             Inr v \<Rightarrow> (Inr v, sock1)
           | Inl e \<Rightarrow>
               if e \<in> {JSONDecodeError, UnicodeDecodeError}
               then (Inl (FrameError Malformed_Frame),
                     log_event (Event FRAME_MALFORMED [(''frame_length'', CInt (int (length raw)))]) sock1)
               else (Inl e, sock1)))"

lemma be_bytes_4:
  "be_bytes 4 x = [of_nat (x div 16777216 mod 256), of_nat (x div 65536 mod 256), of_nat (x div 256 mod 256), of_nat (x mod 256)]"
proof -
  have "4 = Suc (Suc (Suc (Suc 0)))" by simp
  then show ?thesis
    by (simp only: be_bytes.simps) (simp add: div_mult2_eq [symmetric])
qed

section \<open>Reading from the stream\<close>

definition pieces_ok :: "bytes list \<Rightarrow> bool" where
  "pieces_ok ps \<longleftrightarrow> [] \<notin> set ps"

lemma recv_stream:
  assumes "pieces_ok ps" and "recv n ps = (chunk, ps')" and "0 < n"
  shows "concat ps = chunk @ concat ps'" and "pieces_ok ps'" and "length chunk \<le> n"
    and "chunk = [] \<longleftrightarrow> concat ps = []"
  using assms by (auto simp: recv_def pieces_ok_def split: list.splits if_splits)

text \<open>\<open>recv_exact\<close> depends on the bytes of the stream only, not on how they arrive.\<close>

lemma recv_loop_stream:
  assumes "pieces_ok ps" and "length buf \<le> n"
  shows "fst (recv_loop n buf ps) =
      (if n \<le> length buf + length (concat ps) then Inr (take n (buf @ concat ps)) else Inl ConnectionError)"
    and "concat (snd (recv_loop n buf ps)) = drop (n - length buf) (concat ps)"
    and "pieces_ok (snd (recv_loop n buf ps))"
proof -
  have "fst (recv_loop n buf ps) =
      (if n \<le> length buf + length (concat ps) then Inr (take n (buf @ concat ps)) else Inl ConnectionError) \<and>
    concat (snd (recv_loop n buf ps)) = drop (n - length buf) (concat ps) \<and>
    pieces_ok (snd (recv_loop n buf ps))"
    using assms
  proof (induction n buf ps rule: recv_loop.induct)
    case (1 n buf ps)
    show ?case
    proof (cases "length buf < n")
      case False
      with 1 show ?thesis by (simp add: recv_loop.simps [of n buf ps])
    next
      case True
      obtain chunk ps' where rc: "recv (n - length buf) ps = (chunk, ps')"
        by (cases "recv (n - length buf) ps")
      have st: "concat ps = chunk @ concat ps'" "pieces_ok ps'" "length chunk \<le> n - length buf"
        "chunk = [] \<longleftrightarrow> concat ps = []"
        using recv_stream [OF 1(2) rc] True by auto
      show ?thesis
      proof (cases "chunk = []")
        case True
        with st have "concat ps = []" "concat ps' = []" by auto
        with st(2) True rc \<open>length buf < n\<close> show ?thesis
          by (simp add: recv_loop.simps [of n buf ps] del: concat_eq_Nil_conv)
      next
        case False
        have "length (buf @ chunk) \<le> n"
          using st(3) True by simp
        with 1(1) [OF True rc [symmetric] refl False st(2)] st(1) rc True False show ?thesis
          by (simp add: recv_loop.simps [of n buf ps] add.assoc)
      qed
    qed
  qed
  then show "fst (recv_loop n buf ps) =
      (if n \<le> length buf + length (concat ps) then Inr (take n (buf @ concat ps)) else Inl ConnectionError)"
    and "concat (snd (recv_loop n buf ps)) = drop (n - length buf) (concat ps)"
    and "pieces_ok (snd (recv_loop n buf ps))" by auto
qed

lemma recv_exact_stream:
  assumes "pieces_ok (incoming sock)"
  shows "fst (recv_exact n sock) =
      (if n \<le> length (concat (incoming sock)) then Inr (take n (concat (incoming sock))) else Inl (lost sock))"
    and "concat (incoming (snd (recv_exact n sock))) = drop n (concat (incoming sock))"
    and "pieces_ok (incoming (snd (recv_exact n sock)))"
    and "snd (recv_exact n sock) = sock\<lparr>incoming := incoming (snd (recv_exact n sock))\<rparr>"
  using recv_loop_stream [OF assms, of "[]" n] by (simp_all add: recv_exact_def split_beta)

text \<open>The outcome of \<open>recv_bytes\<close>, by the bytes of the stream.\<close>

lemma recv_bytes_stream:
  assumes "pieces_ok (incoming sock)" and s: "s = concat (incoming sock)"
  shows "fst (recv_bytes sock) =
      (if length s < 4 then Inl (lost sock)
       else let n = from_bytes (take 4 s)
            in if n > MAX_FRAME_SIZE then Inl (FrameError (Claimed_Oversize n))
               else if length s < 4 + n then Inl (lost sock)
               else Inr (take n (drop 4 s)))" (is ?res)
    and "concat (incoming (snd (recv_bytes sock))) =
      (if length s < 4 then []
       else let n = from_bytes (take 4 s) in if n > MAX_FRAME_SIZE then drop 4 s else drop (4 + n) s)" (is ?rest)
    and "pieces_ok (incoming (snd (recv_bytes sock)))" (is ?ok)
proof -
  obtain x sock1 where r: "recv_exact HEADER_SIZE sock = (x, sock1)"
    by (cases "recv_exact HEADER_SIZE sock")
  have x: "x = (if 4 \<le> length s then Inr (take 4 s) else Inl (lost sock))"
    and s1: "concat (incoming sock1) = drop 4 s" and ok1: "pieces_ok (incoming sock1)"
    using recv_exact_stream [OF assms(1), of HEADER_SIZE] r s by (simp_all add: HEADER_SIZE_def)
  have same: "lost sock1 = lost sock"
    using r by (auto simp: recv_exact_def lost_def split: prod.splits)
  have rest: "fst (recv_exact n sock1) = (if n \<le> length s - 4 then Inr (take n (drop 4 s)) else Inl (lost sock))"
    "concat (incoming (snd (recv_exact n sock1))) = drop (4 + n) s"
    "pieces_ok (incoming (snd (recv_exact n sock1)))" for n
    using recv_exact_stream [OF ok1, of n] s1 same by (simp_all add: add.commute)
  show ?res ?rest ?ok
    using r x s1 ok1 rest by (auto simp: recv_bytes_def Let_def log_event_def)
qed

lemma lost_cases: "lost sock = ConnectionError \<or> lost sock = TimeoutError"
  by (simp add: lost_def)

lemma recv_bytes_oversize:
  assumes "pieces_ok (incoming sock)" and "fst (recv_bytes sock) = Inl (FrameError (Claimed_Oversize n))"
  shows "concat (incoming (snd (recv_bytes sock))) = drop 4 (concat (incoming sock))"
proof -
  define s where "s = concat (incoming sock)"
  note r = recv_bytes_stream [OF assms(1) s_def]
  have "\<not> length s < 4" and "from_bytes (take 4 s) > MAX_FRAME_SIZE"
    using assms(2) lost_cases [of sock] unfolding r(1) Let_def by (auto split: if_splits)
  then show ?thesis
    unfolding r(2) Let_def by (simp add: s_def)
qed

section \<open>Frames over a stream\<close>

text \<open>A list of messages written, and as many read.\<close>

fun put_all :: "('a \<Rightarrow> 's \<Rightarrow> (exn + unit) \<times> 's) \<Rightarrow> 'a list \<Rightarrow> 's \<Rightarrow> (exn + unit) \<times> 's" where
  "put_all put [] t = (Inr (), t)"
| "put_all put (a # as) t =
     (case put a t of (Inl e, t') \<Rightarrow> (Inl e, t') | (Inr _, t') \<Rightarrow> put_all put as t')"

fun get_all :: "('s \<Rightarrow> (exn + 'a) \<times> 's) \<Rightarrow> nat \<Rightarrow> 's \<Rightarrow> (exn + 'a) list \<times> 's" where
  "get_all get 0 r = ([], r)"
| "get_all get (Suc n) r = (let (x, r') = get r; (xs, r'') = get_all get n r' in (x # xs, r''))"

text \<open>
  The contract of a message format over a stream: whatever the pieces, reading gives back
  the first message written and leaves the rest.
\<close>

locale stream_codec =
  fixes put :: "'a \<Rightarrow> 's \<Rightarrow> (exn + unit) \<times> 's"
    and get :: "'s \<Rightarrow> (exn + 'a) \<times> 's"
    and sent :: "'s \<Rightarrow> bytes"
    and stream :: "'s \<Rightarrow> bytes"
    and ready :: "'s \<Rightarrow> bool"
    and valid :: "'a \<Rightarrow> bool"
  assumes put_get: "valid a \<Longrightarrow> put a t = (Inr (), t') \<Longrightarrow> ready r \<Longrightarrow> sent t' @ rest = sent t @ stream r \<Longrightarrow>
      \<exists>r'. get r = (Inr a, r') \<and> stream r' = rest \<and> ready r'"
    and put_sent: "put a t = (x, t') \<Longrightarrow> \<exists>b. sent t' = sent t @ b"
begin

lemma put_all_sent: "put_all put as t = (x, t') \<Longrightarrow> \<exists>b. sent t' = sent t @ b"
proof (induction as arbitrary: t)
  case Nil
  then show ?case by simp
next
  case (Cons a as)
  obtain y t1 where p: "put a t = (y, t1)" by (cases "put a t")
  then obtain b where "sent t1 = sent t @ b"
    using put_sent by blast
  with Cons p show ?case
    by (cases y) fastforce+
qed

lemma put_all_get_all:
  assumes "list_all valid as" and "put_all put as t = (Inr (), t')" and "ready r" and "sent t' @ rest = sent t @ stream r"
  shows "\<exists>r'. get_all get (length as) r = (map Inr as, r') \<and> stream r' = rest \<and> ready r'"
  using assms
proof (induction as arbitrary: t r)
  case Nil
  then show ?case by simp
next
  case (Cons a as)
  from Cons.prems(2) obtain t1 where p: "put a t = (Inr (), t1)" and ps: "put_all put as t1 = (Inr (), t')"
    by (auto split: prod.splits sum.splits)
  obtain b where b: "sent t' = sent t1 @ b"
    using put_all_sent [OF ps] by blast
  then have "sent t1 @ (b @ rest) = sent t @ stream r"
    using Cons.prems(4) by simp
  then obtain r1 where g: "get r = (Inr a, r1)" "stream r1 = b @ rest" "ready r1"
    using put_get [OF _ p Cons.prems(3)] Cons.prems(1) by auto
  from Cons.IH [OF _ ps g(3)] Cons.prems(1) b g show ?case by auto
qed

end

lemma send_bytes_Inr:
  "send_bytes data sock = (Inr (), sock') \<longleftrightarrow>
     length data \<le> MAX_FRAME_SIZE \<and> writable sock \<and>
     sock' = sock\<lparr>outgoing := outgoing sock @ be_bytes 4 (length data) @ data\<rparr>"
  by (auto simp: send_bytes_def sendall_def to_bytes_def HEADER_SIZE_def MAX_FRAME_SIZE_def)

lemma send_bytes_outgoing: "\<exists>b. outgoing (snd (send_bytes data sock)) = outgoing sock @ b"
  by (auto simp: send_bytes_def sendall_def split: sum.splits)

abbreviation receivable :: "socket \<Rightarrow> bool" where
  "receivable sock \<equiv> pieces_ok (incoming sock)"

abbreviation arriving :: "socket \<Rightarrow> bytes" where
  "arriving sock \<equiv> concat (incoming sock)"

interpretation frames: stream_codec send_bytes recv_bytes outgoing arriving receivable "\<lambda>_. True"
proof
  fix data t t' r rest
  assume sent: "send_bytes data t = (Inr (), t')" and ok: "receivable r"
    and str: "outgoing t' @ rest = outgoing t @ arriving r"
  then have s: "arriving r = be_bytes 4 (length data) @ data @ rest" and small: "length data \<le> MAX_FRAME_SIZE"
    by (auto simp: send_bytes_Inr)
  have "from_bytes (be_bytes 4 (length data)) = length data"
    using small by (simp add: from_be_bytes MAX_FRAME_SIZE_def)
  with recv_bytes_stream [OF ok refl] small
  have "fst (recv_bytes r) = Inr data" "arriving (snd (recv_bytes r)) = rest" "receivable (snd (recv_bytes r))"
    by (simp_all add: s Let_def)
  then show "\<exists>r'. recv_bytes r = (Inr data, r') \<and> arriving r' = rest \<and> receivable r'"
    by (metis prod.collapse)
next
  fix data t x t'
  assume "send_bytes data t = (x, t')"
  then show "\<exists>b. outgoing t' = outgoing t @ b"
    using send_bytes_outgoing [of data t] by simp
qed

section \<open>Values over a stream\<close>

interpretation objects: stream_codec send_json recv_json outgoing arriving receivable wf_json
proof
  fix j t t' r rest
  assume wf: "wf_json j" and sent: "send_json j t = (Inr (), t')" and ok: "receivable r"
    and str: "outgoing t' @ rest = outgoing t @ arriving r"
  from sent have "send_bytes (ascii (dumps j)) t = (Inr (), t')"
    by (simp add: send_json_def)
  from frames.put_get [OF TrueI this ok str] obtain r'
    where r': "recv_bytes r = (Inr (ascii (dumps j)), r')" "arriving r' = rest" "receivable r'" by blast
  have "recv_json r = (Inr j, r')"
    using decode_dump [OF wf, of None 0] by (simp add: recv_json_def r'(1) dumps_def)
  with r' show "\<exists>r'. recv_json r = (Inr j, r') \<and> arriving r' = rest \<and> receivable r'" by blast
next
  fix j t x t'
  assume "send_json j t = (x, t')"
  then show "\<exists>b. outgoing t' = outgoing t @ b"
    using send_bytes_outgoing [of "ascii (dumps j)" t] by (simp add: send_json_def)
qed

text \<open>What \<open>recv_json\<close> raises, whatever the peer sends.\<close>

lemma recv_json_exceptions:
  assumes "fst (recv_json sock) = Inl e"
  shows "fst (recv_bytes sock) = Inl e \<or> e = FrameError Malformed_Frame \<or> e = ValueError"
  using assms
  by (auto simp: recv_json_def decode_utf8_def Let_def dest!: loads_exceptions
      split: prod.splits sum.splits if_splits)

end
