(* ===== verification/Rate_Limiter.thy ===== *)
theory Rate_Limiter
  imports Audit_Log
begin

text \<open>
  \<open>rate_limiter.py\<close>: the in-memory limiter and the SQLite one, the time of every call an
  argument. Times are real numbers; the SQLite tables are the list of the rows of
  \<open>attempts\<close> and the association list of \<open>blocks\<close>, each method one transaction. Both
  implement one specification, which keeps for a key its failures within the window and the
  end of its block.
\<close>

section \<open>The two limiters\<close>

record limiter = audited +
  max_attempts :: int
  window_seconds :: real
  cooldown_seconds :: real

record rate_limiter = limiter +
  failures :: "(string, real list) dict"
  blocked_until :: "(string, real) dict"

record sqlite_limiter = limiter +
  attempts :: "(string \<times> real) list"
  blocks :: "(string, real) dict"

definition new_rate_limiter :: "int \<Rightarrow> real \<Rightarrow> real \<Rightarrow> rate_limiter" where
  "new_rate_limiter m w c =
     \<lparr>audit = [], max_attempts = m, window_seconds = w, cooldown_seconds = c,
      failures = [], blocked_until = []\<rparr>"

text \<open>\<open>RateLimiter.is_blocked\<close>, \<open>seconds_until_unblocked\<close>.\<close>

definition is_blocked :: "string \<Rightarrow> real \<Rightarrow> rate_limiter \<Rightarrow> bool \<times> rate_limiter" where
  "is_blocked key now rl =
     (case map_of (blocked_until rl) key of
        None \<Rightarrow> (False, rl)
      | Some until \<Rightarrow>
          if now \<ge> until then (False, rl\<lparr>blocked_until := AList.delete key (blocked_until rl)\<rparr>)
          else (True, rl))"

definition seconds_until_unblocked :: "string \<Rightarrow> real \<Rightarrow> rate_limiter \<Rightarrow> real" where
  "seconds_until_unblocked key now rl =
     (case map_of (blocked_until rl) key of
        None \<Rightarrow> 0
      | Some until \<Rightarrow> if now \<ge> until then 0 else until - now)"

definition rate_limit_event :: "string \<Rightarrow> nat \<Rightarrow> 'a limiter_scheme \<Rightarrow> event" where
  "rate_limit_event key n l = Event RATE_LIMIT_TRIGGERED
     [(''key'', CStr key), (''attempts'', CInt (int n)), (''window_seconds'', CReal (window_seconds l)),
      (''cooldown_seconds'', CReal (cooldown_seconds l))]"

text \<open>
  \<open>record_failure\<close>: reading the \<open>defaultdict\<close> creates the entry, and the deque that the
  call then extends, trims from the left and perhaps clears is the dictionary's own.
\<close>

definition record_failure :: "string \<Rightarrow> real \<Rightarrow> rate_limiter \<Rightarrow> rate_limiter" where
  "record_failure key now rl =
     (let known = (case map_of (failures rl) key of None \<Rightarrow> [] | Some q \<Rightarrow> q);
          recent = dropWhile (\<lambda>t. now - t > window_seconds rl) (known @ [now])
      in if int (length recent) \<ge> max_attempts rl
         then log_event (rate_limit_event key (length recent) rl)
                (rl\<lparr>blocked_until := AList.update key (now + cooldown_seconds rl) (blocked_until rl),
                    failures := AList.update key [] (failures rl)\<rparr>)
         else rl\<lparr>failures := AList.update key recent (failures rl)\<rparr>)"

definition record_success :: "string \<Rightarrow> rate_limiter \<Rightarrow> rate_limiter" where
  "record_success key rl =
     rl\<lparr>failures := AList.delete key (failures rl), blocked_until := AList.delete key (blocked_until rl)\<rparr>"

text \<open>\<open>SQLiteRateLimiter\<close>: a fresh database, then one definition per method.\<close>

definition new_sqlite_limiter :: "int \<Rightarrow> real \<Rightarrow> real \<Rightarrow> sqlite_limiter" where
  "new_sqlite_limiter m w c =
     \<lparr>audit = [], max_attempts = m, window_seconds = w, cooldown_seconds = c,
      attempts = [], blocks = []\<rparr>"

definition sql_is_blocked :: "string \<Rightarrow> real \<Rightarrow> sqlite_limiter \<Rightarrow> bool \<times> sqlite_limiter" where
  "sql_is_blocked key now db =
     (case map_of (blocks db) key of
        None \<Rightarrow> (False, db)
      | Some until \<Rightarrow>
          if now \<ge> until then (False, db\<lparr>blocks := AList.delete key (blocks db)\<rparr>) else (True, db))"

definition sql_seconds_until_unblocked :: "string \<Rightarrow> real \<Rightarrow> sqlite_limiter \<Rightarrow> real" where
  "sql_seconds_until_unblocked key now db =
     (case map_of (blocks db) key of
        None \<Rightarrow> 0
      | Some until \<Rightarrow> if now \<ge> until then 0 else until - now)"

definition sql_record_failure :: "string \<Rightarrow> real \<Rightarrow> sqlite_limiter \<Rightarrow> sqlite_limiter" where
  "sql_record_failure key now db =
     (let rows = filter (\<lambda>(_, ts). \<not> ts < now - window_seconds db) (attempts db @ [(key, now)]);
          live = filter (\<lambda>(_, until). \<not> until \<le> now) (blocks db);
          count = length (filter (\<lambda>(k, _). k = key) rows)
      in if int count \<ge> max_attempts db
         then log_event (rate_limit_event key count db)
                (db\<lparr>attempts := filter (\<lambda>(k, _). k \<noteq> key) rows,
                    blocks := AList.update key (now + cooldown_seconds db) live\<rparr>)
         else db\<lparr>attempts := rows, blocks := live\<rparr>)"

definition sql_record_success :: "string \<Rightarrow> sqlite_limiter \<Rightarrow> sqlite_limiter" where
  "sql_record_success key db =
     db\<lparr>attempts := filter (\<lambda>(k, _). k \<noteq> key) (attempts db), blocks := AList.delete key (blocks db)\<rparr>"

section \<open>Calls and answers\<close>

datatype limiter_call = Is_Blocked string real | Seconds_Until string real | Failure string real | Success string

datatype answer = Blocked bool | Seconds real | Done

fun limit :: "limiter_call \<Rightarrow> rate_limiter \<Rightarrow> answer \<times> rate_limiter" where
  "limit (Is_Blocked k t) rl = map_prod Blocked id (is_blocked k t rl)"
| "limit (Seconds_Until k t) rl = (Seconds (seconds_until_unblocked k t rl), rl)"
| "limit (Failure k t) rl = (Done, record_failure k t rl)"
| "limit (Success k) rl = (Done, record_success k rl)"

fun sql_limit :: "limiter_call \<Rightarrow> sqlite_limiter \<Rightarrow> answer \<times> sqlite_limiter" where
  "sql_limit (Is_Blocked k t) db = map_prod Blocked id (sql_is_blocked k t db)"
| "sql_limit (Seconds_Until k t) db = (Seconds (sql_seconds_until_unblocked k t db), db)"
| "sql_limit (Failure k t) db = (Done, sql_record_failure k t db)"
| "sql_limit (Success k) db = (Done, sql_record_success k db)"

fun run_limiter :: "('c \<Rightarrow> 's \<Rightarrow> answer \<times> 's) \<Rightarrow> 'c list \<Rightarrow> 's \<Rightarrow> answer list \<times> 's" where
  "run_limiter f [] s = ([], s)"
| "run_limiter f (c # cs) s = (let (a, s') = f c s; (as, s'') = run_limiter f cs s' in (a # as, s''))"

fun key_of :: "limiter_call \<Rightarrow> string" where
  "key_of (Is_Blocked k _) = k"
| "key_of (Seconds_Until k _) = k"
| "key_of (Failure k _) = k"
| "key_of (Success k) = k"

text \<open>The clock after a call, and a clock that does not run backwards.\<close>

fun clock :: "real \<Rightarrow> limiter_call \<Rightarrow> real" where
  "clock now (Is_Blocked _ t) = t"
| "clock now (Seconds_Until _ t) = t"
| "clock now (Failure _ t) = t"
| "clock now (Success _) = now"

fun forward_clock :: "real \<Rightarrow> limiter_call list \<Rightarrow> bool" where
  "forward_clock now [] = True"
| "forward_clock now (c # cs) = (now \<le> clock now c \<and> forward_clock (clock now c) cs)"

section \<open>The specification\<close>

record throttle_params =
  limit_attempts :: int
  limit_window :: real
  limit_cooldown :: real

text \<open>Of one key: its failures within the window of the last one, and when its block ends.\<close>

record track =
  recent :: "real list"
  ends :: "real option"

definition clean :: track where
  "clean = \<lparr>recent = [], ends = None\<rparr>"

definition in_window :: "throttle_params \<Rightarrow> real \<Rightarrow> real list \<Rightarrow> real list" where
  "in_window p now ts = filter (\<lambda>t. now - t \<le> limit_window p) ts"

definition still_blocked :: "real \<Rightarrow> real option \<Rightarrow> bool" where
  "still_blocked now e \<longleftrightarrow> (case e of None \<Rightarrow> False | Some u \<Rightarrow> now < u)"

fun spec_call :: "throttle_params \<Rightarrow> limiter_call \<Rightarrow> track \<Rightarrow> answer \<times> track" where
  "spec_call p (Is_Blocked _ t) x = (Blocked (still_blocked t (ends x)), x)"
| "spec_call p (Seconds_Until _ t) x = (Seconds (if still_blocked t (ends x) then the (ends x) - t else 0), x)"
| "spec_call p (Failure _ t) x =
     (let ts = in_window p t (recent x @ [t])
      in (Done, if int (length ts) \<ge> limit_attempts p then \<lparr>recent = [], ends = Some (t + limit_cooldown p)\<rparr>
                else x\<lparr>recent := ts\<rparr>))"
| "spec_call p (Success _) x = (Done, clean)"

fun spec_limit :: "throttle_params \<Rightarrow> limiter_call \<Rightarrow> (string \<Rightarrow> track) \<Rightarrow> answer \<times> (string \<Rightarrow> track)" where
  "spec_limit p c A = (let (a, x) = spec_call p c (A (key_of c)) in (a, A(key_of c := x)))"

text \<open>
  What an implementation promises: every call answers as the specification does, as long as
  the clock does not run backwards.
\<close>

locale throttle =
  fixes call :: "limiter_call \<Rightarrow> 's \<Rightarrow> answer \<times> 's"
    and repr :: "throttle_params \<Rightarrow> real \<Rightarrow> 's \<Rightarrow> (string \<Rightarrow> track) \<Rightarrow> bool"
  assumes step: "repr p now s A \<Longrightarrow> now \<le> clock now c \<Longrightarrow>
    fst (call c s) = fst (spec_limit p c A) \<and> repr p (clock now c) (snd (call c s)) (snd (spec_limit p c A))"
begin

lemma run_refines:
  "repr p now s A \<Longrightarrow> forward_clock now cs \<Longrightarrow>
     fst (run_limiter call cs s) = fst (run_limiter (spec_limit p) cs A) \<and>
     (\<exists>now'. repr p now' (snd (run_limiter call cs s)) (snd (run_limiter (spec_limit p) cs A)))"
proof (induction cs arbitrary: now s A)
  case Nil
  then show ?case by auto
next
  case (Cons c cs)
  then have "now \<le> clock now c" and fwd: "forward_clock (clock now c) cs" by auto
  with step [OF Cons.prems(1), of c] have head: "fst (call c s) = fst (spec_limit p c A)"
    and tail: "repr p (clock now c) (snd (call c s)) (snd (spec_limit p c A))" by auto
  from Cons.IH [OF tail fwd] head show ?case
    by (simp add: split_beta del: spec_limit.simps)
qed

end

section \<open>Both limiters implement it\<close>

definition tracks ::
    "throttle_params \<Rightarrow> real \<Rightarrow> (string \<Rightarrow> real list) \<Rightarrow> (string \<Rightarrow> real option) \<Rightarrow> (string \<Rightarrow> track) \<Rightarrow> bool" where
  "tracks p now hist until A \<longleftrightarrow>
     (\<forall>k. in_window p now (hist k) = in_window p now (recent (A k)) \<and>
          (\<forall>u > now. until k = Some u \<longleftrightarrow> ends (A k) = Some u))"

definition configured :: "throttle_params \<Rightarrow> 'a limiter_scheme \<Rightarrow> bool" where
  "configured p l \<longleftrightarrow> max_attempts l = limit_attempts p \<and> window_seconds l = limit_window p \<and>
     cooldown_seconds l = limit_cooldown p"

definition known_failures :: "rate_limiter \<Rightarrow> string \<Rightarrow> real list" where
  "known_failures rl k = (case map_of (failures rl) k of None \<Rightarrow> [] | Some q \<Rightarrow> q)"

text \<open>The time stamps of a key among the rows.\<close>

definition stamps :: "string \<Rightarrow> (string \<times> real) list \<Rightarrow> real list" where
  "stamps k rows = map snd (filter (\<lambda>(k', _). k' = k) rows)"

definition rows_of :: "sqlite_limiter \<Rightarrow> string \<Rightarrow> real list" where
  "rows_of db k = stamps k (attempts db)"

definition mem_repr :: "throttle_params \<Rightarrow> real \<Rightarrow> rate_limiter \<Rightarrow> (string \<Rightarrow> track) \<Rightarrow> bool" where
  "mem_repr p now rl A \<longleftrightarrow> configured p rl \<and> tracks p now (known_failures rl) (map_of (blocked_until rl)) A \<and>
     (\<forall>k. sorted (known_failures rl k) \<and> (\<forall>t \<in> set (known_failures rl k). t \<le> now))"

definition sql_repr :: "throttle_params \<Rightarrow> real \<Rightarrow> sqlite_limiter \<Rightarrow> (string \<Rightarrow> track) \<Rightarrow> bool" where
  "sql_repr p now db A \<longleftrightarrow> configured p db \<and> tracks p now (rows_of db) (map_of (blocks db)) A \<and>
     distinct (keys (blocks db))"

lemma in_window_later:
  assumes "in_window p now xs = in_window p now ys" and "now \<le> t"
  shows "in_window p t xs = in_window p t ys"
proof -
  have "in_window p t zs = in_window p t (in_window p now zs)" for zs
    using assms(2) by (auto simp: in_window_def intro!: filter_cong)
  with assms(1) show ?thesis by metis
qed

lemma in_window_append: "in_window p t (xs @ ys) = in_window p t xs @ in_window p t ys"
  by (simp add: in_window_def)

lemma tracks_later: "tracks p now h u A \<Longrightarrow> now \<le> t \<Longrightarrow> tracks p t h u A"
  by (auto simp: tracks_def intro: in_window_later)

lemma still_blocked_iff: "still_blocked t x \<longleftrightarrow> (\<exists>e. x = Some e \<and> t < e)"
  by (simp add: still_blocked_def split: option.splits)

lemma tracks_blocked:
  "tracks p now h u A \<Longrightarrow> now \<le> t \<Longrightarrow> still_blocked t (u k) = still_blocked t (ends (A k))"
  unfolding still_blocked_iff tracks_def by (meson order.strict_trans1)

lemma tracks_ends:
  "tracks p now h u A \<Longrightarrow> now \<le> t \<Longrightarrow> still_blocked t (u k) \<Longrightarrow> u k = ends (A k)"
  unfolding still_blocked_iff tracks_def by (metis order.strict_trans1)

lemma tracks_forget:
  "tracks p now h u A \<Longrightarrow> \<not> still_blocked now (u k) \<Longrightarrow> tracks p now h (u(k := None)) A"
  unfolding still_blocked_iff tracks_def by auto

lemma tracks_success: "tracks p now h u A \<Longrightarrow> tracks p now (h(k := [])) (u(k := None)) (A(k := clean))"
  by (simp add: tracks_def clean_def)

text \<open>A failure, whatever an implementation keeps of older entries.\<close>

lemma tracks_failure:
  assumes tr: "tracks p now h u A" and "now \<le> t"
    and ts: "ts = in_window p t (h k @ [t])"
    and hist: "\<And>j. in_window p t (h' j) = (if j = k then if trip then [] else ts else in_window p t (h j))"
    and until: "\<And>j e. e > t \<Longrightarrow> u' j = Some e \<longleftrightarrow> (if j = k \<and> trip then Some (t + limit_cooldown p) else u j) = Some e"
    and trip: "trip \<longleftrightarrow> int (length ts) \<ge> limit_attempts p"
  shows "tracks p t h' u' (snd (spec_limit p (Failure k t) A))"
proof -
  have later: "tracks p t h u A"
    using tr assms(2) by (rule tracks_later)
  then have ts': "in_window p t (recent (A k) @ [t]) = ts"
    by (simp add: ts in_window_append tracks_def)
  have "in_window p t ts = ts"
    by (simp add: ts in_window_def)
  with later ts' trip hist until show ?thesis
    by (auto simp: tracks_def Let_def in_window_def split: if_splits)
qed

lemma dropWhile_sorted:
  "sorted xs \<Longrightarrow> dropWhile (\<lambda>x. t - x > w) xs = filter (\<lambda>x. t - x \<le> (w::real)) xs"
proof (induction xs)
  case Nil
  then show ?case by simp
next
  case (Cons x xs)
  show ?case
  proof (cases "t - x > w")
    case True
    with Cons show ?thesis by simp
  next
    case False
    with Cons.prems have "filter (\<lambda>x. t - x \<le> w) (x # xs) = x # xs"
      by (intro filter_True) auto
    with False show ?thesis by simp
  qed
qed

lemma map_of_filter_live:
  "distinct (keys d) \<Longrightarrow> map_of (filter (\<lambda>(_, u). \<not> u \<le> now) d) k = Some e \<longleftrightarrow>
     map_of d k = Some e \<and> \<not> e \<le> (now :: real)"
proof (induction d)
  case Nil
  then show ?case by simp
next
  case (Cons x d)
  obtain j u where x: "x = (j, u)" by (cases x)
  have "map_of d k = None \<and> map_of (filter (\<lambda>(_, u). \<not> u \<le> now) d) k = None" if "k = j"
    using Cons.prems that x by (force simp: map_of_eq_None_iff)
  with Cons x show ?case by auto
qed

lemma known_failures_after:
  "known_failures (record_failure k t rl) j =
     (if j = k
      then let r = dropWhile (\<lambda>x. t - x > window_seconds rl) (known_failures rl k @ [t])
           in if int (length r) \<ge> max_attempts rl then [] else r
      else known_failures rl j)"
  by (simp add: record_failure_def known_failures_def Let_def log_event_def map_of_dict_update)

lemma mem_failure:
  assumes "mem_repr p now rl A" and "now \<le> t"
  shows "mem_repr p t (record_failure k t rl) (snd (spec_limit p (Failure k t) A))"
proof -
  let ?h = "known_failures rl" and ?r = "in_window p t (known_failures rl k @ [t])"
  have conf: "configured p rl" and tr: "tracks p now ?h (map_of (blocked_until rl)) A"
    and srt: "\<And>j. sorted (?h j)" and le: "\<And>j x. x \<in> set (?h j) \<Longrightarrow> x \<le> t"
    using assms by (auto simp: mem_repr_def intro: order_trans)
  have "sorted (?h k @ [t])"
    using srt le by (simp add: sorted_append)
  then have r: "dropWhile (\<lambda>x. t - x > window_seconds rl) (?h k @ [t]) = ?r"
    using conf by (simp add: dropWhile_sorted in_window_def configured_def)
  let ?trip = "int (length ?r) \<ge> max_attempts rl"
  have h': "known_failures (record_failure k t rl) j = (if j = k then if ?trip then [] else ?r else ?h j)" for j
    by (simp add: known_failures_after r Let_def)
  have u': "map_of (blocked_until (record_failure k t rl)) =
      (if ?trip then (map_of (blocked_until rl))(k \<mapsto> t + cooldown_seconds rl) else map_of (blocked_until rl))"
    using r by (simp add: record_failure_def known_failures_def Let_def log_event_def map_of_dict_update)
  have "tracks p t (known_failures (record_failure k t rl)) (map_of (blocked_until (record_failure k t rl)))
      (snd (spec_limit p (Failure k t) A))"
    using tr assms(2) refl
    by (rule tracks_failure [where trip = ?trip])
      (use conf in \<open>auto simp: h' u' in_window_def configured_def\<close>)
  moreover have "configured p (record_failure k t rl)"
    using conf by (simp add: configured_def record_failure_def Let_def log_event_def)
  moreover have "sorted ?r"
    using sorted_filter [of "\<lambda>x. x" "?h k @ [t]" "\<lambda>x. t - x \<le> limit_window p"] \<open>sorted (?h k @ [t])\<close>
    unfolding in_window_def list.map_ident by blast
  moreover have "set ?r \<subseteq> insert t (set (?h k))"
    by (auto simp: in_window_def)
  then have "\<forall>x \<in> set ?r. x \<le> t"
    using le by blast
  ultimately show ?thesis
    using srt le by (simp add: mem_repr_def h')
qed


lemma stamps_fresh: "stamps k (filter (\<lambda>(_, ts). \<not> ts < t - w) rows) = filter (\<lambda>ts. t - ts \<le> w) (stamps k rows)"
  by (induction rows) (auto simp: stamps_def)

lemma stamps_without: "stamps j (filter (\<lambda>(k', _). k' \<noteq> k) rows) = (if j = k then [] else stamps j rows)"
  by (induction rows) (auto simp: stamps_def)

lemma stamps_append: "stamps j (xs @ [(k, t)]) = (if j = k then stamps j xs @ [t] else stamps j xs)"
  by (simp add: stamps_def)

lemma count_stamps: "length (filter (\<lambda>(k', _). k' = k) rows) = length (stamps k rows)"
  by (simp add: stamps_def)

lemmas stamps_simps = stamps_fresh stamps_without stamps_append count_stamps

lemma sql_failure:
  assumes "sql_repr p now db A" and "now \<le> t"
  shows "sql_repr p t (sql_record_failure k t db) (snd (spec_limit p (Failure k t) A))"
proof -
  let ?r = "in_window p t (rows_of db k @ [t])"
  have conf: "configured p db" and tr: "tracks p now (rows_of db) (map_of (blocks db)) A"
    and dist: "distinct (keys (blocks db))"
    using assms(1) by (simp_all add: sql_repr_def)
  have w: "window_seconds db = limit_window p"
    using conf by (simp add: configured_def)
  let ?trip = "int (length ?r) \<ge> max_attempts db" and ?live = "filter (\<lambda>(_, until). \<not> until \<le> t) (blocks db)"
  have db': "sql_record_failure k t db =
      (let db1 = db\<lparr>attempts := filter (\<lambda>(_, ts). \<not> ts < t - limit_window p) (attempts db @ [(k, t)]),
                    blocks := ?live\<rparr>
       in if ?trip
          then log_event (rate_limit_event k (length ?r) db)
                 (db1\<lparr>attempts := filter (\<lambda>(k', _). k' \<noteq> k) (attempts db1),
                      blocks := AList.update k (t + cooldown_seconds db) ?live\<rparr>)
          else db1)"
    unfolding sql_record_failure_def Let_def count_stamps stamps_fresh w
    by (simp add: stamps_append rows_of_def in_window_def del: filter_append)
  have h': "rows_of (sql_record_failure k t db) j =
      (if j = k then if ?trip then [] else ?r else in_window p t (rows_of db j))" for j
    by (simp add: db' Let_def rows_of_def log_event_def stamps_simps in_window_def del: filter_append filter_filter)
  have live: "map_of ?live j = Some e \<longleftrightarrow> map_of (blocks db) j = Some e \<and> \<not> e \<le> t" for j e
    using dist by (rule map_of_filter_live)
  have u': "blocks (sql_record_failure k t db) =
      (if ?trip then AList.update k (t + cooldown_seconds db) ?live else ?live)"
    by (simp add: db' Let_def log_event_def)
  have "map_of (blocks (sql_record_failure k t db)) j = Some e \<longleftrightarrow>
      (if j = k \<and> ?trip then Some (t + limit_cooldown p) else map_of (blocks db) j) = Some e" if "e > t" for j e
    unfolding u' using conf live [of j e] that
    by (simp add: map_of_dict_update configured_def del: map_of_eq_Some_iff)
  then have "tracks p t (rows_of (sql_record_failure k t db)) (map_of (blocks (sql_record_failure k t db)))
      (snd (spec_limit p (Failure k t) A))"
    using conf
    by (intro tracks_failure [OF tr assms(2) refl, where trip = ?trip])
      (auto simp: h' in_window_def configured_def)
  moreover have "configured p (sql_record_failure k t db)"
    using conf by (simp add: configured_def db' Let_def log_event_def)
  moreover have "distinct (keys ?live)"
    using dist by (rule distinct_map_filter)
  then have "distinct (keys (blocks (sql_record_failure k t db)))"
    by (simp add: u' AList.distinct_update)
  ultimately show ?thesis
    by (simp add: sql_repr_def)
qed


lemma mem_success:
  assumes "mem_repr p now rl A"
  shows "mem_repr p now (record_success k rl) (A(k := clean))"
proof -
  have h: "known_failures (record_success k rl) = (known_failures rl)(k := [])"
    by (auto simp: known_failures_def record_success_def map_of_dict_delete)
  have "map_of (blocked_until (record_success k rl)) = (map_of (blocked_until rl))(k := None)"
    by (simp add: record_success_def map_of_dict_delete)
  with assms h tracks_success [of p now "known_failures rl"] show ?thesis
    by (simp add: mem_repr_def configured_def) (simp add: record_success_def)
qed

lemma sql_success:
  assumes "sql_repr p now db A"
  shows "sql_repr p now (sql_record_success k db) (A(k := clean))"
proof -
  have h: "rows_of (sql_record_success k db) = (rows_of db)(k := [])"
    by (auto simp: rows_of_def sql_record_success_def stamps_without)
  have "map_of (blocks (sql_record_success k db)) = (map_of (blocks db))(k := None)"
    by (simp add: sql_record_success_def map_of_dict_delete)
  with assms h tracks_success [of p now "rows_of db"] show ?thesis
    by (simp add: sql_repr_def configured_def AList.distinct_delete) (simp add: sql_record_success_def AList.distinct_delete)
qed

text \<open>The block table of either limiter, queried, and an expired entry dropped.\<close>

lemma block_query:
  assumes "tracks p t h (map_of d) A"
  shows "(case map_of d k of None \<Rightarrow> False | Some u \<Rightarrow> t < u) = still_blocked t (ends (A k))"
    and "(case map_of d k of None \<Rightarrow> 0 | Some u \<Rightarrow> if t \<ge> u then 0 else u - t) =
      (if still_blocked t (ends (A k)) then the (ends (A k)) - t else 0)"
  using tracks_blocked [OF assms order_refl, of k] tracks_ends [OF assms order_refl, of k]
  by (auto simp: still_blocked_def split: option.splits)

interpretation mem: throttle limit mem_repr
proof
  fix p now rl A c
  assume repr: "mem_repr p now rl A" and mono: "now \<le> clock now c"
  have later: "mem_repr p t rl A" if "now \<le> t" for t
    using repr that by (auto simp: mem_repr_def intro: tracks_later order_trans)
  show "fst (limit c rl) = fst (spec_limit p c A) \<and>
    mem_repr p (clock now c) (snd (limit c rl)) (snd (spec_limit p c A))"
  proof (cases c)
    case (Is_Blocked k t)
    with mono have t: "mem_repr p t rl A" by (simp add: later)
    then have tr: "tracks p t (known_failures rl) (map_of (blocked_until rl)) A"
      by (simp add: mem_repr_def)
    have ans: "fst (is_blocked k t rl) = still_blocked t (ends (A k))"
      unfolding block_query(1) [OF tr, symmetric] by (simp add: is_blocked_def not_le split: option.split)
    have "mem_repr p t (snd (is_blocked k t rl)) A"
    proof (cases "snd (is_blocked k t rl) = rl")
      case True
      with t show ?thesis by simp
    next
      case False
      then have del: "snd (is_blocked k t rl) = rl\<lparr>blocked_until := AList.delete k (blocked_until rl)\<rparr>"
        and off: "\<not> still_blocked t (map_of (blocked_until rl) k)"
        by (auto simp: is_blocked_def still_blocked_def split: option.splits if_splits)
      have known: "known_failures (rl\<lparr>blocked_until := AList.delete k (blocked_until rl)\<rparr>) = known_failures rl"
        by (simp add: fun_eq_iff known_failures_def)
      from t tracks_forget [OF tr off] show ?thesis
        unfolding del by (simp add: known mem_repr_def configured_def map_of_dict_delete)
    qed
    with Is_Blocked ans show ?thesis by simp
  next
    case (Seconds_Until k t)
    with mono have t: "mem_repr p t rl A" by (simp add: later)
    then have tr: "tracks p t (known_failures rl) (map_of (blocked_until rl)) A"
      by (simp add: mem_repr_def)
    from block_query(2) [OF tr] have "seconds_until_unblocked k t rl =
        (if still_blocked t (ends (A k)) then the (ends (A k)) - t else 0)"
      by (simp add: seconds_until_unblocked_def)
    with Seconds_Until t show ?thesis by simp
  next
    case (Failure k t)
    with repr mono mem_failure [of p now rl A t k] show ?thesis by (simp add: Let_def)
  next
    case (Success k)
    with repr mem_success show ?thesis by simp
  qed
qed

interpretation db: throttle sql_limit sql_repr
proof
  fix p now db A c
  assume repr: "sql_repr p now db A" and mono: "now \<le> clock now c"
  have later: "sql_repr p t db A" if "now \<le> t" for t
    using repr that by (auto simp: sql_repr_def intro: tracks_later)
  show "fst (sql_limit c db) = fst (spec_limit p c A) \<and>
    sql_repr p (clock now c) (snd (sql_limit c db)) (snd (spec_limit p c A))"
  proof (cases c)
    case (Is_Blocked k t)
    with mono have t: "sql_repr p t db A" by (simp add: later)
    then have tr: "tracks p t (rows_of db) (map_of (blocks db)) A"
      by (simp add: sql_repr_def)
    have ans: "fst (sql_is_blocked k t db) = still_blocked t (ends (A k))"
      unfolding block_query(1) [OF tr, symmetric] by (simp add: sql_is_blocked_def not_le split: option.split)
    have "sql_repr p t (snd (sql_is_blocked k t db)) A"
    proof (cases "snd (sql_is_blocked k t db) = db")
      case True
      with t show ?thesis by simp
    next
      case False
      then have del: "snd (sql_is_blocked k t db) = db\<lparr>blocks := AList.delete k (blocks db)\<rparr>"
        and off: "\<not> still_blocked t (map_of (blocks db) k)"
        by (auto simp: sql_is_blocked_def still_blocked_def split: option.splits if_splits)
      have rows: "rows_of (db\<lparr>blocks := AList.delete k (blocks db)\<rparr>) = rows_of db"
        by (simp add: fun_eq_iff rows_of_def)
      from t tracks_forget [OF tr off] show ?thesis
        unfolding del by (simp add: rows sql_repr_def configured_def map_of_dict_delete AList.distinct_delete)
    qed
    with Is_Blocked ans show ?thesis by simp
  next
    case (Seconds_Until k t)
    with mono have t: "sql_repr p t db A" by (simp add: later)
    then have tr: "tracks p t (rows_of db) (map_of (blocks db)) A"
      by (simp add: sql_repr_def)
    from block_query(2) [OF tr] have "sql_seconds_until_unblocked k t db =
        (if still_blocked t (ends (A k)) then the (ends (A k)) - t else 0)"
      by (simp add: sql_seconds_until_unblocked_def)
    with Seconds_Until t show ?thesis by simp
  next
    case (Failure k t)
    with repr mono sql_failure [of p now db A t k] show ?thesis by (simp add: Let_def)
  next
    case (Success k)
    with repr sql_success show ?thesis by simp
  qed
qed


section \<open>What a caller gets\<close>

lemma fresh_limiters_repr:
  "mem_repr \<lparr>limit_attempts = m, limit_window = w, limit_cooldown = c\<rparr> now (new_rate_limiter m w c) (\<lambda>_. clean)"
  "sql_repr \<lparr>limit_attempts = m, limit_window = w, limit_cooldown = c\<rparr> now (new_sqlite_limiter m w c) (\<lambda>_. clean)"
  by (auto simp: mem_repr_def sql_repr_def new_rate_limiter_def new_sqlite_limiter_def configured_def
      tracks_def known_failures_def rows_of_def stamps_def in_window_def clean_def)

lemma run_limiter_append:
  "run_limiter f (cs @ ds) s =
     (fst (run_limiter f cs s) @ fst (run_limiter f ds (snd (run_limiter f cs s))),
      snd (run_limiter f ds (snd (run_limiter f cs s))))"
  by (induction cs arbitrary: s) (simp_all add: split_beta)

text \<open>The calls about one key decide its track.\<close>

definition track_after :: "throttle_params \<Rightarrow> limiter_call list \<Rightarrow> track \<Rightarrow> track" where
  "track_after p cs x = fold (\<lambda>c x. snd (spec_call p c x)) cs x"

lemma spec_run_key:
  "snd (run_limiter (spec_limit p) cs A) k = track_after p (filter (\<lambda>c. key_of c = k) cs) (A k)"
  by (induction cs arbitrary: A) (simp_all add: track_after_def split_beta)

lemma forward_clock_earlier: "forward_clock now cs \<Longrightarrow> t \<le> now \<Longrightarrow> forward_clock t cs"
proof (induction cs arbitrary: now t)
  case Nil
  then show ?case by simp
next
  case (Cons c cs)
  then show ?case by (cases c) auto
qed

lemma forward_clock_filter: "forward_clock now cs \<Longrightarrow> forward_clock now (filter P cs)"
proof (induction cs arbitrary: now)
  case Nil
  then show ?case by simp
next
  case (Cons c cs)
  then show ?case using forward_clock_earlier by (cases c) auto
qed

lemma forward_clock_append: "forward_clock now (cs @ ds) \<Longrightarrow> \<exists>t. forward_clock t ds"
  by (induction cs arbitrary: now) auto

lemma forward_failures: "forward_clock now (map (Failure k) ts) \<Longrightarrow> sorted ts \<and> (\<forall>t \<in> set ts. now \<le> t)"
  by (induction ts arbitrary: now) (fastforce intro: order_trans)+

lemma failures_sorted:
  assumes "forward_clock now cs" and "filter P cs = pre @ map (Failure k) ts"
  shows "sorted ts"
  using forward_clock_filter [OF assms(1), of P] assms(2) forward_clock_append forward_failures by metis

lemma track_of_streak:
  assumes "sorted ts" and "\<And>t. t \<in> set ts \<Longrightarrow> t - hd ts \<le> limit_window p"
    and "ts \<noteq> []" and "int (length ts) \<le> limit_attempts p"
  shows "track_after p (map (Failure k) ts) clean =
    (if int (length ts) = limit_attempts p then \<lparr>recent = [], ends = Some (last ts + limit_cooldown p)\<rparr>
     else \<lparr>recent = ts, ends = None\<rparr>)"
  using assms
proof (induction ts rule: rev_induct)
  case Nil
  then show ?case by simp
next
  case (snoc t ts)
  have before: "track_after p (map (Failure k) ts) clean = \<lparr>recent = ts, ends = None\<rparr>"
  proof (cases "ts = []")
    case True
    then show ?thesis by (simp add: track_after_def clean_def)
  next
    case False
    with snoc show ?thesis by (auto simp: sorted_append)
  qed
  have low: "hd (ts @ [t]) \<le> x" if "x \<in> set (ts @ [t])" for x
    using snoc.prems(1) that by (cases "ts @ [t]") auto
  have last_ok: "t - hd (ts @ [t]) \<le> limit_window p"
    using snoc.prems(2) by simp
  have "t - x \<le> limit_window p" if "x \<in> set (ts @ [t])" for x
    using low [OF that] last_ok by linarith
  then have "in_window p t (ts @ [t]) = ts @ [t]"
    unfolding in_window_def by (intro filter_True) blast
  moreover have "track_after p (map (Failure k) (ts @ [t])) clean =
      snd (spec_call p (Failure k t) (track_after p (map (Failure k) ts) clean))"
    by (simp add: track_after_def)
  ultimately show ?case
    using snoc.prems(4) by (simp add: before Let_def)
qed

text \<open>
  The verdict on a key after failures that fall into one window: nothing another key does
  matters, and what happened before a success does not either.
\<close>

lemma spec_streak:
  assumes "forward_clock now cs" and "filter (\<lambda>c. key_of c = k) cs = pre @ map (Failure k) ts"
    and "pre = [] \<or> last pre = Success k"
    and "ts \<noteq> []" and "last ts - hd ts \<le> limit_window p" and "int (length ts) \<le> limit_attempts p"
  shows "fst (spec_limit p (Is_Blocked k t) (snd (run_limiter (spec_limit p) cs (\<lambda>_. clean)))) =
    Blocked (int (length ts) = limit_attempts p \<and> t < last ts + limit_cooldown p)"
proof -
  have sorted: "sorted ts"
    using assms(1,2) by (rule failures_sorted)
  have "t' \<le> last ts" if "t' \<in> set ts" for t'
  proof -
    from that obtain i where i: "i < length ts" "ts ! i = t'"
      by (auto simp: in_set_conv_nth)
    then have "ts ! i \<le> ts ! (length ts - 1)"
      by (intro sorted_nth_mono [OF sorted]) auto
    with i assms(4) show ?thesis by (simp add: last_conv_nth)
  qed
  then have "t' - hd ts \<le> limit_window p" if "t' \<in> set ts" for t'
    using that assms(5) by fastforce
  note streak = track_of_streak [OF sorted this assms(4,6), of k]
  have "track_after p pre clean = clean"
  proof (cases pre rule: rev_cases)
    case Nil
    then show ?thesis by (simp add: track_after_def)
  next
    case (snoc us c)
    with assms(3) show ?thesis by (simp add: track_after_def)
  qed
  then have "snd (run_limiter (spec_limit p) cs (\<lambda>_. clean)) k = track_after p (map (Failure k) ts) clean"
    by (simp add: spec_run_key assms(2)) (simp add: track_after_def)
  then show ?thesis
    by (simp add: streak still_blocked_def)
qed

section \<open>The size of the database\<close>

lemma AList_update_sub: "x \<in> set (AList.update k v d) \<Longrightarrow> x \<in> set d \<or> x = (k, v)"
  by (induction d) (auto split: if_splits)

lemma sql_failure_swept:
  "(k, ts) \<in> set (attempts (sql_record_failure key now db)) \<Longrightarrow> now - window_seconds db \<le> ts"
  "0 < cooldown_seconds db \<Longrightarrow> (k, u) \<in> set (blocks (sql_record_failure key now db)) \<Longrightarrow> now < u"
  by (auto simp: sql_record_failure_def Let_def log_event_def dest!: AList_update_sub split: if_splits)

definition rows_bounded :: "sqlite_limiter \<Rightarrow> bool" where
  "rows_bounded db \<longleftrightarrow> distinct (keys (blocks db)) \<and>
     (\<forall>k. int (length (stamps k (attempts db))) < max_attempts db)"

lemma length_stamps_filter: "length (stamps k (filter P rows)) \<le> length (stamps k rows)"
  by (induction rows) (auto simp: stamps_def)

lemma rows_bounded_positive:
  assumes "rows_bounded db"
  shows "0 < max_attempts db"
proof -
  have "int (length (stamps '''' (attempts db))) < max_attempts db"
    using assms by (simp add: rows_bounded_def)
  then show ?thesis by linarith
qed

lemma sql_limit_bounded:
  assumes "rows_bounded db"
  shows "rows_bounded (snd (sql_limit c db)) \<and> max_attempts (snd (sql_limit c db)) = max_attempts db"
proof (cases c)
  case (Failure k t)
  let ?rows = "filter (\<lambda>(_, ts). \<not> ts < t - window_seconds db) (attempts db @ [(k, t)])"
  have other: "int (length (stamps j ?rows)) < max_attempts db" if "j \<noteq> k" for j
  proof -
    have "length (stamps j ?rows) \<le> length (stamps j (attempts db @ [(k, t)]))"
      by (rule length_stamps_filter)
    also have "\<dots> = length (stamps j (attempts db))"
      using that by (simp add: stamps_append)
    finally have "length (stamps j ?rows) \<le> length (stamps j (attempts db))" .
    moreover have "int (length (stamps j (attempts db))) < max_attempts db"
      using assms by (simp add: rows_bounded_def)
    ultimately show ?thesis by linarith
  qed
  have "0 < max_attempts db"
    using assms by (rule rows_bounded_positive)
  then have "int (length (stamps j (filter (\<lambda>(k', _). k' \<noteq> k) ?rows))) < max_attempts db" for j
    using other [of j] by (simp add: stamps_without del: filter_append filter_filter)
  moreover have "distinct (keys (filter (\<lambda>(_, until). \<not> until \<le> t) (blocks db)))"
    using assms by (simp add: rows_bounded_def distinct_map_filter)
  moreover have "int (length (stamps j ?rows)) < max_attempts db" if "int (length (stamps k ?rows)) < max_attempts db" for j
    using that other by (cases "j = k") auto
  ultimately show ?thesis
    using Failure
    by (auto simp: rows_bounded_def sql_record_failure_def Let_def log_event_def count_stamps not_le
        AList.distinct_update simp del: filter_append filter_filter)
next
  case (Success k)
  have "0 < max_attempts db"
    using assms by (rule rows_bounded_positive)
  with assms Success show ?thesis
    by (simp add: rows_bounded_def sql_record_success_def stamps_without AList.distinct_delete)
next
  case (Is_Blocked k t)
  with assms show ?thesis
    by (auto simp: rows_bounded_def sql_is_blocked_def AList.distinct_delete split: option.splits)
next
  case (Seconds_Until k t)
  with assms show ?thesis by simp
qed

lemma sql_run_bounded:
  "rows_bounded db \<Longrightarrow> rows_bounded (snd (run_limiter sql_limit cs db)) \<and>
     max_attempts (snd (run_limiter sql_limit cs db)) = max_attempts db"
proof (induction cs arbitrary: db)
  case Nil
  then show ?case by simp
next
  case (Cons c cs)
  with sql_limit_bounded [of db c] show ?case
    by (simp add: split_beta)
qed

lemma sql_limit_config:
  "window_seconds (snd (sql_limit c db)) = window_seconds db" "cooldown_seconds (snd (sql_limit c db)) = cooldown_seconds db"
  by (cases c; simp add: sql_is_blocked_def sql_record_failure_def sql_record_success_def log_event_def Let_def
      split: option.split)+

lemma sql_run_config:
  "window_seconds (snd (run_limiter sql_limit cs db)) = window_seconds db \<and>
   cooldown_seconds (snd (run_limiter sql_limit cs db)) = cooldown_seconds db"
  by (induction cs arbitrary: db) (simp_all add: split_beta sql_limit_config)

end
