(* ===== verification/Endpoint.thy ===== *)
theory Endpoint
  imports Handshake Transport Rate_Limiter
begin

text \<open>
  What \<open>server.py\<close> and \<open>client.py\<close> have in common: the command-line start of an identity, the
  introduction, the state a connection works on and the sequencing of its steps. Everything
  that comes from outside is an argument: the pieces the socket delivers, the answers of the
  human, the keys and clock readings a call draws. What is printed is a list, by content.
\<close>

section \<open>Starting with an identity\<close>

text \<open>\<open>sys.exit(1)\<close> is not an error of the program: it is an outcome of its own.\<close>

datatype startup = Ready identity | Exited | Raised exn

record console =
  use_pass :: string
  passphrases :: "string list"

text \<open>Up to three passphrases, the loop over \<open>range(3)\<close>; no more input is an \<open>EOFError\<close>.\<close>

fun try_passphrases ::
    "cryptolib \<Rightarrow> pemlib \<Rightarrow> string \<Rightarrow> string \<Rightarrow> files \<Rightarrow> nat \<Rightarrow> string list \<Rightarrow> startup" where
  "try_passphrases L P name dir fs 0 ps = Exited"
| "try_passphrases L P name dir fs (Suc n) ps =
     (case ps of
        [] \<Rightarrow> Raised EOFError
      | p # rest \<Rightarrow>
          (case load_identity L P name dir (Some p) fs of
             Inr me \<Rightarrow> Ready me
           | Inl e \<Rightarrow> if is_value_error e then try_passphrases L P name dir fs n rest else Raised e))"

definition KEY_DIR :: string where
  "KEY_DIR = ''./demo_keys''"

definition load_or_create_identity ::
    "cryptolib \<Rightarrow> pemlib \<Rightarrow> string \<Rightarrow> string \<Rightarrow> console \<Rightarrow> bytes \<Rightarrow> files \<Rightarrow> startup \<times> files" where
  "load_or_create_identity L P name dir con priv fs =
     (case fs (key_path dir name) of
        None \<Rightarrow>
          (let me = new_identity L name priv;
               ready = (\<lambda>p. (Ready me, save_identity P me dir p fs))
           in if lower (strip (use_pass con)) = ''n'' then ready None
              else case passphrases con of
                passphrase # confirm # _ \<Rightarrow>
                  if passphrase \<noteq> confirm then (Exited, fs) else ready (truthy (Some passphrase))
              | _ \<Rightarrow> (Raised EOFError, fs))
      | Some _ \<Rightarrow>
          (case is_encrypted P name dir fs of
             Inl e \<Rightarrow> Raised e
           | Inr True \<Rightarrow> try_passphrases L P name dir fs 3 (passphrases con)
           | Inr False \<Rightarrow> (case load_identity L P name dir None fs of Inl e \<Rightarrow> Raised e | Inr me \<Rightarrow> Ready me), fs))"

section \<open>The introduction\<close>

definition introduction :: "identity \<Rightarrow> json" where
  "introduction me = JObj [(''name'', JStr (id_name me)), (''identity_pub'', JStr (hex (public_bytes me)))]"

definition parse_introduction :: "json \<Rightarrow> exn + json \<times> bytes" where
  "parse_introduction intro =
     bind_exn (json_get ''name'' intro) (\<lambda>name.
     bind_exn (json_hex_field ''identity_pub'' intro) (\<lambda>pub. Inr (name, pub)))"

section \<open>A connection\<close>

text \<open>What is shown during a connection.\<close>

datatype shown_line = Dialogue line | Message json string | Alert exn | Handshake_Complete

text \<open>
  The process's objects, and the socket of the connection. \<open>x_log\<close> holds the events of the
  handshake functions; the other objects record their own.
\<close>

record exchange =
  x_me :: identity
  x_trust :: trust_store
  x_limiter :: sqlite_limiter
  x_files :: files
  x_sock :: socket
  x_log :: "event list"
  x_shown :: "shown_line list"
  x_channel :: "channel option"

type_synonym ('s, 'a) stepper = "'s \<Rightarrow> (exn + 'a) \<times> 's"
type_synonym 'a step = "(exchange, 'a) stepper"

definition and_next :: "('s, 'a) stepper \<Rightarrow> ('a \<Rightarrow> ('s, 'b) stepper) \<Rightarrow> ('s, 'b) stepper" where
  "and_next m f x = (case m x of (Inl e, x') \<Rightarrow> (Inl e, x') | (Inr a, x') \<Rightarrow> f a x')"

definition on_sock :: "(socket \<Rightarrow> (exn + 'a) \<times> socket) \<Rightarrow> 'a step" where
  "on_sock f x = (let (r, s) = f (x_sock x) in (r, x\<lparr>x_sock := s\<rparr>))"

definition pure :: "exn + 'a \<Rightarrow> ('s, 'a) stepper" where
  "pure r x = (r, x)"

definition show_line :: "shown_line \<Rightarrow> exchange \<Rightarrow> exchange" where
  "show_line l x = x\<lparr>x_shown := x_shown x @ [l]\<rparr>"

text \<open>\<open>from_wire(recv_json(sock))\<close>.\<close>

definition recv_message :: "(json \<Rightarrow> exn + 'a) \<Rightarrow> 'a step" where
  "recv_message from_wire = and_next (on_sock recv_json) (\<lambda>v. pure (from_wire v))"

definition send_introduction :: "unit step" where
  "send_introduction x = on_sock (send_json (introduction (x_me x))) x"

text \<open>\<open>verify_and_pin_interactive\<close> on the process's store, with the file it is saved to.\<close>

definition ask_and_pin :: "cryptolib \<Rightarrow> string \<Rightarrow> string \<Rightarrow> json \<Rightarrow> bytes \<Rightarrow> (bool \<times> bool) step" where
  "ask_and_pin L trust_path answer name pub x =
     (let (d, ts) = verify_and_pin_of_wire L name pub answer (x_trust x)
      in (verdict d,
          x\<lparr>x_trust := ts,
            x_files := (if saved d then save_store ts trust_path (x_files x) else x_files x),
            x_shown := x_shown x @ map Dialogue (shown d)\<rparr>))"

definition is_alert :: "exn \<Rightarrow> bool" where
  "is_alert e = (case e of ReplayError _ \<Rightarrow> True | TamperError _ \<Rightarrow> True | _ \<Rightarrow> False)"

definition is_quit :: "string \<Rightarrow> bool" where
  "is_quit text = (lower (strip text) = ''/quit'')"

text \<open>\<open>channel.encrypt\<close> of a text and the frame on its way.\<close>

definition send_text :: "cryptolib \<Rightarrow> send_env \<Rightarrow> string \<Rightarrow> channel \<Rightarrow> channel step" where
  "send_text L env text ch x =
     (case encode_utf8 text of
        Inl e \<Rightarrow> (Inl e, x)
      | Inr b \<Rightarrow>
          (case encrypt L env b ch of
             (Inl e, ch') \<Rightarrow> (Inl e, x\<lparr>x_channel := Some ch'\<rparr>)
           | (Inr framed, ch') \<Rightarrow>
               and_next (on_sock (send_bytes framed)) (\<lambda>_. pure (Inr ch')) (x\<lparr>x_channel := Some ch'\<rparr>)))"

section \<open>Reading consumes the stream\<close>

lemma send_text_incoming:
  "send_text L env text ch x = (r, x') \<Longrightarrow> incoming (x_sock x') = incoming (x_sock x)"
  by (auto simp: send_text_def and_next_def on_sock_def pure_def send_bytes_def sendall_def Let_def
      split: sum.splits prod.splits if_splits)

lemma recv_concat: "recv n ps = (chunk, ps') \<Longrightarrow> concat ps = chunk @ concat ps'"
  by (auto simp: recv_def split: list.splits if_splits)

lemma recv_loop_consumes:
  "recv_loop n buf ps = (Inr out, ps') \<Longrightarrow> n \<le> length out \<and> length out + length (concat ps') = length buf + length (concat ps)"
proof (induction n buf ps rule: recv_loop.induct)
  case (1 n buf ps)
  obtain chunk ps1 where r: "recv (n - length buf) ps = (chunk, ps1)"
    by (cases "recv (n - length buf) ps")
  show ?case
  proof (cases "length buf < n \<and> chunk \<noteq> []")
    case True
    with 1(2) r have "recv_loop n (buf @ chunk) ps1 = (Inr out, ps')"
      by (simp add: recv_loop.simps [of n buf])
    with 1(1) [OF _ r [symmetric] refl] True recv_concat [OF r] show ?thesis by auto
  next
    case False
    with 1(2) r show ?thesis
      by (auto simp: recv_loop.simps [of n buf] split: if_splits)
  qed
qed

lemma recv_bytes_consumes:
  assumes "recv_bytes sock = (Inr data, sock')"
  shows "length (arriving sock') < length (arriving sock)"
proof -
  obtain r sock1 where h: "recv_exact HEADER_SIZE sock = (r, sock1)"
    by (cases "recv_exact HEADER_SIZE sock")
  with assms obtain header where r: "r = Inr header"
    by (cases r) (auto simp: recv_bytes_def)
  have "length (arriving sock1) < length (arriving sock)"
    using recv_loop_consumes [of HEADER_SIZE "[]" "incoming sock" header "incoming sock1"] h r
    by (auto simp: recv_exact_def HEADER_SIZE_def map_sum_Inr split: prod.splits)
  moreover from assms h r have "recv_exact (from_bytes header) sock1 = (Inr data, sock')"
    by (auto simp: recv_bytes_def Let_def split: if_splits)
  then have "length (arriving sock') \<le> length (arriving sock1)"
    using recv_loop_consumes [of "from_bytes header" "[]" "incoming sock1" data "incoming sock'"]
    by (auto simp: recv_exact_def map_sum_Inr split: prod.splits)
  ultimately show ?thesis by simp
qed

lemma and_next_cases:
  assumes "and_next m f x = (r, x')"
  obtains e where "m x = (Inl e, x')" "r = Inl e"
  | a y where "m x = (Inr a, y)" "f a y = (r, x')"
  using assms by (auto simp: and_next_def split: prod.splits sum.splits)

section \<open>The chat loop\<close>

text \<open>
  \<open>while True\<close>: a round ends with an exception, a \<open>break\<close> or the state of the next one. A
  round that read no frame ends the loop, so the stream gets shorter in every other round;
  the test in front of the recursive call says so, and \<open>shorter\<close> below that it never fails.
\<close>

function chat_loop :: "('s \<Rightarrow> 's option step) \<Rightarrow> 's \<Rightarrow> unit step" where
  "chat_loop turn st x =
     (case turn st x of
        (Inl e, x') \<Rightarrow> (Inl e, x')
      | (Inr None, x') \<Rightarrow> (Inr (), x')
      | (Inr (Some st'), x') \<Rightarrow>
          if length (arriving (x_sock x')) < length (arriving (x_sock x)) then chat_loop turn st' x'
          else (Inl ConnectionError, x'))"
  by pat_completeness auto
termination
  by (relation "measure (\<lambda>(turn, st, x). length (arriving (x_sock x)))") auto

declare chat_loop.simps [simp del]

text \<open>A round that goes on has read a frame.\<close>

definition reads_frame :: "('s \<Rightarrow> 's option step) \<Rightarrow> bool" where
  "reads_frame turn \<longleftrightarrow>
     (\<forall>st x st' x'. turn st x = (Inr (Some st'), x') \<longrightarrow>
        length (arriving (x_sock x')) < length (arriving (x_sock x)))"

lemma chat_loop_unfold:
  assumes "reads_frame turn"
  shows "chat_loop turn st x =
    (case turn st x of
       (Inl e, x') \<Rightarrow> (Inl e, x')
     | (Inr None, x') \<Rightarrow> (Inr (), x')
     | (Inr (Some st'), x') \<Rightarrow> chat_loop turn st' x')"
  using assms
  by (auto simp: chat_loop.simps [of turn st] reads_frame_def split: prod.splits sum.splits option.splits)

lemma recv_frame_consumes:
  "on_sock recv_bytes x = (Inr framed, x') \<Longrightarrow> length (arriving (x_sock x')) < length (arriving (x_sock x))"
  by (auto simp: on_sock_def split: prod.splits dest: recv_bytes_consumes)

end
