(* ===== verification/Client.thy ===== *)
theory Client
  imports Endpoint
begin

text \<open>
  \<open>client.py\<close>: the initiator's side of one connection: the introduction goes out first, then
  the peer's comes in; the chat starts with the human's text. The peer's first frame, the
  human's answers and texts and the drawn key are arguments.
\<close>

definition client_trust_path :: string where
  "client_trust_path = KEY_DIR @ ''/alice_trust.json''"

record dial =
  d_answer :: string
  d_eph :: bytes
  d_joined :: real
  d_texts :: "(string \<times> send_env) list"

definition initiator_step ::
    "cryptolib \<Rightarrow> initiator_state \<Rightarrow> handshake_message2 \<Rightarrow> real \<Rightarrow> (handshake_message3 \<times> channel) step" where
  "initiator_step L st msg2 now x =
     (let (r, evs) = initiator_finish L (x_me x) (x_trust x) st msg2 now in (r, x\<lparr>x_log := x_log x @ evs\<rparr>))"

text \<open>
  One round of the loop: the text of the human goes out, then a frame is read. A frame that is
  rejected is reported, and the next text is asked for.
\<close>

definition client_round ::
    "cryptolib \<Rightarrow> (string \<times> send_env) list \<times> channel \<Rightarrow> ((string \<times> send_env) list \<times> channel) option step" where
  "client_round L st =
     (case st of
        ([], ch) \<Rightarrow> pure (Inl EOFError)
      | ((text, env) # rest, ch) \<Rightarrow>
          and_next (send_text L env text ch) (\<lambda>ch1.
            if is_quit text then pure (Inr None)
            else and_next (on_sock recv_bytes) (\<lambda>framed x.
              let (r, ch2) = decrypt L framed ch1; x1 = x\<lparr>x_channel := Some ch2\<rparr>
              in case r of
                Inl e \<Rightarrow> if is_alert e then (Inr (Some (rest, ch2)), show_line (Alert e) x1) else (Inl e, x1)
              | Inr plaintext \<Rightarrow>
                  (case decode_utf8 plaintext of
                     Inl e \<Rightarrow> (Inl e, x1)
                   | Inr reply \<Rightarrow>
                       (Inr (if is_quit reply then None else Some (rest, ch2)),
                        show_line (Message (JStr ''bob'') reply) x1)))))"

definition client_chat :: "cryptolib \<Rightarrow> (string \<times> send_env) list \<Rightarrow> channel \<Rightarrow> unit step" where
  "client_chat L texts ch = chat_loop (client_round L) (texts, ch)"

definition client_handshake :: "cryptolib \<Rightarrow> dial \<Rightarrow> unit step" where
  "client_handshake L d x0 =
     (let (msg1, st) = initiator_start L (x_me x0) (d_eph d)
      in and_next (on_sock (send_json (to_wire1 msg1))) (\<lambda>_.
         and_next (recv_message from_wire2) (\<lambda>msg2.
         and_next (initiator_step L st msg2 (d_joined d)) (\<lambda>(msg3, ch) x.
         and_next (on_sock (send_json (to_wire3 msg3))) (\<lambda>_ x.
           client_chat L (d_texts d) ch (show_line Handshake_Complete x)) (x\<lparr>x_channel := Some ch\<rparr>)))) x0)"

definition client_body :: "cryptolib \<Rightarrow> dial \<Rightarrow> unit step" where
  "client_body L d =
     and_next send_introduction (\<lambda>_.
     and_next (recv_message parse_introduction) (\<lambda>(name, pub).
     and_next (ask_and_pin L client_trust_path (d_answer d) name pub) (\<lambda>(trusted, _).
     if \<not> trusted then pure (Inr ()) else client_handshake L d)))"

text \<open>The \<open>except\<close> clauses of \<open>main\<close>: what is left ends the program.\<close>

definition client_session :: "cryptolib \<Rightarrow> dial \<Rightarrow> exchange \<Rightarrow> (exn + unit) \<times> exchange" where
  "client_session L d x =
     (case client_body L d x of
        (Inr _, x') \<Rightarrow> (Inr (), x')
      | (Inl e, x') \<Rightarrow>
          (case e of
             HandshakeError _ \<Rightarrow> (Inr (), x')
           | ConnectionError \<Rightarrow> (Inr (), x')
           | TimeoutError \<Rightarrow> (Inr (), x')
           | OSError \<Rightarrow> (Inr (), x')
           | _ \<Rightarrow> (Inl e, x')))"

text \<open>
  \<open>main\<close>: the identity, the store, the connection (\<open>None\<close>: it is refused, an \<open>OSError\<close>
  outside the \<open>try\<close>) and the session. The limiter of the exchange is the server's, and unused.
\<close>

definition client_load_or_create_identity ::
    "cryptolib \<Rightarrow> pemlib \<Rightarrow> string \<Rightarrow> console \<Rightarrow> bytes \<Rightarrow> files \<Rightarrow> startup \<times> files" where
  "client_load_or_create_identity L P name con priv fs = load_or_create_identity L P name KEY_DIR con priv fs"

definition client_main ::
    "cryptolib \<Rightarrow> pemlib \<Rightarrow> console \<Rightarrow> bytes \<Rightarrow> sqlite_limiter \<Rightarrow> socket option \<Rightarrow> dial \<Rightarrow> files \<Rightarrow>
     startup \<times> (exn + exchange) option \<times> files" where
  "client_main L P con priv db conn d fs =
     (case client_load_or_create_identity L P ''alice'' con priv fs of
        (Ready me, fs1) \<Rightarrow>
          (case load_store client_trust_path fs1 of
             Inl e \<Rightarrow> (Raised e, None, fs1)
           | Inr ts \<Rightarrow>
               (case conn of
                  None \<Rightarrow> (Raised OSError, None, fs1)
                | Some sock \<Rightarrow>
                    (case client_session L d \<lparr>x_me = me, x_trust = ts, x_limiter = db, x_files = fs1, x_sock = sock,
                        x_log = [], x_shown = [], x_channel = None\<rparr> of
                       (Inl e, x) \<Rightarrow> (Ready me, Some (Inl e), x_files x)
                     | (Inr _, x) \<Rightarrow> (Ready me, Some (Inr x), x_files x))))
      | (s, fs1) \<Rightarrow> (s, None, fs1))"

section \<open>The loop\<close>

lemma client_round_reads: "reads_frame (client_round L)"
  unfolding reads_frame_def
proof (intro allI impI)
  fix st x st' x'
  assume round: "client_round L st x = (Inr (Some st'), x')"
  obtain texts ch where st: "st = (texts, ch)" by (cases st)
  from round obtain t env rest where texts: "texts = (t, env) # rest"
    by (auto simp: st client_round_def pure_def split: list.splits)
  from round obtain ch1 x1 where sent: "send_text L env t ch x = (Inr ch1, x1)"
    by (auto simp: st texts client_round_def elim: and_next_cases)
  from round sent obtain framed x2 where frame: "on_sock recv_bytes x1 = (Inr framed, x2)"
    and kept: "x_sock x' = x_sock x2"
    by (auto simp: st texts client_round_def and_next_def pure_def show_line_def Let_def
        split: prod.splits sum.splits if_splits)
  show "length (arriving (x_sock x')) < length (arriving (x_sock x))"
    using recv_frame_consumes [OF frame] send_text_incoming [OF sent] by (simp add: kept)
qed

end
