(* ===== verification/Server.thy ===== *)
theory Server
  imports Endpoint
begin

text \<open>
  \<open>server.py\<close>: one connection after the other. \<open>handle_connection\<close> is the introduction, the
  handshake and the chat, then the exception clauses and the \<open>finally\<close>; the loop of \<open>main\<close>
  asks the rate limiter first. An exception that no clause catches ends the loop.
\<close>

definition server_trust_path :: string where
  "server_trust_path = KEY_DIR @ ''/bob_trust.json''"

section \<open>One connection\<close>

text \<open>What the peer, the human, the clock and the random source do during a connection.\<close>

record visit =
  v_ip :: string
  v_sock :: socket
  v_accepted :: real
  v_failed :: real
  v_answer :: string
  v_eph :: bytes
  v_joined :: real
  v_replies :: "(string \<times> send_env) list"

definition count_failure :: "visit \<Rightarrow> exchange \<Rightarrow> exchange" where
  "count_failure v x = x\<lparr>x_limiter := sql_record_failure (v_ip v) (v_failed v) (x_limiter x)\<rparr>"

definition count_success :: "visit \<Rightarrow> exchange \<Rightarrow> exchange" where
  "count_success v x = x\<lparr>x_limiter := sql_record_success (v_ip v) (x_limiter x)\<rparr>"

definition responder_step :: "cryptolib \<Rightarrow> responder_state \<Rightarrow> handshake_message3 \<Rightarrow> real \<Rightarrow> channel step" where
  "responder_step L st msg3 now x =
     (let (r, evs) = responder_finish L (x_trust x) st msg3 now in (r, x\<lparr>x_log := x_log x @ evs\<rparr>))"

text \<open>
  One round of the encrypted chat loop: \<open>Inr None\<close> is a \<open>break\<close>, \<open>Inr (Some s)\<close> goes on with
  the remaining replies and the channel \<open>s\<close>.
\<close>

definition server_round ::
    "cryptolib \<Rightarrow> json \<Rightarrow> (string \<times> send_env) list \<times> channel \<Rightarrow> ((string \<times> send_env) list \<times> channel) option step" where
  "server_round L peer st =
     (let (replies, ch) = st
      in and_next (on_sock recv_bytes) (\<lambda>framed x.
           let (r, ch') = decrypt L framed ch; x1 = x\<lparr>x_channel := Some ch'\<rparr>
           in case r of
             Inl e \<Rightarrow> if is_alert e then (Inr (Some (replies, ch')), show_line (Alert e) x1) else (Inl e, x1)
           | Inr plaintext \<Rightarrow>
               (case decode_utf8 plaintext of
                  Inl e \<Rightarrow> (Inl e, x1)
                | Inr text \<Rightarrow>
                    (let x2 = show_line (Message peer text) x1
                     in if is_quit text then (Inr None, x2)
                        else case replies of
                          [] \<Rightarrow> (Inl EOFError, x2)
                        | (reply, env) # rest \<Rightarrow>
                            and_next (send_text L env reply ch') (\<lambda>ch''.
                              pure (Inr (if is_quit reply then None else Some (rest, ch'')))) x2))))"

definition server_chat :: "cryptolib \<Rightarrow> json \<Rightarrow> (string \<times> send_env) list \<Rightarrow> channel \<Rightarrow> unit step" where
  "server_chat L peer replies ch = chat_loop (server_round L peer) (replies, ch)"

definition server_handshake :: "cryptolib \<Rightarrow> visit \<Rightarrow> json \<Rightarrow> unit step" where
  "server_handshake L v peer =
     and_next send_introduction (\<lambda>_.
     and_next (recv_message from_wire1) (\<lambda>msg1 x.
     let (msg2, st) = responder_respond L (x_me x) msg1 (v_eph v)
     in and_next (on_sock (send_json (to_wire2 msg2))) (\<lambda>_.
        and_next (recv_message from_wire3) (\<lambda>msg3.
        and_next (responder_step L st msg3 (v_joined v)) (\<lambda>ch x.
        server_chat L peer (v_replies v) ch
          (show_line Handshake_Complete (count_success v (x\<lparr>x_channel := Some ch\<rparr>)))))) x))"

definition server_body :: "cryptolib \<Rightarrow> visit \<Rightarrow> unit step" where
  "server_body L v =
     and_next (recv_message parse_introduction) (\<lambda>(name, pub).
     and_next (ask_and_pin L server_trust_path (v_answer v) name pub) (\<lambda>(trust, mismatch) x.
     if \<not> trust then (Inr (), if mismatch then count_failure v x else x)
     else server_handshake L v name x))"

text \<open>The \<open>except\<close> clauses; closing the socket changes nothing the model keeps.\<close>

definition handle_connection :: "cryptolib \<Rightarrow> visit \<Rightarrow> exchange \<Rightarrow> (exn + unit) \<times> exchange" where
  "handle_connection L v x =
     (case server_body L v x of
        (Inr _, x') \<Rightarrow> (Inr (), x')
      | (Inl e, x') \<Rightarrow>
          (case e of
             HandshakeError _ \<Rightarrow> (Inr (), count_failure v x')
           | ConnectionError \<Rightarrow> (Inr (), x')
           | TimeoutError \<Rightarrow> (Inr (), x')
           | OSError \<Rightarrow> (Inr (), x')
           | _ \<Rightarrow> (Inl e, x')))"

section \<open>The server\<close>

record server =
  srv_me :: identity
  srv_trust :: trust_store
  srv_limiter :: sqlite_limiter
  srv_files :: files
  srv_log :: "event list"

definition open_connection :: "visit \<Rightarrow> server \<Rightarrow> exchange" where
  "open_connection v s =
     \<lparr>x_me = srv_me s, x_trust = srv_trust s, x_limiter = srv_limiter s, x_files = srv_files s,
      x_sock = v_sock v, x_log = srv_log s, x_shown = [], x_channel = None\<rparr>"

definition close_connection :: "exchange \<Rightarrow> server \<Rightarrow> server" where
  "close_connection x s =
     s\<lparr>srv_trust := x_trust x, srv_limiter := x_limiter x, srv_files := x_files x, srv_log := x_log x\<rparr>"

text \<open>One round of the loop in \<open>main\<close>: the exchange of the connection, if it was handled.\<close>

definition serve_visit :: "cryptolib \<Rightarrow> visit \<Rightarrow> server \<Rightarrow> (exn + exchange option) \<times> server" where
  "serve_visit L v s =
     (case sql_is_blocked (v_ip v) (v_accepted v) (srv_limiter s) of
        (True, db) \<Rightarrow> (Inr None, s\<lparr>srv_limiter := db\<rparr>)
      | (False, db) \<Rightarrow>
          (case handle_connection L v (open_connection v (s\<lparr>srv_limiter := db\<rparr>)) of
             (Inr _, x) \<Rightarrow> (Inr (Some x), close_connection x s)
           | (Inl e, x) \<Rightarrow> (Inl e, close_connection x s)))"

fun serve :: "cryptolib \<Rightarrow> visit list \<Rightarrow> server \<Rightarrow> (exn + unit) \<times> server" where
  "serve L [] s = (Inr (), s)"
| "serve L (v # vs) s =
     (case serve_visit L v s of (Inl e, s') \<Rightarrow> (Inl e, s') | (Inr _, s') \<Rightarrow> serve L vs s')"

text \<open>\<open>main\<close> up to the loop; \<open>None\<close> is \<open>sys.exit\<close>. The database may hold rows of earlier runs.\<close>

definition start_server ::
    "cryptolib \<Rightarrow> pemlib \<Rightarrow> console \<Rightarrow> bytes \<Rightarrow> sqlite_limiter \<Rightarrow> files \<Rightarrow> (exn + server) option \<times> files" where
  "start_server L P con priv db fs =
     (case load_or_create_identity L P ''bob'' KEY_DIR con priv fs of
        (Exited, fs') \<Rightarrow> (None, fs')
      | (Raised e, fs') \<Rightarrow> (Some (Inl e), fs')
      | (Ready me, fs') \<Rightarrow>
          (Some (bind_exn (load_store server_trust_path fs') (\<lambda>ts.
             Inr \<lparr>srv_me = me, srv_trust = ts,
                  srv_limiter = db\<lparr>max_attempts := 5, window_seconds := 60, cooldown_seconds := 30\<rparr>,
                  srv_files = fs', srv_log = []\<rparr>)), fs'))"

end
