(* ===== verification/Server_Safety.thy ===== *)
theory Server_Safety
  imports Server
begin

text \<open>
  What a connection of the server does to the records it keeps: the calls it makes on the rate
  limiter, the pins and their file, over any sequence of connections; and what a peer that
  sends the right messages gets.
\<close>

section \<open>What a step leaves alone\<close>

definition keeps :: "(exchange \<Rightarrow> 'p) \<Rightarrow> 'a step \<Rightarrow> bool" where
  "keeps p m \<longleftrightarrow> (\<forall>x. p (snd (m x)) = p x)"

lemma keepsD: "keeps p m \<Longrightarrow> m x = (r, x') \<Longrightarrow> p x' = p x"
  by (metis keeps_def snd_conv)

lemma keeps_and_next: "keeps p m \<Longrightarrow> (\<And>a. keeps p (f a)) \<Longrightarrow> keeps p (and_next m f)"
  unfolding keeps_def [of p "and_next m f"]
proof
  fix x
  assume m: "keeps p m" and f: "\<And>a. keeps p (f a)"
  obtain r x' where n: "and_next m f x = (r, x')" by (cases "and_next m f x")
  then have "p x' = p x"
    by (cases rule: and_next_cases) (simp_all add: keepsD [OF m] keepsD [OF f])
  with n show "p (snd (and_next m f x)) = p x" by simp
qed

lemma keeps_pure: "keeps p (pure r)"
  by (simp add: keeps_def pure_def)

text \<open>What is known about peers, and what has been shown.\<close>

definition books :: "exchange \<Rightarrow> identity \<times> trust_store \<times> files \<times> sqlite_limiter" where
  "books x = (x_me x, x_trust x, x_files x, x_limiter x)"

definition record_of :: "exchange \<Rightarrow> (identity \<times> trust_store \<times> files \<times> sqlite_limiter) \<times> shown_line list" where
  "record_of x = (books x, x_shown x)"

lemma record_of_updates [simp]:
  "record_of (x\<lparr>x_sock := s\<rparr>) = record_of x" "record_of (x\<lparr>x_channel := c\<rparr>) = record_of x"
  "record_of (x\<lparr>x_log := l\<rparr>) = record_of x"
  by (simp_all add: record_of_def books_def)

lemma keeps_on_sock: "keeps record_of (on_sock f)"
  by (simp add: keeps_def on_sock_def split_beta)

lemma keeps_send_introduction: "keeps record_of send_introduction"
  by (simp add: keeps_def send_introduction_def on_sock_def split_beta)

lemma keeps_recv_message: "keeps record_of (recv_message f)"
  unfolding recv_message_def by (intro keeps_and_next keeps_on_sock keeps_pure)

lemma keeps_responder_step: "keeps record_of (responder_step L st msg3 now)"
  by (simp add: keeps_def responder_step_def split_beta)

lemma keeps_send_text: "keeps record_of (send_text L env t ch)"
proof -
  have send: "keeps record_of (and_next (on_sock f) (\<lambda>_. pure r))" for f :: "socket \<Rightarrow> (exn + unit) \<times> socket" and r :: "exn + channel"
    by (intro keeps_and_next keeps_on_sock keeps_pure)
  show ?thesis
    unfolding keeps_def
  proof
    fix x
    show "record_of (snd (send_text L env t ch x)) = record_of x"
      using send by (auto simp: send_text_def keeps_def split: sum.splits prod.splits)
  qed
qed

text \<open>A chat shows messages of the peer and alerts, and changes nothing else that is kept.\<close>

definition chat_line :: "json \<Rightarrow> shown_line \<Rightarrow> bool" where
  "chat_line peer l \<longleftrightarrow> (\<exists>t. l = Message peer t) \<or> (\<exists>e. l = Alert e)"

definition chat_extends :: "json \<Rightarrow> exchange \<Rightarrow> exchange \<Rightarrow> bool" where
  "chat_extends peer x x' \<longleftrightarrow>
     books x' = books x \<and> (\<exists>ls. x_shown x' = x_shown x @ ls \<and> list_all (chat_line peer) ls)"

lemma chat_extends_refl: "record_of x' = record_of x \<Longrightarrow> chat_extends peer x x'"
  by (auto simp: chat_extends_def record_of_def)

lemma chat_extends_trans: "chat_extends peer x y \<Longrightarrow> chat_extends peer y z \<Longrightarrow> chat_extends peer x z"
  unfolding chat_extends_def by fastforce

lemma chat_extends_line: "record_of y = record_of x \<Longrightarrow> chat_line peer l \<Longrightarrow> chat_extends peer x (show_line l y)"
  by (simp add: chat_extends_def record_of_def show_line_def books_def)

lemma chat_loop_extends:
  assumes "\<And>st x. chat_extends peer x (snd (turn st x))"
  shows "chat_extends peer x (snd (chat_loop turn st x))"
  using assms
proof (induction turn st x rule: chat_loop.induct)
  case (1 turn st x)
  obtain r y where t: "turn st x = (r, y)" by (cases "turn st x")
  with 1(2) have first: "chat_extends peer x y" by (metis snd_conv)
  show ?case
  proof (cases "\<exists>st'. r = Inr (Some st') \<and> length (arriving (x_sock y)) < length (arriving (x_sock x))")
    case True
    then obtain st' where st': "r = Inr (Some st')" "length (arriving (x_sock y)) < length (arriving (x_sock x))" by blast
    from 1(1) [OF t [symmetric] st'(1) refl st'(2) 1(2)] first show ?thesis
      by (simp add: chat_loop.simps [of turn st] t st' chat_extends_trans)
  next
    case False
    with first show ?thesis
      by (auto simp: chat_loop.simps [of turn st] t split: sum.splits option.splits)
  qed
qed

lemma server_round_reads: "reads_frame (server_round L peer)"
proof -
  have "length (arriving (x_sock z)) < length (arriving (x_sock x))"
    if turn: "server_round L peer (replies, ch) x = (Inr (Some st'), z)" for replies ch x st' z
  proof -
    from turn obtain framed y where rd: "on_sock recv_bytes x = (Inr framed, y)"
      and rest: "incoming (x_sock z) = incoming (x_sock y)"
      by (auto simp: server_round_def show_line_def pure_def split_beta Let_def elim!: and_next_cases
          split: sum.splits list.splits if_splits dest!: send_text_incoming)
    with recv_frame_consumes [OF rd] show ?thesis by simp
  qed
  then show ?thesis by (auto simp: reads_frame_def)
qed

lemma server_round_extends: "chat_extends peer x (snd (server_round L peer st x))"
proof -
  obtain replies ch where st: "st = (replies, ch)" by (cases st)
  obtain r x' where turn: "server_round L peer st x = (r, x')" by (cases "server_round L peer st x")
  have shown: "chat_extends peer y z" if "record_of z = record_of (show_line (Message peer t) (y\<lparr>x_channel := c\<rparr>))" for y z t c
  proof -
    have "chat_extends peer y (show_line (Message peer t) (y\<lparr>x_channel := c\<rparr>))"
      by (rule chat_extends_line) (simp_all add: chat_line_def)
    with that show ?thesis by (meson chat_extends_refl chat_extends_trans)
  qed
  have alert: "chat_extends peer y (show_line (Alert e) (y\<lparr>x_channel := c\<rparr>))" for e y c
    by (rule chat_extends_line) (simp_all add: chat_line_def)
  from turn [unfolded server_round_def st Let_def split_beta fst_conv snd_conv] show ?thesis
  proof (cases rule: and_next_cases)
    case (1 e)
    with turn show ?thesis using chat_extends_refl [OF keepsD [OF keeps_on_sock 1(1)]] by simp
  next
    case (2 framed y)
    have y: "chat_extends peer x y"
      using keepsD [OF keeps_on_sock 2(1)] by (rule chat_extends_refl)
    have "chat_extends peer y x'"
      using 2(2)
      by (auto simp: pure_def chat_extends_refl alert shown elim!: and_next_cases
          dest!: keepsD [OF keeps_send_text] split: sum.splits list.splits if_splits)
    with y turn show ?thesis by (simp add: chat_extends_trans)
  qed
qed

lemma chat_extends_server: "server_chat L peer replies ch x = (r, x') \<Longrightarrow> chat_extends peer x x'"
  using chat_loop_extends [of peer "server_round L peer" x "(replies, ch)"] server_round_extends
  by (simp add: server_chat_def)

section \<open>The handshake of a connection\<close>

lemma and_next_kept:
  assumes "keeps p m" and "and_next m f x = (r, x')"
  obtains e where "r = Inl e" "p x' = p x"
  | a y where "m x = (Inr a, y)" "p y = p x" "f a y = (r, x')"
  using assms(2) keepsD [OF assms(1)] by (cases rule: and_next_cases) auto

lemma recv_message_Inr: "recv_message f x = (Inr a, y) \<Longrightarrow> \<exists>v. recv_json (x_sock x) = (Inr v, x_sock y) \<and> f v = Inr a"
  by (auto simp: recv_message_def on_sock_def pure_def elim!: and_next_cases split: prod.splits)

text \<open>Either a step of the handshake raises and nothing is recorded, or the channel is there and the chat starts.\<close>

lemma server_handshake_cases:
  assumes "server_handshake L v peer x = (r, x')"
  obtains (stopped) e where "r = Inl e" "record_of x' = record_of x"
  | (complete) msg1 msg2 st msg3 ch evs y where
      "responder_respond L (x_me x) msg1 (v_eph v) = (msg2, st)"
      "responder_finish L (x_trust x) st msg3 (v_joined v) = (Inr ch, evs)"
      "record_of y = record_of x"
      "server_chat L peer (v_replies v) ch
         (show_line Handshake_Complete (count_success v (y\<lparr>x_channel := Some ch\<rparr>))) = (r, x')"
proof -
  note kept = and_next_kept [OF keeps_send_introduction] and_next_kept [OF keeps_on_sock] and_next_kept [OF keeps_recv_message] and_next_kept [OF keeps_responder_step]
  have same: "x_me y = x_me x" "x_trust y = x_trust x" if "record_of y = record_of x" for y
    using that by (simp_all add: record_of_def books_def)
  from assms consider e where "r = Inl e" "record_of x' = record_of x"
    | msg1 x2 x4 y msg3 ch where
      "record_of x2 = record_of x" "record_of x4 = record_of x" "record_of y = record_of x"
      "responder_step L (snd (responder_respond L (x_me x2) msg1 (v_eph v))) msg3 (v_joined v) x4 = (Inr ch, y)"
      "server_chat L peer (v_replies v) ch
         (show_line Handshake_Complete (count_success v (y\<lparr>x_channel := Some ch\<rparr>))) = (r, x')"
    unfolding server_handshake_def Let_def split_beta by (elim kept) simp_all
  then show ?thesis
  proof cases
    case 1
    then show ?thesis by (rule stopped)
  next
    case (2 msg1 x2 x4 y msg3 ch)
    then obtain evs where "responder_finish L (x_trust x)
        (snd (responder_respond L (x_me x) msg1 (v_eph v))) msg3 (v_joined v) = (Inr ch, evs)"
      by (auto simp: responder_step_def split_beta prod_eq_iff same [OF 2(1)] same [OF 2(2)])
    from complete [OF prod.collapse [symmetric] this 2(3,5)] show ?thesis .
  qed
qed

section \<open>A chat does not fail as a handshake does\<close>

definition refusal :: "exn \<Rightarrow> bool" where
  "refusal e \<longleftrightarrow> (\<exists>h. e = HandshakeError h)"

lemma refusal_simps [simp]:
  "refusal (HandshakeError h)" "\<not> refusal (raise_lib l)" "\<not> refusal ConnectionError" "\<not> refusal TimeoutError" "\<not> refusal OSError"
  "\<not> refusal (FrameError f)" "\<not> refusal (TamperError t)" "\<not> refusal (ReplayError p)" "\<not> refusal ValueError"
  "\<not> refusal TypeError" "\<not> refusal EOFError" "\<not> refusal UnicodeDecodeError" "\<not> refusal UnicodeEncodeError"
  "\<not> refusal OverflowError" "\<not> refusal (PaddingError d)" "\<not> refusal (ChainDesync c)"
  by (auto simp: refusal_def) (cases l; simp)


lemma recv_bytes_exn:
  "recv_bytes sock = (Inl e, s) \<Longrightarrow> e \<in> {ConnectionError, TimeoutError} \<or> (\<exists>n. e = FrameError (Claimed_Oversize n))"
  using lost_cases
  by (auto simp: recv_bytes_def recv_exact_def Let_def split_beta map_sum_Inl split: sum.splits if_splits prod.splits)

lemma lift_lib_refusal: "lift_lib x = Inl e \<Longrightarrow> \<not> refusal e"
  by (cases x) auto

lemma library_refusal:
  "x25519_public_from_bytes L y = Inl e \<Longrightarrow> \<not> refusal e"
  "derive_shared_secret L a b = Inl e \<Longrightarrow> \<not> refusal e"
  "aes_gcm_encrypt L key nonce pt aad = Inl e \<Longrightarrow> \<not> refusal e"
  "fst (check_freshness c w) = Inl e \<Longrightarrow> \<not> refusal e"
  using check_freshness_exn [of c w e "snd (check_freshness c w)"]
  by (auto simp: x25519_public_from_bytes_def derive_shared_secret_def aes_gcm_encrypt_def prod_eq_iff dest: lift_lib_refusal)

lemma key_for_refusal: "fst (key_for n rc) = Inl e \<Longrightarrow> \<not> refusal e"
  by (auto simp: key_for_def split: option.splits prod.splits if_splits)

lemma authenticate_refusal:
  assumes "authenticate_and_commit L key c aad ct pend ch = (Inl e, ch')" and "\<And>e. key = Inl e \<Longrightarrow> \<not> refusal e"
  shows "\<not> refusal e"
  using assms
  by (auto simp: authenticate_and_commit_def Let_def bind_exn_Inl counter_to_nonce_def to_bytes_def aes_gcm_decrypt_def
      dest: lift_lib_refusal unpad_exn split: sum.splits exn.splits if_splits)

lemma decrypt_refusal: "decrypt L f ch = (Inl e, ch') \<Longrightarrow> \<not> refusal e"
  by (auto simp: decrypt_def compute_receive_ratchet_step_def chain_start_for_def Let_def bind_exn_Inl split_beta
      dest!: parse_frame_exn library_refusal authenticate_refusal [OF _ key_for_refusal]
      split: sum.splits prod.splits if_splits list.splits)

lemma fst_decrypt_refusal: "fst (decrypt L f ch) = Inl e \<Longrightarrow> \<not> refusal e"
  by (cases "decrypt L f ch") (auto dest: decrypt_refusal)

lemma fst_recv_bytes_refusal: "fst (recv_bytes sock) = Inl e \<Longrightarrow> \<not> refusal e"
  by (cases "recv_bytes sock") (auto dest: recv_bytes_exn)

lemma seal_frame_refusal: "seal_frame L k c h p t = Inl e \<Longrightarrow> \<not> refusal e"
  by (auto simp: seal_frame_def bind_exn_Inl counter_to_nonce_def to_bytes_def pad_def Let_def dest: library_refusal
      split: if_splits)

lemma encrypt_refusal: "encrypt L env p ch = (Inl e, ch') \<Longrightarrow> \<not> refusal e"
  by (auto simp: encrypt_def encrypt_with_header_def perform_send_ratchet_step_def Let_def split_beta bind_exn_Inl
      dest: seal_frame_refusal library_refusal split: sum.splits if_splits prod.splits)

lemma send_text_refusal: "send_text L env t ch x = (Inl e, x') \<Longrightarrow> \<not> refusal e"
  by (auto simp: send_text_def encode_utf8_def pure_def on_sock_def send_bytes_def sendall_def to_bytes_def Let_def
      elim!: and_next_cases dest: encrypt_refusal split: sum.splits prod.splits if_splits)

definition unrefusing :: "'a step \<Rightarrow> bool" where
  "unrefusing m \<longleftrightarrow> (\<forall>x e x'. m x = (Inl e, x') \<longrightarrow> \<not> refusal e)"

lemma chat_loop_unrefusing:
  "(\<And>st. unrefusing (turn st)) \<Longrightarrow> chat_loop turn st x = (Inl e, x') \<Longrightarrow> \<not> refusal e"
proof (induction turn st x rule: chat_loop.induct)
  case (1 turn st x)
  obtain r y where t: "turn st x = (r, y)" by (cases "turn st x")
  show ?case
  proof (cases "\<exists>st'. r = Inr (Some st') \<and> length (arriving (x_sock y)) < length (arriving (x_sock x))")
    case True
    then obtain st' where st': "r = Inr (Some st')" "length (arriving (x_sock y)) < length (arriving (x_sock x))" by blast
    have "chat_loop turn st' y = (Inl e, x')"
      using 1(3) t st' by (simp add: chat_loop.simps [of turn st])
    from 1(1) [OF t [symmetric] st'(1) refl st'(2) 1(2) this] show ?thesis .
  next
    case False
    with 1(3) 1(2) [of st] t show ?thesis
      by (auto simp: chat_loop.simps [of turn st] unrefusing_def split: sum.splits option.splits if_splits)
  qed
qed

lemma server_round_unrefusing: "unrefusing (server_round L peer st)"
  unfolding unrefusing_def server_round_def
  by (auto simp: pure_def on_sock_def decode_utf8_def Let_def split_beta elim!: and_next_cases
      dest!: fst_decrypt_refusal fst_recv_bytes_refusal send_text_refusal
      split: sum.splits list.splits if_splits)

lemma server_chat_unrefusing: "server_chat L peer replies ch x = (Inl e, x') \<Longrightarrow> \<not> refusal e"
  unfolding server_chat_def by (rule chat_loop_unrefusing [OF server_round_unrefusing])

section \<open>The dialogue of a connection\<close>

definition key_mismatch :: "exchange \<Rightarrow> bool" where
  "key_mismatch x \<longleftrightarrow> (\<exists>n. Dialogue (Different_Key n) \<in> set (x_shown x))"

lemma verify_shown:
  assumes "verify_and_pin_interactive L name pub answer ts = (d, ts')"
  shows "(\<exists>n. Different_Key n \<in> set (shown d)) \<longleftrightarrow> verdict d = Inr (False, True)"
  using assms
  by (auto simp: verify_and_pin_interactive_def Let_def split: sum.splits option.splits if_splits prod.splits)

lemma verify_outcome:
  assumes "verify_and_pin_interactive L name pub answer ts = (d, ts')"
  shows "pins ts \<subseteq>\<^sub>m pins ts'" and "saved d \<or> ts' = ts" and "verdict d = Inr (True, m) \<Longrightarrow> pins ts' name = Some pub"
    and "set (keys (trusted ts')) \<subseteq> insert name (set (keys (trusted ts)))"
    and "distinct (keys (trusted ts)) \<Longrightarrow> distinct (keys (trusted ts'))"
  using assms trust_step_extends [of ts L "Ask name pub answer"] trust_step_names [of L "Ask name pub answer" ts]
    trust_step_distinct [of ts L "Ask name pub answer"]
  by (cases rule: verify_and_pin_cases [of L name pub answer ts]; auto dest: tofu.first)+

lemma ask_and_pin_outcome:
  assumes "ask_and_pin L path answer name pub x = (r, y)"
  shows "x_me y = x_me x" and "x_limiter y = x_limiter x" and "pins (x_trust x) \<subseteq>\<^sub>m pins (x_trust y)"
    and "distinct (keys (trusted (x_trust x))) \<Longrightarrow> distinct (keys (trusted (x_trust y)))"
    and "x_files y = save_store (x_trust y) path (x_files x) \<or> x_trust y = x_trust x \<and> x_files y = x_files x"
    and "r = Inr (True, m) \<Longrightarrow> \<exists>k. dict_key name = Some k \<and> pins (x_trust y) k = Some pub"
    and "Handshake_Complete \<in> set (x_shown y) \<longleftrightarrow> Handshake_Complete \<in> set (x_shown x)"
    and "key_mismatch y \<longleftrightarrow> key_mismatch x \<or> r = Inr (False, True)"
    and "set (x_shown y) \<inter> range (case_prod Message) = set (x_shown x) \<inter> range (case_prod Message)"
proof -
  let ?v = "verify_and_pin_of_wire L name pub answer (x_trust x)"
  have y: "y = x\<lparr>x_trust := snd ?v,
      x_files := (if saved (fst ?v) then save_store (snd ?v) path (x_files x) else x_files x),
      x_shown := x_shown x @ map Dialogue (shown (fst ?v))\<rparr>" and r: "r = verdict (fst ?v)"
    using assms by (auto simp: ask_and_pin_def split_beta)
  show "x_me y = x_me x" "x_limiter y = x_limiter x"
    "Handshake_Complete \<in> set (x_shown y) \<longleftrightarrow> Handshake_Complete \<in> set (x_shown x)"
    "set (x_shown y) \<inter> range (case_prod Message) = set (x_shown x) \<inter> range (case_prod Message)"
    by (auto simp: y)
  show "pins (x_trust x) \<subseteq>\<^sub>m pins (x_trust y)"
    "distinct (keys (trusted (x_trust x))) \<Longrightarrow> distinct (keys (trusted (x_trust y)))"
    "x_files y = save_store (x_trust y) path (x_files x) \<or> x_trust y = x_trust x \<and> x_files y = x_files x"
    "r = Inr (True, m) \<Longrightarrow> \<exists>k. dict_key name = Some k \<and> pins (x_trust y) k = Some pub"
    using verify_outcome [where L = L and pub = pub and answer = answer and ts = "x_trust x", OF prod.collapse [symmetric]]
    by (auto simp: y r verify_and_pin_of_wire_def split: option.splits)
  show "key_mismatch y \<longleftrightarrow> key_mismatch x \<or> r = Inr (False, True)"
    using verify_shown [where L = L and pub = pub and answer = answer and ts = "x_trust x", OF prod.collapse [symmetric]]
    by (auto simp: y r key_mismatch_def verify_and_pin_of_wire_def ex_disj_distrib image_iff split: option.splits)
qed

lemma server_body_cases:
  assumes "server_body L v x = (r, x')"
  obtains (unread) e where "r = Inl e" "record_of x' = record_of x"
  | (asked) name pub e y where "ask_and_pin L server_trust_path (v_answer v) name pub y = (Inl e, x')" "r = Inl e"
      "record_of y = record_of x"
  | (refused) name pub m y z where "ask_and_pin L server_trust_path (v_answer v) name pub y = (Inr (False, m), z)"
      "r = Inr ()" "record_of y = record_of x" "x' = (if m then count_failure v z else z)"
  | (trusted) name pub m y z where "ask_and_pin L server_trust_path (v_answer v) name pub y = (Inr (True, m), z)"
      "record_of y = record_of x" "server_handshake L v name z = (r, x')"
  using assms [unfolded server_body_def]
proof (rule and_next_kept [OF keeps_recv_message], goal_cases)
  case 1
  with unread show ?case by blast
next
  case (2 a y)
  obtain name pub where a: "a = (name, pub)" by (cases a)
  have y: "record_of y = record_of x"
    by (rule 2(6))
  from 2(7) [unfolded a prod.case] show ?case
  proof (cases rule: and_next_cases)
    case (1 e)
    from asked [OF 1 y] show ?thesis .
  next
    case (2 t z)
    with refused trusted y show ?thesis
      by (cases t) (auto split: if_splits)
  qed
qed

section \<open>What is counted\<close>

lemma record_of_eq:
  "record_of x' = record_of x \<longleftrightarrow>
     x_me x' = x_me x \<and> x_trust x' = x_trust x \<and> x_files x' = x_files x \<and> x_limiter x' = x_limiter x \<and>
     x_shown x' = x_shown x"
  by (auto simp: record_of_def books_def)

text \<open>After the handshake nothing but the chat is added to what is shown, and the success is counted.\<close>

lemma server_handshake_outcome:
  assumes "server_handshake L v peer x = (r, x')"
  shows "x_me x' = x_me x" and "x_trust x' = x_trust x" and "x_files x' = x_files x"
    and "Handshake_Complete \<notin> set (x_shown x) \<Longrightarrow>
      x_limiter x' = (if Handshake_Complete \<in> set (x_shown x')
        then sql_record_success (v_ip v) (x_limiter x) else x_limiter x)"
    and "Handshake_Complete \<in> set (x_shown x') \<Longrightarrow> Handshake_Complete \<notin> set (x_shown x) \<Longrightarrow> r = Inl e \<Longrightarrow> \<not> refusal e"
    and "key_mismatch x' \<longleftrightarrow> key_mismatch x"
proof -
  have "x_me x' = x_me x \<and> x_trust x' = x_trust x \<and> x_files x' = x_files x \<and>
    (Handshake_Complete \<notin> set (x_shown x) \<longrightarrow>
      x_limiter x' = (if Handshake_Complete \<in> set (x_shown x')
        then sql_record_success (v_ip v) (x_limiter x) else x_limiter x) \<and>
      (Handshake_Complete \<in> set (x_shown x') \<longrightarrow> (\<forall>e. r = Inl e \<longrightarrow> \<not> refusal e))) \<and>
    (key_mismatch x' \<longleftrightarrow> key_mismatch x)"
    using assms
  proof (cases rule: server_handshake_cases)
    case (stopped e)
    then show ?thesis by (simp add: record_of_eq key_mismatch_def)
  next
    case (complete msg1 msg2 st msg3 ch evs y)
    let ?z = "show_line Handshake_Complete (count_success v (y\<lparr>x_channel := Some ch\<rparr>))"
    from chat_extends_server [OF complete(4)] obtain ls where ls: "books x' = books ?z"
      "x_shown x' = x_shown ?z @ ls" "list_all (chat_line peer) ls"
      by (auto simp: chat_extends_def)
    have "\<not> refusal e" if "r = Inl e" for e
      using server_chat_unrefusing complete(4) that by blast
    with ls complete(3) show ?thesis
      by (auto simp: record_of_eq books_def show_line_def count_success_def key_mismatch_def list_all_iff chat_line_def)
  qed
  then show "x_me x' = x_me x" "x_trust x' = x_trust x" "x_files x' = x_files x"
    "Handshake_Complete \<notin> set (x_shown x) \<Longrightarrow>
      x_limiter x' = (if Handshake_Complete \<in> set (x_shown x')
        then sql_record_success (v_ip v) (x_limiter x) else x_limiter x)"
    "Handshake_Complete \<in> set (x_shown x') \<Longrightarrow> Handshake_Complete \<notin> set (x_shown x) \<Longrightarrow> r = Inl e \<Longrightarrow> \<not> refusal e"
    "key_mismatch x' \<longleftrightarrow> key_mismatch x" by auto
qed

definition verdict_on :: "visit \<Rightarrow> exn + unit \<Rightarrow> exchange \<Rightarrow> sqlite_limiter \<Rightarrow> sqlite_limiter" where
  "verdict_on v r x db =
     (if Handshake_Complete \<in> set (x_shown x) then sql_record_success (v_ip v) db
      else if key_mismatch x \<or> (\<exists>h. r = Inl (HandshakeError h)) then sql_record_failure (v_ip v) (v_failed v) db
      else db)"

lemma server_body_limiter:
  assumes "server_body L v x = (r, x')" and "x_shown x = []"
  shows "x_limiter x' =
      (if Handshake_Complete \<in> set (x_shown x') then sql_record_success (v_ip v) (x_limiter x)
       else if key_mismatch x' then sql_record_failure (v_ip v) (v_failed v) (x_limiter x)
       else x_limiter x) \<and>
    (key_mismatch x' \<longrightarrow> r = Inr () \<and> Handshake_Complete \<notin> set (x_shown x')) \<and>
    (Handshake_Complete \<in> set (x_shown x') \<longrightarrow> (\<forall>e. r = Inl e \<longrightarrow> \<not> refusal e))"
  using assms(1)
proof (cases rule: server_body_cases)
  case (unread e)
  with assms(2) show ?thesis by (simp add: record_of_eq key_mismatch_def)
next
  case (asked name pub e y)
  with assms(2) ask_and_pin_outcome [OF asked(1)] show ?thesis by (simp add: record_of_eq key_mismatch_def)
next
  case (refused name pub m y z)
  with assms(2) ask_and_pin_outcome [OF refused(1)] show ?thesis
    by (auto simp: record_of_eq key_mismatch_def count_failure_def)
next
  case (trusted name pub m y z)
  with assms(2) ask_and_pin_outcome [OF trusted(1)] server_handshake_outcome [OF trusted(3)] show ?thesis
    by (auto simp: record_of_eq key_mismatch_def)
qed

lemma handle_connection_limiter:
  assumes "handle_connection L v x = (r, x')" and "x_shown x = []"
  shows "x_limiter x' = verdict_on v (fst (server_body L v x)) x' (x_limiter x)"
proof -
  obtain q y where b: "server_body L v x = (q, y)" by (cases "server_body L v x")
  have x': "x' = (if \<exists>h. q = Inl (HandshakeError h) then count_failure v y else y)"
    using assms(1) by (auto simp: handle_connection_def b split: sum.splits exn.splits)
  show ?thesis
    using server_body_limiter [OF b assms(2)]
    by (auto simp: x' b verdict_on_def count_failure_def refusal_def key_mismatch_def)
qed

section \<open>The server's state over many connections\<close>

text \<open>The states of the server after any connections it survived.\<close>

inductive server_reaches :: "cryptolib \<Rightarrow> server \<Rightarrow> server \<Rightarrow> bool" for L s0 where
  start: "server_reaches L s0 s0"
| visit: "server_reaches L s0 s \<Longrightarrow> serve_visit L v s = (Inr x, s') \<Longrightarrow> server_reaches L s0 s'"

text \<open>The pins grow, and the file holds them after each one.\<close>

definition kept_since :: "exchange \<Rightarrow> exchange \<Rightarrow> bool" where
  "kept_since x x' \<longleftrightarrow>
     x_me x' = x_me x \<and> pins (x_trust x) \<subseteq>\<^sub>m pins (x_trust x') \<and>
     (distinct (keys (trusted (x_trust x))) \<longrightarrow> distinct (keys (trusted (x_trust x')))) \<and>
     (x_files x' = save_store (x_trust x') server_trust_path (x_files x) \<or>
      x_trust x' = x_trust x \<and> x_files x' = x_files x)"

lemma kept_since_refl: "record_of x' = record_of x \<Longrightarrow> kept_since x x'"
  by (simp add: kept_since_def record_of_eq)

lemma server_body_kept:
  assumes "server_body L v x = (r, x')"
  shows "kept_since x x'"
  using assms
proof (cases rule: server_body_cases)
  case (unread e)
  then show ?thesis by (simp add: kept_since_refl)
next
  case (asked name pub e y)
  with ask_and_pin_outcome [OF asked(1)] show ?thesis by (auto simp: kept_since_def record_of_eq)
next
  case (refused name pub m y z)
  with ask_and_pin_outcome [OF refused(1)] show ?thesis by (auto simp: kept_since_def record_of_eq count_failure_def)
next
  case (trusted name pub m y z)
  with ask_and_pin_outcome [OF trusted(1)] server_handshake_outcome(1-3) [OF trusted(3)] show ?thesis
    by (auto simp: kept_since_def record_of_eq)
qed

lemma handle_connection_kept: "handle_connection L v x = (r, x') \<Longrightarrow> kept_since x x'"
proof -
  assume h: "handle_connection L v x = (r, x')"
  obtain q y where b: "server_body L v x = (q, y)" by (cases "server_body L v x")
  have "x' = y \<or> x' = count_failure v y"
    using h by (auto simp: handle_connection_def b split: sum.splits exn.splits)
  with server_body_kept [OF b] show ?thesis by (auto simp: kept_since_def count_failure_def)
qed

definition server_sound :: "server \<Rightarrow> server \<Rightarrow> bool" where
  "server_sound s0 s \<longleftrightarrow>
     srv_me s = srv_me s0 \<and> pins (srv_trust s0) \<subseteq>\<^sub>m pins (srv_trust s) \<and>
     (distinct (keys (trusted (srv_trust s0))) \<longrightarrow> distinct (keys (trusted (srv_trust s)))) \<and>
     (srv_files s server_trust_path = Some (ascii (dumps_indent2 (store_json (srv_trust s)))) \<or>
      srv_trust s = srv_trust s0 \<and> srv_files s = srv_files s0)"

lemma serve_visit_kept:
  assumes "serve_visit L v s = (r, s')"
  shows "srv_me s' = srv_me s" and "pins (srv_trust s) \<subseteq>\<^sub>m pins (srv_trust s')"
    and "distinct (keys (trusted (srv_trust s))) \<longrightarrow> distinct (keys (trusted (srv_trust s')))"
    and "srv_files s' = save_store (srv_trust s') server_trust_path (srv_files s) \<or>
      srv_trust s' = srv_trust s \<and> srv_files s' = srv_files s"
proof -
  have "srv_me s' = srv_me s \<and> pins (srv_trust s) \<subseteq>\<^sub>m pins (srv_trust s') \<and>
    (distinct (keys (trusted (srv_trust s))) \<longrightarrow> distinct (keys (trusted (srv_trust s')))) \<and>
    (srv_files s' = save_store (srv_trust s') server_trust_path (srv_files s) \<or>
      srv_trust s' = srv_trust s \<and> srv_files s' = srv_files s)"
    using assms handle_connection_kept
    by (fastforce simp: serve_visit_def close_connection_def open_connection_def kept_since_def
        split: prod.splits bool.splits sum.splits)
  then show "srv_me s' = srv_me s" "pins (srv_trust s) \<subseteq>\<^sub>m pins (srv_trust s')"
    "distinct (keys (trusted (srv_trust s))) \<longrightarrow> distinct (keys (trusted (srv_trust s')))"
    "srv_files s' = save_store (srv_trust s') server_trust_path (srv_files s) \<or>
      srv_trust s' = srv_trust s \<and> srv_files s' = srv_files s" by auto
qed

lemma server_reaches_sound: "server_reaches L s0 s \<Longrightarrow> server_sound s0 s"
proof (induction rule: server_reaches.induct)
  case start
  then show ?case by (simp add: server_sound_def)
next
  case (visit s v x s')
  from serve_visit_kept [OF visit(2)] visit(3) show ?case
    by (auto simp: server_sound_def save_store_def intro: map_le_trans)
qed

text \<open>The calls a connection makes on the limiter, by what was shown and how the body ended.\<close>

definition limiter_calls :: "cryptolib \<Rightarrow> visit \<Rightarrow> exchange option \<Rightarrow> (exn + unit) \<Rightarrow> limiter_call list" where
  "limiter_calls L v x r =
     Is_Blocked (v_ip v) (v_accepted v) #
     (case x of
        None \<Rightarrow> []
      | Some x \<Rightarrow>
          if Handshake_Complete \<in> set (x_shown x) then [Success (v_ip v)]
          else if key_mismatch x \<or> (\<exists>h. r = Inl (HandshakeError h)) then [Failure (v_ip v) (v_failed v)]
          else [])"

lemma serve_visit_limiter:
  assumes "serve_visit L v s = (Inr x, s')"
  shows "\<exists>r. srv_limiter s' = snd (run_limiter sql_limit (limiter_calls L v x r) (srv_limiter s))"
    and "x = None \<longleftrightarrow> fst (sql_is_blocked (v_ip v) (v_accepted v) (srv_limiter s))"
proof -
  obtain blocked db where q: "sql_is_blocked (v_ip v) (v_accepted v) (srv_limiter s) = (blocked, db)"
    by (cases "sql_is_blocked (v_ip v) (v_accepted v) (srv_limiter s)")
  show "x = None \<longleftrightarrow> fst (sql_is_blocked (v_ip v) (v_accepted v) (srv_limiter s))"
    using assms by (auto simp: serve_visit_def q split: bool.splits prod.splits sum.splits)
  show "\<exists>r. srv_limiter s' = snd (run_limiter sql_limit (limiter_calls L v x r) (srv_limiter s))"
  proof (cases blocked)
    case True
    with assms show ?thesis by (auto simp: serve_visit_def q limiter_calls_def)
  next
    case False
    let ?x0 = "open_connection v (s\<lparr>srv_limiter := db\<rparr>)"
    from assms q False obtain y where y: "handle_connection L v ?x0 = (Inr (), y)" "x = Some y"
      "s' = close_connection y s"
      by (auto simp: serve_visit_def split: prod.splits sum.splits)
    have "x_limiter y = verdict_on v (fst (server_body L v ?x0)) y db"
      using handle_connection_limiter [OF y(1)] by (simp add: open_connection_def)
    then show ?thesis
      using q False by (intro exI [of _ "fst (server_body L v ?x0)"])
        (simp add: y limiter_calls_def verdict_on_def close_connection_def)
  qed
qed

section \<open>A peer that sends what it should\<close>

definition frame_of :: "json \<Rightarrow> bytes" where
  "frame_of j = be_bytes 4 (length (dumps j)) @ ascii (dumps j)"

definition sendable :: "json \<Rightarrow> bool" where
  "sendable j \<longleftrightarrow> wf_json j \<and> length (dumps j) \<le> MAX_FRAME_SIZE"

text \<open>The socket works in both directions, and these are the bytes still to come.\<close>

definition coming :: "bytes \<Rightarrow> socket \<Rightarrow> bool" where
  "coming b s \<longleftrightarrow> receivable s \<and> writable s \<and> arriving s = b"

lemma sendable_small:
  assumes "\<forall>(k, v) \<in> set m. \<exists>s. v = JStr s \<and> utf8_ok k \<and> utf8_ok s \<and> length k \<le> 100 \<and> length s \<le> 1000"
    and "distinct (keys m)" and "length m \<le> 3"
  shows "sendable (JObj m)"
proof -
  have q: "length (quote k) \<le> 1202" if "length k \<le> 100" for k
    using quote_length [of k] that by linarith
  have v: "length (quote s) \<le> 12002" if "length s \<le> 1000" for s
    using quote_length [of s] that by linarith
  have "wf_json (JObj m)"
    using assms(1,2) by (fastforce simp: list_all_iff)
  moreover have "length (dumps (JObj m)) \<le> MAX_FRAME_SIZE"
  proof -
    have "length (quote (fst p) @ '': '' @ dump None 1 (snd p)) \<le> 14000" if p: "p \<in> set m" for p
    proof -
      obtain k s where "p = (k, JStr s)" "length k \<le> 100" "length s \<le> 1000"
        using assms(1) p by (cases p) auto
      with q [of k] v [of s] show ?thesis by simp
    qed
    then have "length (join '', '' (map (\<lambda>p. quote (fst p) @ '': '' @ dump None 1 (snd p)) m)) \<le> length m * 14002"
      using join_length [of "map (\<lambda>p. quote (fst p) @ '': '' @ dump None 1 (snd p)) m" 14000] by auto
    also have "\<dots> \<le> 3 * 14002" using assms(3) by simp
    finally have "length (join '', '' (map (\<lambda>p. quote (fst p) @ '': '' @ dump None 1 (snd p)) m)) \<le> 3 * 14002" .
    then show ?thesis
      by (simp add: dumps_def new_line_def item_separator_def MAX_FRAME_SIZE_def)
  qed
  ultimately show ?thesis by (simp add: sendable_def)
qed

lemma send_json_ok:
  assumes "sendable j" and "writable s"
  shows "send_json j s = (Inr (), s\<lparr>outgoing := outgoing s @ frame_of j\<rparr>)"
  using assms send_bytes_Inr [of "ascii (dumps j)" s] by (simp add: send_json_def sendable_def frame_of_def)

lemma recv_json_keeps: "outgoing (snd (recv_json s)) = outgoing s" "writable (snd (recv_json s)) = writable s"
  by (auto simp: recv_json_def recv_bytes_def recv_exact_def Let_def split_beta log_event_def
      split: sum.splits prod.splits)

lemma recv_json_frame:
  assumes "sendable j" and "coming (frame_of j @ rest) s"
  shows "\<exists>s'. recv_json s = (Inr j, s') \<and> coming rest s'"
proof -
  define t where "t = s\<lparr>outgoing := []\<rparr>"
  have "send_json j t = (Inr (), t\<lparr>outgoing := frame_of j\<rparr>)"
    using assms by (simp add: send_json_ok t_def coming_def)
  from objects.put_get [OF _ this, of s rest] assms obtain s'
    where s': "recv_json s = (Inr j, s')" "arriving s' = rest" "receivable s'"
    by (auto simp: coming_def sendable_def t_def)
  with assms(2) recv_json_keeps(2) [of s] show ?thesis
    by (simp add: coming_def)
qed

lemma recv_message_frame:
  assumes "sendable j" and "coming (frame_of j @ rest) (x_sock x)" and "f j = Inr a"
  shows "\<exists>s. recv_message f x = (Inr a, x\<lparr>x_sock := s\<rparr>) \<and> coming rest s"
  using recv_json_frame [OF assms(1,2)] assms(3)
  by (auto simp: recv_message_def and_next_def on_sock_def pure_def)

lemma send_json_step:
  assumes "sendable j" and "coming rest (x_sock x)"
  shows "\<exists>s. on_sock (send_json j) x = (Inr (), x\<lparr>x_sock := s\<rparr>) \<and> coming rest s"
proof (intro exI conjI)
  let ?s = "x_sock x\<lparr>outgoing := outgoing (x_sock x) @ frame_of j\<rparr>"
  show "on_sock (send_json j) x = (Inr (), x\<lparr>x_sock := ?s\<rparr>)"
    using send_json_ok [OF assms(1)] assms(2) by (simp add: on_sock_def coming_def)
  show "coming rest ?s"
    using assms(2) by (simp add: coming_def)
qed

text \<open>What the peer sends, and that the server can verify it; the two names need not agree.\<close>

record claim =
  c_intro :: json
  c_name :: json
  c_pub :: bytes
  c_wire1 :: json
  c_msg1 :: handshake_message1
  c_wire3 :: json
  c_msg3 :: handshake_message3

definition claim_holds :: "cryptolib \<Rightarrow> visit \<Rightarrow> exchange \<Rightarrow> claim \<Rightarrow> channel \<Rightarrow> bool" where
  "claim_holds L v x c ch \<longleftrightarrow>
     parse_introduction (c_intro c) = Inr (c_name c, c_pub c) \<and>
     from_wire1 (c_wire1 c) = Inr (c_msg1 c) \<and> from_wire3 (c_wire3 c) = Inr (c_msg3 c) \<and>
     sendable (c_intro c) \<and> sendable (c_wire1 c) \<and> sendable (c_wire3 c) \<and>
     (\<exists>k key. dict_key (c_name c) = Some k \<and> pins (x_trust x) k = Some (c_pub c) \<and>
        ed25519_public_from_bytes L (c_pub c) = Inr key) \<and>
     sendable (introduction (x_me x)) \<and>
     (let (msg2, st) = responder_respond L (x_me x) (c_msg1 c) (v_eph v)
      in sendable (to_wire2 msg2) \<and> (\<exists>evs. responder_finish L (x_trust x) st (c_msg3 c) (v_joined v) = (Inr ch, evs)))"

lemma ask_and_pin_matched:
  assumes "dict_key name = Some k" and "pins (x_trust x) k = Some pub" and "ed25519_public_from_bytes L pub = Inr key"
  shows "ask_and_pin L path answer name pub x = (Inr (True, False), x)"
  using assms
  by (simp add: ask_and_pin_def verify_and_pin_of_wire_def verify_and_pin_interactive_def trusted_key_def is_trusted_def
      pins_def)

lemma server_completes:
  assumes "claim_holds L v x c ch"
    and "coming (frame_of (c_intro c) @ frame_of (c_wire1 c) @ frame_of (c_wire3 c) @ rest) (x_sock x)"
  shows "\<exists>s evs. coming rest s \<and>
    server_body L v x = server_chat L (c_name c) (v_replies v) ch
      (show_line Handshake_Complete (count_success v (x\<lparr>x_sock := s, x_log := x_log x @ evs, x_channel := Some ch\<rparr>)))"
proof -
  obtain msg2 st where m2: "responder_respond L (x_me x) (c_msg1 c) (v_eph v) = (msg2, st)"
    by (cases "responder_respond L (x_me x) (c_msg1 c) (v_eph v)")
  note claim = assms(1) [unfolded claim_holds_def m2 Let_def prod.case]
  note parsed = claim [THEN conjunct1] claim [THEN conjunct2, THEN conjunct1]
    claim [THEN conjunct2, THEN conjunct2, THEN conjunct1]
  note rest1 = claim [THEN conjunct2, THEN conjunct2, THEN conjunct2]
  note sent = rest1 [THEN conjunct1] rest1 [THEN conjunct2, THEN conjunct1]
    rest1 [THEN conjunct2, THEN conjunct2, THEN conjunct1]
  note rest2 = rest1 [THEN conjunct2, THEN conjunct2, THEN conjunct2]
  note ours = rest2 [THEN conjunct2, THEN conjunct1] rest2 [THEN conjunct2, THEN conjunct2, THEN conjunct1]
  obtain k key where k: "dict_key (c_name c) = Some k" "pins (x_trust x) k = Some (c_pub c)"
    "ed25519_public_from_bytes L (c_pub c) = Inr key"
    using rest2 [THEN conjunct1] by (elim exE conjE)
  obtain evs where fin: "responder_finish L (x_trust x) st (c_msg3 c) (v_joined v) = (Inr ch, evs)"
    using rest2 [THEN conjunct2, THEN conjunct2, THEN conjunct2] by (elim exE)
  obtain s1 where 1: "recv_message parse_introduction x = (Inr (c_name c, c_pub c), x\<lparr>x_sock := s1\<rparr>)"
    "coming (frame_of (c_wire1 c) @ frame_of (c_wire3 c) @ rest) s1"
    using recv_message_frame [where f = parse_introduction, OF sent(1) assms(2) parsed(1)] by (elim exE conjE)
  have 11: "coming (frame_of (c_wire1 c) @ frame_of (c_wire3 c) @ rest) (x_sock (x\<lparr>x_sock := s1\<rparr>))"
    using 1(2) by simp
  obtain s2 where 2: "send_introduction (x\<lparr>x_sock := s1\<rparr>) = (Inr (), x\<lparr>x_sock := s2\<rparr>)"
    "coming (frame_of (c_wire1 c) @ frame_of (c_wire3 c) @ rest) s2"
    using send_json_step [OF ours(1) 11] by (auto simp: send_introduction_def)
  have 22: "coming (frame_of (c_wire1 c) @ frame_of (c_wire3 c) @ rest) (x_sock (x\<lparr>x_sock := s2\<rparr>))"
    using 2(2) by simp
  obtain s3 where 3: "recv_message from_wire1 (x\<lparr>x_sock := s2\<rparr>) = (Inr (c_msg1 c), x\<lparr>x_sock := s3\<rparr>)"
    "coming (frame_of (c_wire3 c) @ rest) s3"
    using recv_message_frame [where f = from_wire1, OF sent(2) 22 parsed(2)] by auto
  have 33: "coming (frame_of (c_wire3 c) @ rest) (x_sock (x\<lparr>x_sock := s3\<rparr>))"
    using 3(2) by simp
  obtain s4 where 4: "on_sock (send_json (to_wire2 msg2)) (x\<lparr>x_sock := s3\<rparr>) = (Inr (), x\<lparr>x_sock := s4\<rparr>)"
    "coming (frame_of (c_wire3 c) @ rest) s4"
    using send_json_step [OF ours(2) 33] by auto
  have 44: "coming (frame_of (c_wire3 c) @ rest) (x_sock (x\<lparr>x_sock := s4\<rparr>))"
    using 4(2) by simp
  obtain s5 where 5: "recv_message from_wire3 (x\<lparr>x_sock := s4\<rparr>) = (Inr (c_msg3 c), x\<lparr>x_sock := s5\<rparr>)" "coming rest s5"
    using recv_message_frame [where f = from_wire3, OF sent(3) 44 parsed(3)] by auto
  have "server_body L v x = server_chat L (c_name c) (v_replies v) ch
      (show_line Handshake_Complete (count_success v (x\<lparr>x_sock := s5, x_log := x_log x @ evs, x_channel := Some ch\<rparr>)))"
    using k by (simp add: server_body_def server_handshake_def and_next_def 1(1) 2(1) 3(1) 4(1) 5(1) m2 fin
        ask_and_pin_matched responder_step_def Let_def)
  with 5(2) show ?thesis by blast
qed

end
