(* ===== verification/File_Transfer.thy ===== *)
theory File_Transfer
  imports Endpoint
begin

text \<open>
  The file transfers of \<open>gui.py\<close>: the two messages, the name a received file gets, the handlers
  of an offer and of a chunk, and what a lost connection abandons. The disk is a map from
  paths, as the operating system sees them, to contents; whether an operation on it succeeds
  is an argument.
\<close>

section \<open>Numbers as Python prints and parses them\<close>

text \<open>A ratio rounded to the nearest integer, ties to even, and an integer as a float.\<close>

definition round_even :: "nat \<Rightarrow> nat \<Rightarrow> nat" where
  "round_even n d =
     (let q = n div d; r = n mod d
      in if 2 * r < d \<or> 2 * r = d \<and> even q then q else q + 1)"

fun bit_length :: "nat \<Rightarrow> nat" where
  "bit_length n = (if n = 0 then 0 else bit_length (n div 2) + 1)"

declare bit_length.simps [simp del]

definition float_of_nat :: "nat \<Rightarrow> exn + nat" where
  "float_of_nat n =
     (let e = 2 ^ (bit_length n - 53); f = round_even n e * e
      in if f \<ge> 2 ^ 1024 then Inl OverflowError else Inr f)"

definition one_decimal :: "nat \<Rightarrow> nat \<Rightarrow> string" where
  "one_decimal n d = (let t = round_even (10 * n) d in show_nat (t div 10) @ ''.'' @ show_nat (t mod 10))"

definition human_size :: "nat \<Rightarrow> exn + string" where
  "human_size num_bytes =
     bind_exn (float_of_nat num_bytes) (\<lambda>size. Inr
       (if size < 1024 then show_nat size @ '' B''
        else if size < 1024 ^ 2 then one_decimal size 1024 @ '' KB''
        else if size < 1024 ^ 3 then one_decimal size (1024 ^ 2) @ '' MB''
        else one_decimal size (1024 ^ 3) @ '' GB''))"

text \<open>The zero of every block of decimal digits (Unicode 14); \<open>int\<close> reads them all.\<close>

definition digit_zeros :: "nat list" where
  "digit_zeros =
     [48, 1632, 1776, 1984, 2406, 2534, 2662, 2790, 2918, 3046, 3174, 3302, 3430, 3558, 3664, 3792, 3872, 4160,
      4240, 6112, 6160, 6470, 6608, 6784, 6800, 6992, 7088, 7232, 7248, 42528, 43216, 43264, 43472, 43504, 43600,
      44016, 65296, 66720, 68912, 69734, 69872, 69942, 70096, 70384, 70736, 70864, 71248, 71360, 71472, 71904,
      72016, 72784, 73040, 73120, 92768, 92864, 93008, 120782, 120792, 120802, 120812, 120822, 123200, 123632,
      125264, 130032]"

definition digit_of :: "nat \<Rightarrow> nat option" where
  "digit_of n = (case filter (\<lambda>z. z \<le> n \<and> n < z + 10) digit_zeros of z # _ \<Rightarrow> Some (n - z) | [] \<Rightarrow> None)"

text \<open>Digits with single underscores between them.\<close>

fun read_digits :: "nat list \<Rightarrow> nat list option" where
  "read_digits [] = None"
| "read_digits (n # ns) =
     (case digit_of n of
        None \<Rightarrow> None
      | Some d \<Rightarrow>
          (case ns of
             [] \<Rightarrow> Some [d]
           | m # ms \<Rightarrow> map_option (Cons d) (read_digits (if m = 95 then ms else ns))))"

definition number_of :: "nat list \<Rightarrow> nat" where
  "number_of ds = foldl (\<lambda>acc d. acc * 10 + d) 0 ds"

definition int_of_text :: "string \<Rightarrow> exn + int" where
  "int_of_text s =
     (case code_points (strip s) of
        None \<Rightarrow> Inl ValueError
      | Some ns \<Rightarrow>
          (let (neg, rest) = (case ns of n # r \<Rightarrow> if n = 45 then (True, r) else if n = 43 then (False, r) else (False, ns)
                              | [] \<Rightarrow> (False, ns))
           in case read_digits rest of
             None \<Rightarrow> Inl ValueError
           | Some ds \<Rightarrow>
               if length ds > int_max_str_digits then Inl ValueError
               else Inr (if neg then - int (number_of ds) else int (number_of ds))))"

text \<open>
  The float a literal \<open>m * 10 ^ e\<close> stands for, truncated. A value below one gives zero or, by
  rounding up, one; at \<open>2 ^ 1024\<close> it is infinite.
\<close>

definition trunc_float :: "nat \<Rightarrow> nat \<Rightarrow> exn + nat" where
  "trunc_float n d =
     (let q = n div d
      in if bit_length q \<ge> 53 then
           (let e = 2 ^ (bit_length q - 53); f = round_even n (d * e) * e
            in if f \<ge> 2 ^ 1024 then Inl OverflowError else Inr f)
         else (let e = 2 ^ (53 - bit_length q) in Inr (round_even (n * e) d div e)))"

definition int_of_float :: "string \<Rightarrow> exn + int" where
  "int_of_float lit =
     (if lit = ''NaN'' then Inl ValueError
      else if lit = ''Infinity'' \<or> lit = ''-Infinity'' then Inl OverflowError
      else let (sg, t) = minus_sign lit;
               i = takeWhile is_digit t; r = dropWhile is_digit t;
               (f, e) = frac_part r;
               x = drop 1 e; down = starts ''-'' x;
               k = read_nat (if starts ''-'' x \<or> starts ''+'' x then drop 1 x else x);
               m = read_nat (i @ drop 1 f); places = length (drop 1 f);
               v = (if down then trunc_float m (10 ^ (places + k)) else trunc_float (m * 10 ^ k) (10 ^ places))
           in map_sum id (\<lambda>n. if sg = '''' then int n else - int n) v)"

definition int_of_json :: "json \<Rightarrow> exn + int" where
  "int_of_json v =
     (case v of
        JInt i \<Rightarrow> Inr i
      | JBool b \<Rightarrow> Inr (if b then 1 else 0)
      | JStr s \<Rightarrow> int_of_text s
      | JFloat lit \<Rightarrow> int_of_float lit
      | _ \<Rightarrow> Inl TypeError)"

text \<open>\<open>str\<close>: how it writes floats and containers is an argument.\<close>

definition str_of_json :: "(json \<Rightarrow> string) \<Rightarrow> json \<Rightarrow> string" where
  "str_of_json R v =
     (case v of
        JStr s \<Rightarrow> s
      | JInt i \<Rightarrow> show_int i
      | JBool b \<Rightarrow> (if b then ''True'' else ''False'')
      | JNull \<Rightarrow> ''None''
      | _ \<Rightarrow> R v)"

section \<open>Messages\<close>

definition MSG_TEXT :: byte where
  "MSG_TEXT = 1"

definition MSG_FILE_OFFER :: byte where
  "MSG_FILE_OFFER = 2"

definition MSG_FILE_CHUNK :: byte where
  "MSG_FILE_CHUNK = 3"

definition FILE_CHUNK_SIZE :: nat where
  "FILE_CHUNK_SIZE = 256 * 1024"

definition MAX_FILE_SIZE :: int where
  "MAX_FILE_SIZE = 200 * 1024 * 1024"

definition MAX_CONCURRENT_INBOUND_TRANSFERS :: nat where
  "MAX_CONCURRENT_INBOUND_TRANSFERS = 4"

definition FILE_RECV_DIR :: string where
  "FILE_RECV_DIR = ''received_files''"

definition offer_json :: "bytes \<Rightarrow> string \<Rightarrow> int \<Rightarrow> string \<Rightarrow> json" where
  "offer_json file_id name len sha256_hex =
     JObj [(''id'', JStr (hex file_id)), (''name'', JStr name), (''size'', JInt len), (''sha256'', JStr sha256_hex)]"

definition encode_file_offer :: "bytes \<Rightarrow> string \<Rightarrow> int \<Rightarrow> string \<Rightarrow> bytes" where
  "encode_file_offer file_id name len sha256_hex =
     MSG_FILE_OFFER # ascii (dumps (offer_json file_id name len sha256_hex))"

definition encode_file_chunk :: "bytes \<Rightarrow> bytes \<Rightarrow> bytes" where
  "encode_file_chunk file_id chunk = MSG_FILE_CHUNK # file_id @ chunk"

section \<open>The name of a received file\<close>

text \<open>The components of a POSIX path; \<open>Path(name).name\<close> is the last one that is not a dot.\<close>

fun components :: "string \<Rightarrow> string list" where
  "components [] = [[]]"
| "components (c # s) =
     (if c = CHR ''/'' then [] # components s
      else (case components s of p # ps \<Rightarrow> (c # p) # ps | [] \<Rightarrow> [[c]]))"

definition path_name :: "string \<Rightarrow> string" where
  "path_name s = (case rev (filter (\<lambda>p. p \<noteq> '''' \<and> p \<noteq> ''.'') (components s)) of p # _ \<Rightarrow> p | [] \<Rightarrow> '''')"

definition stem_suffix :: "string \<Rightarrow> string \<times> string" where
  "stem_suffix name =
     (let ext = rev (takeWhile (\<lambda>c. c \<noteq> CHR ''.'') (rev name));
          stem = take (length name - length ext - 1) name
      in if ext = '''' \<or> ext = name \<or> stem = '''' then (name, '''') else (stem, CHR ''.'' # ext))"

text \<open>
  A name as the operating system gets it (\<open>os.fsencode\<close>): a surrogate that stands for a byte
  becomes that byte, other surrogates and the null character have no encoding.
\<close>

definition os_char :: "nat \<Rightarrow> string option" where
  "os_char n =
     (if n = 0 \<or> surrogate n \<and> \<not> (56448 \<le> n \<and> n < 56576) then None
      else Some (if surrogate n then [char_of (n - 56320)] else utf8_char n))"

fun os_chars :: "nat list \<Rightarrow> string option" where
  "os_chars [] = Some []"
| "os_chars (n # ns) =
     (case (os_char n, os_chars ns) of (Some c, Some s) \<Rightarrow> Some (c @ s) | _ \<Rightarrow> None)"

definition os_name :: "string \<Rightarrow> string option" where
  "os_name s = Option.bind (code_points s) os_chars"

definition NAME_MAX :: nat where
  "NAME_MAX = 255"

text \<open>
  \<open>(directory / name).exists()\<close>: a name without an encoding does not exist, one that is too
  long is an \<open>OSError\<close>, and the parent directory always exists.
\<close>

definition path_exists :: "files \<Rightarrow> string \<Rightarrow> string \<Rightarrow> exn + bool" where
  "path_exists fs dir name =
     (case os_name name of
        None \<Rightarrow> Inr False
      | Some q \<Rightarrow>
          if length q > NAME_MAX then Inl OSError
          else Inr (fs (path_join dir q) \<noteq> None \<or> q = ''..''))"

definition numbered :: "string \<Rightarrow> string \<Rightarrow> nat \<Rightarrow> string" where
  "numbered stem suffix i = stem @ '' ('' @ show_nat i @ '')'' @ suffix"

text \<open>ASCII characters survive the encoding, so a number that is long enough ends the search.\<close>

definition low_char :: "char \<Rightarrow> bool" where
  "low_char c \<longleftrightarrow> of_char c < (128 :: nat)"

lemma utf8_char_low: "n < 1114112 \<Longrightarrow> filter low_char (utf8_char n) = (if n < 128 then [char_of n] else [])"
  by (auto simp: utf8_char_def low_char_def)

lemma os_char_low: "n < 1114112 \<Longrightarrow> os_char n = Some c \<Longrightarrow> filter low_char c = filter low_char (utf8_char n)"
  by (auto simp: os_char_def utf8_char_low surrogate_def low_char_def split: if_splits)

lemma os_chars_low:
  "list_all (\<lambda>n. n < 1114112) ns \<Longrightarrow> os_chars ns = Some q \<Longrightarrow> filter low_char q = filter low_char (text_of ns)"
proof (induction ns arbitrary: q)
  case (Cons n ns)
  then obtain c r where "os_char n = Some c" "os_chars ns = Some r" "q = c @ r"
    by (auto split: option.splits)
  with Cons os_char_low [of n c] show ?case
    by (simp add: text_of_def)
qed (simp add: text_of_def)

lemma os_name_low: "os_name s = Some q \<Longrightarrow> filter low_char q = filter low_char s"
  using os_chars_low [OF code_points_bound] text_of_code_points [of s]
  by (auto simp: os_name_def bind_eq_Some_conv)

lemma os_name_ascii: "\<forall>c \<in> set s. 0 < (of_char c :: nat) \<and> of_char c < (128 :: nat) \<Longrightarrow> os_name s = Some s"
proof -
  assume "\<forall>c \<in> set s. 0 < (of_char c :: nat) \<and> of_char c < (128 :: nat)"
  then have "code_points s = Some (map of_char s) \<and> os_chars (map of_char s) = Some s"
    by (induction s)
      (simp_all add: code_points.simps [of "[]"] code_points.simps [of "_ # _"] decode_point_def os_char_def surrogate_def utf8_char_def)
  then show "os_name s = Some s" by (simp add: os_name_def)
qed

lemma low_char_digits: "\<forall>c \<in> set (show_nat n). low_char c"
proof (induction n rule: show_nat.induct)
  case (1 n)
  then show ?case
    by (cases "n < 10") (auto simp: low_char_def digit_char_def show_nat.simps [of n])
qed

lemma show_nat_bound: "n < 10 ^ length (show_nat n)"
proof (induction n rule: show_nat.induct)
  case (1 n)
  show ?case
  proof (cases "n < 10")
    case False
    with 1 have "n div 10 < 10 ^ length (show_nat (n div 10))" by simp
    then have "n < 10 * 10 ^ length (show_nat (n div 10))" by linarith
    with False show ?thesis by (simp add: show_nat.simps [of n])
  qed (simp add: show_nat.simps [of n])
qed

lemma numbered_exists_bound:
  assumes "path_exists fs dir (numbered stem suffix i) = Inr True"
  shows "i < 10 ^ 255"
proof -
  obtain q where q: "os_name (numbered stem suffix i) = Some q" "length q \<le> 255"
    using assms by (auto simp: path_exists_def NAME_MAX_def split: option.splits if_splits)
  have "length (show_nat i) \<le> length (filter low_char (numbered stem suffix i))"
    using low_char_digits [of i] by (simp add: numbered_def)
  also have "\<dots> \<le> length q"
    using os_name_low [OF q(1)] by (metis length_filter_le)
  finally have "length (show_nat i) \<le> 255" using q(2) by simp
  then have "(10 :: nat) ^ length (show_nat i) \<le> 10 ^ 255" by (intro power_increasing) simp_all
  with show_nat_bound [of i] show ?thesis by linarith
qed

function free_name :: "files \<Rightarrow> string \<Rightarrow> string \<Rightarrow> string \<Rightarrow> nat \<Rightarrow> exn + string" where
  "free_name fs dir stem suffix i =
     (case path_exists fs dir (numbered stem suffix i) of
        Inl e \<Rightarrow> Inl e
      | Inr False \<Rightarrow> Inr (numbered stem suffix i)
      | Inr True \<Rightarrow> free_name fs dir stem suffix (i + 1))"
  by pat_completeness auto
termination
  by (relation "measure (\<lambda>(fs, dir, stem, suffix, i). 10 ^ 255 - i)") (auto dest: numbered_exists_bound)

declare free_name.simps [simp del]

text \<open>The name, in \<open>directory\<close>, of the path that \<open>_unique_dest_path\<close> returns.\<close>

definition unique_dest_path :: "files \<Rightarrow> string \<Rightarrow> string \<Rightarrow> exn + string" where
  "unique_dest_path fs dir name =
     (let safe_name = (if path_name name = '''' then ''received_file'' else path_name name)
      in bind_exn (path_exists fs dir safe_name) (\<lambda>taken.
         if \<not> taken then Inr safe_name
         else let (stem, suffix) = stem_suffix safe_name in free_name fs dir stem suffix 1))"

section \<open>Receiving\<close>

datatype alert = Malformed_Offer | Oversized_Offer string | Invalid_Size | Too_Many_Transfers
  | Malformed_Chunk | Integrity_Failed string | Rejected_Frame exn | Different_Key json

datatype ui_error = Cannot_Save | Cannot_Write | Unexpected exn | Handshake_Failed handshake_reason
  | Declined json | Mismatched_Key | Passphrase_Needed | Incorrect_Passphrase | No_History exn

text \<open>What the worker puts on the event queue.\<close>

datatype ui_event =
    Identity_Loaded string
  | Status string
  | Pinned json string
  | Rate_Limited string
  | Handshake_Refused string
  | Reconnecting real nat
  | Trust_Prompt json string
  | Handshake_Done
  | History_Loaded "json list"
  | History_Disabled
  | Connection_Lost
  | Text_Message json string
  | Security_Alert alert
  | Ui_Error ui_error
  | File_Offered string int
  | File_Progress string nat int
  | File_Received string int string
  | Sending_Progress string nat nat
  | File_Sent string nat
  | Send_Failed string

record transfer =
  t_name :: string
  t_size :: int
  t_sha256 :: string
  t_received :: nat
  t_path :: string
  t_handle :: string
  t_digest :: bytes

record receiver =
  r_files :: files
  r_inbound :: "(bytes, transfer) dict"
  r_events :: "ui_event list"

text \<open>
  Whether the operations on the disk succeed during one call; a failed write leaves some of
  the data in the file.
\<close>

record disk_luck =
  mkdir_ok :: bool
  open_ok :: bool
  cut_write :: "nat option"
  close_ok :: bool
  unlink_ok :: bool

definition emit_event :: "ui_event \<Rightarrow> 'a receiver_scheme \<Rightarrow> 'a receiver_scheme" where
  "emit_event ev r = r\<lparr>r_events := r_events r @ [ev]\<rparr>"

definition unlink :: "disk_luck \<Rightarrow> transfer \<Rightarrow> 'a receiver_scheme \<Rightarrow> 'a receiver_scheme" where
  "unlink io t r = (if unlink_ok io then r\<lparr>r_files := (r_files r)(t_handle t := None)\<rparr> else r)"

definition write_handle :: "transfer \<Rightarrow> bytes \<Rightarrow> 'a receiver_scheme \<Rightarrow> 'a receiver_scheme" where
  "write_handle t b r =
     (case r_files r (t_handle t) of
        None \<Rightarrow> r
      | Some old \<Rightarrow> r\<lparr>r_files := (r_files r)(t_handle t \<mapsto> old @ b)\<rparr>)"

text \<open>The fields of an offer; the \<open>except\<close> clause around them catches most of what is raised.\<close>

definition parse_offer :: "(json \<Rightarrow> string) \<Rightarrow> bytes \<Rightarrow> exn + bytes \<times> string \<times> int \<times> string" where
  "parse_offer R body =
     bind_exn (bind_exn (decode_utf8 body) loads) (\<lambda>meta.
     bind_exn (json_hex_field ''id'' meta) (\<lambda>file_id.
     bind_exn (json_get ''name'' meta) (\<lambda>name.
     bind_exn (bind_exn (json_get ''size'' meta) int_of_json) (\<lambda>len.
     bind_exn (json_get ''sha256'' meta) (\<lambda>sha.
       Inr (file_id, str_of_json R name, len, str_of_json R sha))))))"

definition offer_caught :: "exn \<Rightarrow> bool" where
  "offer_caught e \<longleftrightarrow> is_value_error e \<or> (case e of KeyError _ \<Rightarrow> True | _ \<Rightarrow> False)"

text \<open>\<open>open(dest, "wb")\<close>.\<close>

definition open_wb :: "disk_luck \<Rightarrow> string \<Rightarrow> string \<Rightarrow> exn + string" where
  "open_wb io dir name =
     (case os_name name of
        None \<Rightarrow> Inl (if (case code_points name of None \<Rightarrow> False | Some ns \<Rightarrow> list_all (\<lambda>n. n = 0 \<or> os_char n \<noteq> None) ns)
                    then ValueError else UnicodeEncodeError)
      | Some q \<Rightarrow> if open_ok io \<and> length q \<le> NAME_MAX then Inr (path_join dir q) else Inl OSError)"

definition handle_file_offer ::
    "(json \<Rightarrow> string) \<Rightarrow> disk_luck \<Rightarrow> bytes \<Rightarrow> ('a receiver_scheme, unit) stepper" where
  "handle_file_offer R io body r =
     (let refuse = (\<lambda>a. (Inr (), emit_event (Security_Alert a) r))
      in case parse_offer R body of
        Inl e \<Rightarrow> if offer_caught e then refuse Malformed_Offer else (Inl e, r)
      | Inr (file_id, name, len, sha) \<Rightarrow>
          if len > MAX_FILE_SIZE then
            (case human_size (nat len) of Inl e \<Rightarrow> (Inl e, r) | Inr txt \<Rightarrow> refuse (Oversized_Offer txt))
          else if len \<le> 0 then refuse Invalid_Size
          else if length (r_inbound r) \<ge> MAX_CONCURRENT_INBOUND_TRANSFERS then refuse Too_Many_Transfers
          else if \<not> mkdir_ok io then (Inl OSError, r)
          else (case unique_dest_path (r_files r) FILE_RECV_DIR name of
              Inl e \<Rightarrow> (Inl e, r)
            | Inr dest \<Rightarrow>
                (case open_wb io FILE_RECV_DIR dest of
                   Inl e \<Rightarrow> if e = OSError then (Inr (), emit_event (Ui_Error Cannot_Save) r) else (Inl e, r)
                 | Inr handle \<Rightarrow>
                     (Inr (), emit_event (File_Offered name len)
                       (r\<lparr>r_files := (r_files r)(handle \<mapsto> []),
                          r_inbound := AList.update file_id
                            \<lparr>t_name = name, t_size = len, t_sha256 = sha, t_received = 0,
                             t_path = path_join FILE_RECV_DIR dest, t_handle = handle, t_digest = []\<rparr>
                            (r_inbound r)\<rparr>)))))"

text \<open>
  A chunk. A failing \<open>close\<close> at the end of a transfer (the rest of the data goes to the disk
  then) is an \<open>OSError\<close> that nothing catches.
\<close>

definition handle_file_chunk :: "disk_luck \<Rightarrow> bytes \<Rightarrow> ('a receiver_scheme, unit) stepper" where
  "handle_file_chunk io body r =
     (if length body < 16 then (Inr (), emit_event (Security_Alert Malformed_Chunk) r)
      else let file_id = take 16 body; chunk = drop 16 body
      in case map_of (r_inbound r) file_id of
        None \<Rightarrow> (Inr (), r)
      | Some t \<Rightarrow>
          (case cut_write io of
             Some n \<Rightarrow>
               (Inr (), emit_event (Ui_Error Cannot_Write) (unlink io t
                 ((write_handle t (take n chunk) r)\<lparr>r_inbound := AList.delete file_id (r_inbound r)\<rparr>)))
           | None \<Rightarrow>
               (let t1 = t\<lparr>t_digest := t_digest t @ chunk, t_received := t_received t + length chunk\<rparr>;
                    r1 = emit_event (File_Progress (t_name t1) (t_received t1) (t_size t1))
                      ((write_handle t chunk r)\<lparr>r_inbound := AList.update file_id t1 (r_inbound r)\<rparr>);
                    r2 = r1\<lparr>r_inbound := AList.delete file_id (r_inbound r1)\<rparr>
                in if int (t_received t1) < t_size t1 then (Inr (), r1)
                   else if \<not> close_ok io then (Inl OSError, r1)
                   else if hex (sha256 (t_digest t1)) \<noteq> t_sha256 t1
                   then (Inr (), unlink io t1 (emit_event (Security_Alert (Integrity_Failed (t_name t1))) r2))
                   else (Inr (), emit_event (File_Received (t_name t1) (t_size t1) (t_path t1)) r2))))"

text \<open>Abandoning the transfers: \<open>kept\<close> says which files could not be removed.\<close>

definition abort_inbound_transfers :: "(string \<Rightarrow> bool) \<Rightarrow> 'a receiver_scheme \<Rightarrow> 'a receiver_scheme" where
  "abort_inbound_transfers kept r =
     r\<lparr>r_files := fold (\<lambda>(_, t) fs. if kept (t_handle t) then fs else fs(t_handle t := None)) (r_inbound r) (r_files r),
       r_inbound := []\<rparr>"

end
