(* ===== verification/History.thy ===== *)
theory History
  imports Identity
begin

text \<open>
  \<open>history.py\<close>: the encrypted chat history. The salt and the nonce a call draws, the time stamp
  (the literal of the float) and what the disk does are arguments; the lock is not modelled,
  an operation is one step. \<open>_save\<close> writes a temporary file and renames it, and each of the
  two can fail or be the last thing that happens.
\<close>

section \<open>The object\<close>

record history =
  h_path :: string
  h_name :: string
  h_key :: bytes
  h_salt :: bytes
  h_entries :: json

definition SALT_SIZE :: nat where
  "SALT_SIZE = 16"

definition history_path :: "string \<Rightarrow> string \<Rightarrow> string" where
  "history_path dir name = path_join dir (name @ ''_history.enc'')"

text \<open>\<open>__init__\<close>: a \<open>None\<close> for the entries is an empty list.\<close>

definition new_history :: "string \<Rightarrow> string \<Rightarrow> bytes \<Rightarrow> bytes \<Rightarrow> json \<Rightarrow> history" where
  "new_history path name key salt entries =
     \<lparr>h_path = path, h_name = name, h_key = key, h_salt = salt,
      h_entries = (if entries = JNull then JArr [] else entries)\<rparr>"

definition load_history ::
    "cryptolib \<Rightarrow> string \<Rightarrow> string \<Rightarrow> string option \<Rightarrow> bytes \<Rightarrow> files \<Rightarrow> exn + history" where
  "load_history L name dir passphrase fresh_salt fs =
     (case truthy passphrase of
        None \<Rightarrow> Inl HistoryUnavailable
      | Some p \<Rightarrow>
          (let path = history_path dir name
           in case fs path of
             None \<Rightarrow>
               Inr (new_history path name (derive_key_from_passphrase L p fresh_salt 32) fresh_salt (JArr []))
           | Some raw \<Rightarrow>
               if length raw < SALT_SIZE + NONCE_SIZE then Inl ValueError
               else
                 (let salt = take SALT_SIZE raw;
                      nonce = take NONCE_SIZE (drop SALT_SIZE raw);
                      ciphertext = drop (SALT_SIZE + NONCE_SIZE) raw;
                      key = derive_key_from_passphrase L p salt 32
                  in case bind_exn (encode_utf8 name) (aes_gcm_decrypt L key nonce ciphertext) of
                    Inl e \<Rightarrow> Inl ValueError
                  | Inr plaintext \<Rightarrow>
                      bind_exn (bind_exn (decode_utf8 plaintext) loads) (\<lambda>entries.
                      Inr (new_history path name key salt entries)))))"

section \<open>Entries\<close>

text \<open>Two names are equal if they are the same key of a dictionary.\<close>

definition same_name :: "json \<Rightarrow> json \<Rightarrow> bool" where
  "same_name a b \<longleftrightarrow> dict_key a \<noteq> None \<and> dict_key a = dict_key b"

fun entries_of :: "json \<Rightarrow> json list \<Rightarrow> exn + json list" where
  "entries_of peer [] = Inr []"
| "entries_of peer (e # es) =
     bind_exn (json_get ''peer'' e) (\<lambda>p.
     bind_exn (entries_of peer es) (\<lambda>rest. Inr (if same_name p peer then e # rest else rest)))"

text \<open>Iterating over a value that is no list: its keys or characters are not subscriptable.\<close>

definition for_peer :: "json \<Rightarrow> history \<Rightarrow> exn + json list" where
  "for_peer peer h =
     (case h_entries h of
        JArr es \<Rightarrow> entries_of peer es
      | JObj m \<Rightarrow> if m = [] then Inr [] else Inl TypeError
      | JStr s \<Rightarrow> if s = [] then Inr [] else Inl TypeError
      | _ \<Rightarrow> Inl TypeError)"

definition history_entry :: "string \<Rightarrow> json \<Rightarrow> string \<Rightarrow> string \<Rightarrow> json" where
  "history_entry ts peer direction text =
     JObj [(''ts'', JFloat ts), (''peer'', peer), (''direction'', JStr direction), (''text'', JStr text)]"

section \<open>Saving\<close>

text \<open>The disk does what it is told, fails in the middle of the write, or before the rename.\<close>

datatype disk = Disk_Works | Write_Fails bytes | Rename_Fails

definition save_history :: "cryptolib \<Rightarrow> bytes \<Rightarrow> disk \<Rightarrow> history \<Rightarrow> files \<Rightarrow> (exn + unit) \<times> files" where
  "save_history L nonce disk h fs =
     (case bind_exn (encode_utf8 (h_name h)) (aes_gcm_encrypt L (h_key h) nonce (ascii (dumps (h_entries h)))) of
        Inl e \<Rightarrow> (Inl e, fs)
      | Inr ciphertext \<Rightarrow>
          (let tmp = h_path h @ ''.tmp''; data = h_salt h @ nonce @ ciphertext
           in case disk of
             Write_Fails part \<Rightarrow> (Inl OSError, fs(tmp \<mapsto> part))
           | Rename_Fails \<Rightarrow> (Inl OSError, fs(tmp \<mapsto> data))
           | Disk_Works \<Rightarrow> (Inr (), fs(h_path h \<mapsto> data, tmp := None))))"

definition append_history ::
    "cryptolib \<Rightarrow> json \<Rightarrow> string \<Rightarrow> string \<Rightarrow> string \<Rightarrow> bytes \<Rightarrow> disk \<Rightarrow> history \<Rightarrow> files \<Rightarrow>
     (exn + unit) \<times> history \<times> files" where
  "append_history L peer direction text ts nonce disk h fs =
     (case h_entries h of
        JArr es \<Rightarrow>
          (let h' = h\<lparr>h_entries := JArr (es @ [history_entry ts peer direction text])\<rparr>;
               (r, fs') = save_history L nonce disk h' fs
           in (r, h', fs'))
      | _ \<Rightarrow> (Inl AttributeError, h, fs))"

section \<open>The file on disk\<close>

text \<open>A later start of the program reads the object back.\<close>

definition saved_as :: "cryptolib \<Rightarrow> string \<Rightarrow> string \<Rightarrow> history \<Rightarrow> files \<Rightarrow> bool" where
  "saved_as L dir passphrase h fs \<longleftrightarrow>
     (\<forall>salt. load_history L (h_name h) dir (Some passphrase) salt fs = Inr h)"

definition history_ok :: "cryptolib \<Rightarrow> string \<Rightarrow> string \<Rightarrow> history \<Rightarrow> bool" where
  "history_ok L dir passphrase h \<longleftrightarrow>
     h_path h = history_path dir (h_name h) \<and> passphrase \<noteq> '''' \<and> utf8_ok (h_name h) \<and> length (h_name h) < gcm_limit \<and>
     length (h_salt h) = SALT_SIZE \<and>
     h_key h = derive_key_from_passphrase L passphrase (h_salt h) 32 \<and>
     (\<exists>es. h_entries h = JArr es) \<and> wf_json (h_entries h) \<and> length (dumps (h_entries h)) < gcm_limit"

lemma save_history_works:
  assumes "aead_laws L" and "scrypt_laws L" and ok: "history_ok L dir p h" and "length nonce = NONCE_SIZE"
  shows "\<exists>ct. save_history L nonce disk h fs =
      (case disk of
         Write_Fails part \<Rightarrow> (Inl OSError, fs(h_path h @ ''.tmp'' \<mapsto> part))
       | Rename_Fails \<Rightarrow> (Inl OSError, fs(h_path h @ ''.tmp'' \<mapsto> h_salt h @ nonce @ ct))
       | Disk_Works \<Rightarrow> (Inr (), fs(h_path h \<mapsto> h_salt h @ nonce @ ct, h_path h @ ''.tmp'' := None))) \<and>
    aes_gcm_decrypt L (h_key h) nonce ct (ascii (h_name h)) = Inr (ascii (dumps (h_entries h)))"
proof -
  have "length (h_key h) = 32"
    using assms(2) ok by (simp add: history_ok_def derive_key_from_passphrase_def scrypt_laws_def)
  moreover have "length (ascii (dumps (h_entries h))) < gcm_limit" "length (ascii (h_name h)) < gcm_limit"
    using ok by (simp_all add: history_ok_def)
  ultimately obtain ct where "gcm_encrypt L (h_key h) nonce (ascii (dumps (h_entries h))) (ascii (h_name h)) = Inr ct"
    "gcm_decrypt L (h_key h) nonce ct (ascii (h_name h)) = Inr (ascii (dumps (h_entries h)))"
    using assms(1,4) unfolding aead_laws_def by blast
  then show ?thesis
    using ok
    by (intro exI [of _ ct]) (simp add: save_history_def history_ok_def encode_utf8_def aes_gcm_encrypt_def
        aes_gcm_decrypt_def Let_def split: disk.splits)
qed

lemma load_written:
  assumes ok: "history_ok L dir p h" and "length nonce = NONCE_SIZE"
    and dec: "aes_gcm_decrypt L (h_key h) nonce ct (ascii (h_name h)) = Inr (ascii (dumps (h_entries h)))"
    and written: "fs (h_path h) = Some (h_salt h @ nonce @ ct)"
  shows "saved_as L dir p h fs"
  unfolding saved_as_def
proof
  fix salt
  have json: "bind_exn (decode_utf8 (ascii (dumps (h_entries h)))) loads = Inr (h_entries h)"
    unfolding dumps_def by (rule decode_dump) (use ok in \<open>simp add: history_ok_def\<close>)
  have "truthy (Some p) = Some p" "length (h_salt h) = SALT_SIZE" and path: "h_path h = history_path dir (h_name h)"
    using ok by (simp_all add: history_ok_def truthy_def split: list.split)
  then show "load_history L (h_name h) dir (Some p) salt fs = Inr h"
    using ok assms(2) written [unfolded path] dec json
    by (auto simp: load_history_def Let_def encode_utf8_def history_ok_def new_history_def)
qed

lemma load_history_same:
  "fs' (history_path dir name) = fs (history_path dir name) \<Longrightarrow>
     load_history L name dir p salt fs' = load_history L name dir p salt fs"
  by (cases "truthy p") (simp_all add: load_history_def Let_def)

section \<open>A journal\<close>

text \<open>
  The contract of a log that survives a crash: an addition is held in memory, and a restart
  finds everything held after an addition that succeeded and what it found before after one
  that failed.
\<close>

fun add_all :: "('n \<Rightarrow> 's \<Rightarrow> (exn + unit) \<times> 's) \<Rightarrow> 'n list \<Rightarrow> 's \<Rightarrow> 's" where
  "add_all add [] s = s"
| "add_all add (n # ns) s = add_all add ns (snd (add n s))"

fun fits_all :: "('n \<Rightarrow> 's \<Rightarrow> (exn + unit) \<times> 's) \<Rightarrow> ('n \<Rightarrow> 's \<Rightarrow> bool) \<Rightarrow> 'n list \<Rightarrow> 's \<Rightarrow> bool" where
  "fits_all add fits [] s = True"
| "fits_all add fits (n # ns) s = (fits n s \<and> fits_all add fits ns (snd (add n s)))"

lemma fits_all_append: "fits_all add fits (ns @ ms) s \<longleftrightarrow> fits_all add fits ns s \<and> fits_all add fits ms (add_all add ns s)"
  by (induction ns arbitrary: s) auto

lemma add_all_append: "add_all add (ns @ ms) s = add_all add ms (add_all add ns s)"
  by (induction ns arbitrary: s) auto

locale journal =
  fixes recovered :: "'s \<Rightarrow> 'e list option"
    and held :: "'s \<Rightarrow> 'e list"
    and add :: "'n \<Rightarrow> 's \<Rightarrow> (exn + unit) \<times> 's"
    and entry :: "'n \<Rightarrow> 'e"
    and fits :: "'n \<Rightarrow> 's \<Rightarrow> bool"
  assumes add_held: "fits n s \<Longrightarrow> held (snd (add n s)) = held s @ [entry n]"
    and add_recovered: "fits n s \<Longrightarrow>
      recovered (snd (add n s)) = (if fst (add n s) = Inr () then Some (held s @ [entry n]) else recovered s)"
begin

lemma run_held: "fits_all add fits ns s \<Longrightarrow> held (add_all add ns s) = held s @ map entry ns"
  by (induction ns arbitrary: s) (simp_all add: add_held)

lemma run_recovered:
  assumes "fits_all add fits ns s" and "recovered s = Some es" and "held s = es @ ds"
  shows "\<exists>k. recovered (add_all add ns s) = Some (es @ take k (ds @ map entry ns))"
  using assms
proof (induction ns arbitrary: s es ds)
  case Nil
  then show ?case by (intro exI [of _ 0]) simp
next
  case (Cons n ns)
  show ?case
  proof (cases "fst (add n s) = Inr ()")
    case True
    with Cons.prems have "recovered (snd (add n s)) = Some (es @ ds @ [entry n])"
      "held (snd (add n s)) = (es @ ds @ [entry n]) @ []"
      by (simp_all add: add_recovered add_held)
    from Cons.IH [OF _ this] Cons.prems(1) obtain k
      where "recovered (add_all add (n # ns) s) = Some ((es @ ds @ [entry n]) @ take k (map entry ns))"
      by auto
    then show ?thesis
      by (intro exI [of _ "length ds + 1 + k"]) (simp add: take_Cons' )
  next
    case False
    with Cons.prems have "recovered (snd (add n s)) = Some es" "held (snd (add n s)) = es @ ds @ [entry n]"
      by (simp_all add: add_recovered add_held)
    from Cons.IH [OF _ this] Cons.prems(1) show ?thesis by auto
  qed
qed

end

text \<open>One call of \<open>append\<close>, with what the clock, the random source and the disk do in it.\<close>

record log_call =
  n_peer :: json
  n_direction :: string
  n_text :: string
  n_ts :: string
  n_nonce :: bytes
  n_disk :: disk

definition add_note :: "cryptolib \<Rightarrow> log_call \<Rightarrow> history \<times> files \<Rightarrow> (exn + unit) \<times> history \<times> files" where
  "add_note L n s =
     append_history L (n_peer n) (n_direction n) (n_text n) (n_ts n) (n_nonce n) (n_disk n) (fst s) (snd s)"

definition note_entry :: "log_call \<Rightarrow> json" where
  "note_entry n = history_entry (n_ts n) (n_peer n) (n_direction n) (n_text n)"

definition list_of :: "json \<Rightarrow> json list" where
  "list_of j = (case j of JArr es \<Rightarrow> es | _ \<Rightarrow> [])"

definition held_entries :: "history \<times> files \<Rightarrow> json list" where
  "held_entries s = list_of (h_entries (fst s))"

definition recovered_entries :: "cryptolib \<Rightarrow> string \<Rightarrow> string \<Rightarrow> history \<times> files \<Rightarrow> json list option" where
  "recovered_entries L dir p s =
     (case load_history L (h_name (fst s)) dir (Some p) [] (snd s) of
        Inr h \<Rightarrow> Some (list_of (h_entries h)) | Inl _ \<Rightarrow> None)"

definition note_fits :: "cryptolib \<Rightarrow> string \<Rightarrow> string \<Rightarrow> log_call \<Rightarrow> history \<times> files \<Rightarrow> bool" where
  "note_fits L dir p n s \<longleftrightarrow>
     aead_laws L \<and> scrypt_laws L \<and> length (n_nonce n) = NONCE_SIZE \<and> history_ok L dir p (fst s) \<and>
     history_ok L dir p ((fst s)\<lparr>h_entries := JArr (held_entries s @ [note_entry n])\<rparr>)"

lemma temporary_path: "p \<noteq> p @ ''.tmp''" "p @ ''.tmp'' \<noteq> p"
  by simp_all

lemma add_note_outcome:
  assumes "note_fits L dir p n s"
  shows "held_entries (snd (add_note L n s)) = held_entries s @ [note_entry n]"
    and "recovered_entries L dir p (snd (add_note L n s)) =
      (if fst (add_note L n s) = Inr () then Some (held_entries s @ [note_entry n]) else recovered_entries L dir p s)"
proof -
  obtain h fs where s: "s = (h, fs)" by (cases s)
  obtain es where es: "h_entries h = JArr es"
    using assms by (auto simp: note_fits_def s history_ok_def)
  define h' where "h' = h\<lparr>h_entries := JArr (es @ [note_entry n])\<rparr>"
  have ok: "history_ok L dir p h'" and path: "h_path h' = history_path dir (h_name h')"
    and same: "h_path h' = h_path h" "h_name h' = h_name h" "h_entries h' = JArr (es @ [note_entry n])"
    using assms by (simp_all add: note_fits_def s held_entries_def list_of_def es h'_def history_ok_def)
  obtain ct where save: "save_history L (n_nonce n) (n_disk n) h' fs =
      (case n_disk n of
         Write_Fails part \<Rightarrow> (Inl OSError, fs(h_path h' @ ''.tmp'' \<mapsto> part))
       | Rename_Fails \<Rightarrow> (Inl OSError, fs(h_path h' @ ''.tmp'' \<mapsto> h_salt h' @ n_nonce n @ ct))
       | Disk_Works \<Rightarrow> (Inr (), fs(h_path h' \<mapsto> h_salt h' @ n_nonce n @ ct, h_path h' @ ''.tmp'' := None)))"
    and dec: "aes_gcm_decrypt L (h_key h') (n_nonce n) ct (ascii (h_name h')) = Inr (ascii (dumps (h_entries h')))"
    using save_history_works [OF _ _ ok] assms unfolding note_fits_def by blast
  have add: "add_note L n (h, fs) = (let (r, fs') = save_history L (n_nonce n) (n_disk n) h' fs in (r, h', fs'))"
    by (simp add: add_note_def append_history_def s es h'_def note_entry_def Let_def)
  show "held_entries (snd (add_note L n s)) = held_entries s @ [note_entry n]"
    by (simp add: add split_beta held_entries_def same es s list_of_def)
  show "recovered_entries L dir p (snd (add_note L n s)) =
      (if fst (add_note L n s) = Inr () then Some (held_entries s @ [note_entry n]) else recovered_entries L dir p s)"
  proof (cases "n_disk n")
    case Disk_Works
    let ?fs = "fs(h_path h' \<mapsto> h_salt h' @ n_nonce n @ ct, h_path h' @ ''.tmp'' := None)"
    have "saved_as L dir p h' ?fs"
      by (rule load_written [OF ok _ dec]) (use assms in \<open>simp_all add: note_fits_def\<close>)
    with Disk_Works save show ?thesis
      by (simp add: add recovered_entries_def saved_as_def same es s held_entries_def list_of_def)
  next
    case (Write_Fails part)
    with save show ?thesis
      by (simp add: add recovered_entries_def s same path [unfolded same])
        (subst load_history_same [of _ _ _ fs]; simp)
  next
    case Rename_Fails
    with save show ?thesis
      by (simp add: add recovered_entries_def s same path [unfolded same])
        (subst load_history_same [of _ _ _ fs]; simp)
  qed
qed

interpretation chat_log: journal "recovered_entries L dir p" held_entries "add_note L" note_entry "note_fits L dir p"
  by unfold_locales (rule add_note_outcome; assumption)+

end
