(* ===== verification/Peer_Worker.thy ===== *)
theory Peer_Worker
  imports File_Transfer History
begin

text \<open>
  \<open>PeerWorker\<close> of \<open>gui.py\<close>: the thread that connects or listens, pins, shakes hands and then
  reads frames until the connection is lost, and starts again. Its fields are a record on top
  of the receiver of file transfers. Everything outside the thread comes in lists that the
  loops consume, one element a pass; the end of such a list is the moment \<open>stop\<close> is called.
\<close>

section \<open>Starting\<close>

definition GUI_KEY_DIR :: string where
  "GUI_KEY_DIR = ''./gui_keys''"

definition gui_load_or_create_identity ::
    "cryptolib \<Rightarrow> pemlib \<Rightarrow> string \<Rightarrow> string option \<Rightarrow> bytes \<Rightarrow> files \<Rightarrow> (exn + identity) \<times> files" where
  "gui_load_or_create_identity L P name passphrase priv fs =
     (case fs (key_path GUI_KEY_DIR name) of
        None \<Rightarrow>
          (let me = new_identity L name priv
           in (Inr me, save_identity P me GUI_KEY_DIR (truthy passphrase) fs))
      | Some _ \<Rightarrow>
          (bind_exn (is_encrypted P name GUI_KEY_DIR fs) (\<lambda>encrypted.
             if encrypted
             then (case truthy passphrase of
                 None \<Rightarrow> Inl PassphraseNeeded
               | Some p \<Rightarrow> load_identity L P name GUI_KEY_DIR (Some p) fs)
             else load_identity L P name GUI_KEY_DIR None fs), fs))"

text \<open>The words for a fingerprint: one pair a byte, from its two halves.\<close>

definition FINGERPRINT_ADJECTIVES :: "string list" where
  "FINGERPRINT_ADJECTIVES =
     [''amber'', ''brave'', ''calm'', ''dusty'', ''eager'', ''fuzzy'', ''giant'', ''hollow'',
      ''icy'', ''jolly'', ''keen'', ''lucky'', ''misty'', ''noble'', ''olive'', ''proud'']"

definition FINGERPRINT_NOUNS :: "string list" where
  "FINGERPRINT_NOUNS =
     [''anchor'', ''badger'', ''cactus'', ''delta'', ''ember'', ''falcon'', ''granite'', ''harbor'',
      ''ivory'', ''jasper'', ''kestrel'', ''lagoon'', ''meadow'', ''nectar'', ''opal'', ''pepper'']"

definition word_pair :: "byte \<Rightarrow> string" where
  "word_pair b = FINGERPRINT_ADJECTIVES ! unat (drop_bit 4 b) @ ''-'' @ FINGERPRINT_NOUNS ! unat (b AND 15)"

definition fingerprint_to_words :: "string \<Rightarrow> exn + string" where
  "fingerprint_to_words hex_fingerprint =
     bind_exn (fromhex (filter (\<lambda>c. c \<noteq> CHR '':'') hex_fingerprint)) (\<lambda>raw.
     Inr (join '' '' (map word_pair raw)))"

section \<open>The worker\<close>

datatype role = Host | Connect

record worker = receiver +
  w_name :: string
  w_role :: role
  w_me :: identity
  w_trust :: trust_store
  w_limiter :: "sqlite_limiter option"
  w_history :: "history option"
  w_peer :: json
  w_sock :: "socket option"
  w_channel :: "channel option"
  w_attempt :: nat
  w_shown_for :: "string list"
  w_log :: "event list"

definition trust_path :: "string \<Rightarrow> string" where
  "trust_path name = GUI_KEY_DIR @ ''/'' @ name @ ''_trust.json''"

text \<open>\<open>__init__\<close> and the part of \<open>run\<close> before the loop.\<close>

definition new_worker :: "string \<Rightarrow> role \<Rightarrow> identity \<Rightarrow> trust_store \<Rightarrow> files \<Rightarrow> worker" where
  "new_worker name role me ts fs =
     \<lparr>r_files = fs, r_inbound = [], r_events = [Identity_Loaded (id_fingerprint me)],
      w_name = name, w_role = role, w_me = me, w_trust = ts, w_limiter = None, w_history = None, w_peer = JNull,
      w_sock = None, w_channel = None, w_attempt = 0, w_shown_for = [], w_log = []\<rparr>"

definition start_worker ::
    "cryptolib \<Rightarrow> pemlib \<Rightarrow> string \<Rightarrow> role \<Rightarrow> string option \<Rightarrow> bool \<Rightarrow> bytes \<Rightarrow> bytes \<Rightarrow> files \<Rightarrow>
     (ui_event list + worker) \<times> files" where
  "start_worker L P name role passphrase saving priv salt fs =
     (case gui_load_or_create_identity L P name (truthy passphrase) priv fs of
        (started, fs1) \<Rightarrow>
          (case bind_exn started (\<lambda>me. bind_exn (load_store (trust_path name) fs1) (\<lambda>ts. Inr (me, ts))) of
             Inl e \<Rightarrow>
               (Inl [Ui_Error (if e = PassphraseNeeded then Passphrase_Needed
                               else if is_value_error e then Incorrect_Passphrase else Unexpected e)], fs1)
           | Inr (me, ts) \<Rightarrow>
               (let w = new_worker name role me ts fs1
                in if \<not> saving then (Inr w, fs1)
                   else (case load_history L name GUI_KEY_DIR (truthy passphrase) salt fs1 of
                       Inl e \<Rightarrow> (Inl (r_events w @ [Ui_Error (No_History e)]), fs1)
                     | Inr h \<Rightarrow> (Inr (w\<lparr>w_history := Some h\<rparr>), fs1)))))"

text \<open>A step on the socket, which is the worker's while it is connected.\<close>

definition on_conn :: "(socket \<Rightarrow> (exn + 'a) \<times> socket) \<Rightarrow> (worker, 'a) stepper" where
  "on_conn f w =
     (case w_sock w of
        None \<Rightarrow> (Inl AttributeError, w)
      | Some s \<Rightarrow> (let (r, s') = f s in (r, w\<lparr>w_sock := Some s'\<rparr>)))"

definition set_deadline :: "bool \<Rightarrow> worker \<Rightarrow> worker" where
  "set_deadline d w = w\<lparr>w_sock := map_option (\<lambda>s. s\<lparr>deadline := d\<rparr>) (w_sock w)\<rparr>"

section \<open>Introduction and handshake\<close>

text \<open>The human's answer to the trust dialogue is an argument.\<close>

definition pin_new :: "json \<Rightarrow> bytes \<Rightarrow> (worker, unit) stepper" where
  "pin_new name pub w =
     (case dict_key name of
        None \<Rightarrow> (Inl TypeError, w)
      | Some k \<Rightarrow>
          (case pin k pub (w_trust w) of
             (Inl e, ts) \<Rightarrow> (Inl e, w\<lparr>w_trust := ts\<rparr>)
           | (Inr _, ts) \<Rightarrow>
               (Inr (), emit_event (Pinned name (fingerprint_for_bytes pub))
                  (w\<lparr>w_trust := ts, r_files := save_store ts (trust_path (w_name w)) (r_files w)\<rparr>))))"

definition check_pin :: "cryptolib \<Rightarrow> bool \<Rightarrow> json \<Rightarrow> bytes \<Rightarrow> (worker, unit) stepper" where
  "check_pin L trusts name pub w =
     (case trusted_key_of_wire L name (w_trust w) of
        Inl e \<Rightarrow> (Inl e, w)
      | Inr None \<Rightarrow>
          (let w1 = emit_event (Trust_Prompt name (fingerprint_for_bytes pub)) w
           in if \<not> trusts then (Inl (HandshakeError (Declined_Trust name)), w1) else pin_new name pub w1)
      | Inr (Some _) \<Rightarrow>
          (if dict_key name \<noteq> None \<and> is_trusted (the (dict_key name)) pub (w_trust w) then (Inr (), w)
           else (Inl (HandshakeError Trust_Mismatch), emit_event (Security_Alert (Different_Key name)) w)))"

definition exchange_identity_and_pin :: "cryptolib \<Rightarrow> bool \<Rightarrow> (worker, unit) stepper" where
  "exchange_identity_and_pin L trusts w0 =
     and_next (on_conn (send_json (introduction (w_me w0)))) (\<lambda>_.
     and_next (on_conn recv_json) (\<lambda>intro.
     and_next (pure (parse_introduction intro)) (\<lambda>(name, pub).
     and_next (check_pin L trusts name pub) (\<lambda>_ w. (Inr (), w\<lparr>w_peer := name\<rparr>))))) w0"

definition recv_wire :: "(json \<Rightarrow> exn + 'a) \<Rightarrow> (worker, 'a) stepper" where
  "recv_wire from_wire = and_next (on_conn recv_json) (\<lambda>v. pure (from_wire v))"

definition finish_responder :: "cryptolib \<Rightarrow> responder_state \<Rightarrow> handshake_message3 \<Rightarrow> real \<Rightarrow> (worker, unit) stepper" where
  "finish_responder L st msg3 now w =
     (let (r, evs) = responder_finish L (w_trust w) st msg3 now; w1 = w\<lparr>w_log := w_log w @ evs\<rparr>
      in case r of Inl e \<Rightarrow> (Inl e, w1) | Inr ch \<Rightarrow> (Inr (), w1\<lparr>w_channel := Some ch\<rparr>))"

definition finish_initiator ::
    "cryptolib \<Rightarrow> initiator_state \<Rightarrow> handshake_message2 \<Rightarrow> real \<Rightarrow> (worker, handshake_message3) stepper" where
  "finish_initiator L st msg2 now w =
     (let (r, evs) = initiator_finish L (w_me w) (w_trust w) st msg2 now; w1 = w\<lparr>w_log := w_log w @ evs\<rparr>
      in case r of Inl e \<Rightarrow> (Inl e, w1) | Inr (msg3, ch) \<Rightarrow> (Inr msg3, w1\<lparr>w_channel := Some ch\<rparr>))"

section \<open>Hosting\<close>

text \<open>A pass of the accept loop: somebody connects, or nobody did for half a second.\<close>

record arrival =
  a_ip :: string
  a_time :: real
  a_failed :: real
  a_sock :: socket
  a_trusts :: bool
  a_eph :: bytes
  a_joined :: real

definition host_handshake :: "cryptolib \<Rightarrow> arrival \<Rightarrow> (worker, unit) stepper" where
  "host_handshake L a =
     and_next (exchange_identity_and_pin L (a_trusts a)) (\<lambda>_.
     and_next (recv_wire from_wire1) (\<lambda>msg1 w.
     let (msg2, st) = responder_respond L (w_me w) msg1 (a_eph a)
     in and_next (on_conn (send_json (to_wire2 msg2))) (\<lambda>_.
        and_next (recv_wire from_wire3) (\<lambda>msg3.
        finish_responder L st msg3 (a_joined a))) w))"

text \<open>What \<open>except (HandshakeError, TimeoutError)\<close> catches.\<close>

definition refused :: "exn \<Rightarrow> bool" where
  "refused e \<longleftrightarrow> (case e of HandshakeError _ \<Rightarrow> True | TimeoutError \<Rightarrow> True | _ \<Rightarrow> False)"

text \<open>The result says whether a handshake succeeded, and who is still to arrive.\<close>

fun accept_loop :: "cryptolib \<Rightarrow> sqlite_limiter \<Rightarrow> arrival option list \<Rightarrow> (worker, bool \<times> arrival option list) stepper" where
  "accept_loop L db [] w = (Inr (False, []), w\<lparr>w_limiter := Some db\<rparr>)"
| "accept_loop L db (None # rest) w = accept_loop L db rest w"
| "accept_loop L db (Some a # rest) w =
     (case sql_is_blocked (a_ip a) (a_time a) db of
        (True, db1) \<Rightarrow> accept_loop L db1 rest (emit_event (Rate_Limited (a_ip a)) w)
      | (False, db1) \<Rightarrow>
          (case host_handshake L a
              (emit_event (Status ''Connection from'') (w\<lparr>w_sock := Some ((a_sock a)\<lparr>deadline := True\<rparr>)\<rparr>)) of
             (Inr _, w1) \<Rightarrow>
               (Inr (True, rest), set_deadline False (w1\<lparr>w_limiter := Some (sql_record_success (a_ip a) db1)\<rparr>))
           | (Inl e, w1) \<Rightarrow>
               if refused e
               then accept_loop L (sql_record_failure (a_ip a) (a_failed a) db1) rest
                      (emit_event (Handshake_Refused (a_ip a)) w1\<lparr>w_sock := None\<rparr>)
               else (Inl e, w1\<lparr>w_limiter := Some db1\<rparr>)))"

text \<open>
  The first call binds the address, which fails if \<open>bound\<close> is false, and opens the database
  with the rows \<open>db\<close> of earlier runs.
\<close>

definition run_host ::
    "cryptolib \<Rightarrow> bool \<Rightarrow> sqlite_limiter \<Rightarrow> arrival option list \<Rightarrow> (worker, bool \<times> arrival option list) stepper" where
  "run_host L bound db arrivals w =
     (let w1 = emit_event (Status ''Waiting'') w
      in case w_limiter w of
        Some db1 \<Rightarrow> accept_loop L db1 arrivals w1
      | None \<Rightarrow>
          if \<not> bound then (Inl OSError, w1)
          else accept_loop L (db\<lparr>max_attempts := 5, window_seconds := 60, cooldown_seconds := 30\<rparr>) arrivals w1)"

section \<open>Connecting\<close>

text \<open>\<open>None\<close> for the socket: the connection is refused or times out.\<close>

record attempt =
  c_sock :: "socket option"
  c_trusts :: bool
  c_eph :: bytes
  c_joined :: real

definition run_connect :: "cryptolib \<Rightarrow> attempt \<Rightarrow> (worker, bool) stepper" where
  "run_connect L c w0 =
     (let w1 = emit_event (Status ''Connecting'') w0
      in case c_sock c of
        None \<Rightarrow> (Inl OSError, w1)
      | Some s \<Rightarrow>
          and_next (exchange_identity_and_pin L (c_trusts c)) (\<lambda>_ w.
            let (msg1, st) = initiator_start L (w_me w) (c_eph c)
            in and_next (on_conn (send_json (to_wire1 msg1))) (\<lambda>_.
               and_next (recv_wire from_wire2) (\<lambda>msg2.
               and_next (finish_initiator L st msg2 (c_joined c)) (\<lambda>msg3.
               and_next (on_conn (send_json (to_wire3 msg3))) (\<lambda>_ w.
                 (Inr True, set_deadline False w))))) w)
            (emit_event (Status ''Connected'') (w1\<lparr>w_sock := Some (s\<lparr>deadline := True\<rparr>)\<rparr>)))"

section \<open>Handling a message\<close>

text \<open>The clock, the random source and the disk during one pass of the receive loop.\<close>

record luck =
  l_io :: disk_luck
  l_ts :: string
  l_nonce :: bytes
  l_disk :: disk

definition worker_append_history :: "cryptolib \<Rightarrow> string \<Rightarrow> string \<Rightarrow> luck \<Rightarrow> (worker, unit) stepper" where
  "worker_append_history L direction txt l w =
     (case w_history w of
        None \<Rightarrow> (Inr (), w)
      | Some h \<Rightarrow>
          (case append_history L (w_peer w) direction txt (l_ts l) (l_nonce l) (l_disk l) h (r_files w) of
             (Inr _, h', fs) \<Rightarrow> (Inr (), w\<lparr>w_history := Some h', r_files := fs\<rparr>)
           | (Inl e, h', fs) \<Rightarrow>
               if e = OSError then (Inr (), emit_event History_Disabled (w\<lparr>w_history := None, r_files := fs\<rparr>))
               else (Inl e, w\<lparr>w_history := Some h', r_files := fs\<rparr>)))"

definition handle_plaintext :: "cryptolib \<Rightarrow> (json \<Rightarrow> string) \<Rightarrow> luck \<Rightarrow> bytes \<Rightarrow> (worker, unit) stepper" where
  "handle_plaintext L R l plaintext w =
     (case plaintext of
        [] \<Rightarrow> (Inr (), w)
      | msg_type # body \<Rightarrow>
          if msg_type = MSG_TEXT then
            (let txt = decode_replace body
             in and_next (worker_append_history L ''received'' txt l) (\<lambda>_ w.
                  (Inr (), emit_event (Text_Message (w_peer w) txt) w)) w)
          else if msg_type = MSG_FILE_OFFER then handle_file_offer R (l_io l) body w
          else if msg_type = MSG_FILE_CHUNK then handle_file_chunk (l_io l) body w
          else (Inr (), w))"

definition decrypt_step :: "cryptolib \<Rightarrow> bytes \<Rightarrow> (worker, bytes) stepper" where
  "decrypt_step L framed w =
     (case w_channel w of
        None \<Rightarrow> (Inl AttributeError, w)
      | Some ch \<Rightarrow> (let (r, ch') = decrypt L framed ch in (r, w\<lparr>w_channel := Some ch'\<rparr>)))"

text \<open>What \<open>except (ConnectionError, OSError)\<close> catches.\<close>

definition network_error :: "exn \<Rightarrow> bool" where
  "network_error e \<longleftrightarrow> e \<in> {ConnectionError, TimeoutError, OSError}"

fun worker_recv_loop :: "cryptolib \<Rightarrow> (json \<Rightarrow> string) \<Rightarrow> luck list \<Rightarrow> (worker, unit) stepper" where
  "worker_recv_loop L R [] w = (Inr (), w)"
| "worker_recv_loop L R (l # ls) w =
     (case on_conn recv_bytes w of
        (Inl e, w1) \<Rightarrow> if network_error e then (Inr (), w1) else (Inl e, w1)
      | (Inr framed, w1) \<Rightarrow>
          (case decrypt_step L framed w1 of
             (Inl e, w2) \<Rightarrow>
               if is_alert e then worker_recv_loop L R ls (emit_event (Security_Alert (Rejected_Frame e)) w2)
               else (Inl e, w2)
           | (Inr plaintext, w2) \<Rightarrow>
               (case handle_plaintext L R l plaintext w2 of
                  (Inl e, w3) \<Rightarrow> (Inl e, w3)
                | (Inr _, w3) \<Rightarrow> worker_recv_loop L R ls w3)))"

section \<open>The loop of connections\<close>

definition RECONNECT_MAX_DELAY :: real where
  "RECONNECT_MAX_DELAY = 30"

text \<open>\<open>1.0 * 2 ** (attempt - 1)\<close>: the product converts the power to a float.\<close>

definition compute_backoff_delay :: "nat \<Rightarrow> exn + real" where
  "compute_backoff_delay attempt =
     (if attempt - 1 \<ge> 1024 then Inl OverflowError else Inr (min (2 ^ (attempt - 1)) RECONNECT_MAX_DELAY))"

text \<open>The wait is over when the delay has passed, or \<open>stop\<close> was called.\<close>

definition reconnect_wait :: "bool \<Rightarrow> (worker, bool) stepper" where
  "reconnect_wait stopped w =
     (let attempt = w_attempt w + 1; w1 = w\<lparr>w_attempt := attempt\<rparr>
      in case compute_backoff_delay attempt of
        Inl e \<Rightarrow> (Inl e, w1)
      | Inr delay \<Rightarrow> (Inr (\<not> stopped), emit_event (Reconnecting delay attempt) w1))"

definition replay_history :: "(worker, unit) stepper" where
  "replay_history w =
     (case w_history w of
        None \<Rightarrow> (Inr (), w)
      | Some h \<Rightarrow>
          (case dict_key (w_peer w) of
             None \<Rightarrow> (Inl TypeError, w)
           | Some k \<Rightarrow>
               if k \<in> set (w_shown_for w) then (Inr (), w)
               else (let w1 = w\<lparr>w_shown_for := k # w_shown_for w\<rparr>
                     in case for_peer (w_peer w) h of
                       Inl e \<Rightarrow> (Inl e, w1)
                     | Inr es \<Rightarrow> (Inr (), emit_event (History_Loaded es) w1))))"

text \<open>What happens in one pass of the loop.\<close>

record pass =
  p_bound :: bool
  p_rows :: sqlite_limiter
  p_arrivals :: "arrival option list"
  p_attempt :: attempt
  p_lucks :: "luck list"
  p_kept :: "string \<Rightarrow> bool"
  p_stopped :: bool
  p_stopped_waiting :: bool

definition establish :: "cryptolib \<Rightarrow> pass \<Rightarrow> (worker, bool) stepper" where
  "establish L p w =
     (case w_role w of
        Host \<Rightarrow> and_next (run_host L (p_bound p) (p_rows p) (p_arrivals p)) (\<lambda>(connected, _). pure (Inr connected)) w
      | Connect \<Rightarrow> run_connect L (p_attempt p) w)"

definition disconnect :: "(string \<Rightarrow> bool) \<Rightarrow> worker \<Rightarrow> worker" where
  "disconnect kept w = (abort_inbound_transfers kept w)\<lparr>w_channel := None, w_sock := None\<rparr>"

fun run_loop :: "cryptolib \<Rightarrow> (json \<Rightarrow> string) \<Rightarrow> pass list \<Rightarrow> (worker, unit) stepper" where
  "run_loop L R [] w = (Inr (), w)"
| "run_loop L R (p # ps) w =
     (case establish L p w of
        (Inl e, w1) \<Rightarrow>
          (case e of
             HandshakeError h \<Rightarrow> (Inr (), emit_event (Ui_Error (Handshake_Failed h)) w1)
           | _ \<Rightarrow>
               if network_error e then
                 (if p_stopped p then (Inr (), w1)
                  else case reconnect_wait (p_stopped_waiting p) w1 of
                    (Inl e', w2) \<Rightarrow> (Inl e', w2)
                  | (Inr False, w2) \<Rightarrow> (Inr (), w2)
                  | (Inr True, w2) \<Rightarrow> run_loop L R ps w2)
               else (Inr (), emit_event (Ui_Error (Unexpected e)) w1))
      | (Inr False, w1) \<Rightarrow> (Inr (), w1)
      | (Inr True, w1) \<Rightarrow>
          (case and_next replay_history (\<lambda>_ w. worker_recv_loop L R (p_lucks p) (emit_event Handshake_Done w))
              (w1\<lparr>w_attempt := 0\<rparr>) of
             (Inl e, w2) \<Rightarrow> (Inl e, w2)
           | (Inr _, w2) \<Rightarrow>
               (let w3 = disconnect (p_kept p) w2
                in if p_stopped p then (Inr (), w3)
                   else case reconnect_wait (p_stopped_waiting p) (emit_event Connection_Lost w3) of
                     (Inl e', w4) \<Rightarrow> (Inl e', w4)
                   | (Inr False, w4) \<Rightarrow> (Inr (), w4)
                   | (Inr True, w4) \<Rightarrow> run_loop L R ps w4)))"

section \<open>Sending\<close>

definition send_raw :: "cryptolib \<Rightarrow> send_env \<Rightarrow> bytes \<Rightarrow> (worker, unit) stepper" where
  "send_raw L env plaintext w =
     (case (w_channel w, w_sock w) of
        (Some ch, Some _) \<Rightarrow>
          (case encrypt L env plaintext ch of
             (Inl e, ch') \<Rightarrow> (Inl e, w\<lparr>w_channel := Some ch'\<rparr>)
           | (Inr framed, ch') \<Rightarrow> on_conn (send_bytes framed) (w\<lparr>w_channel := Some ch'\<rparr>))
      | _ \<Rightarrow> (Inl ConnectionError, w))"

definition worker_send :: "cryptolib \<Rightarrow> send_env \<Rightarrow> luck \<Rightarrow> string \<Rightarrow> (worker, unit) stepper" where
  "worker_send L env l txt w =
     (if w_channel w = None \<or> w_sock w = None then (Inr (), w)
      else and_next (pure (encode_utf8 txt)) (\<lambda>b.
           and_next (send_raw L env (MSG_TEXT # b)) (\<lambda>_.
           worker_append_history L ''sent'' txt l)) w)"

text \<open>
  A file on its way: the chunks, each with what \<open>encrypt\<close> draws and whether the channel is
  still the one the transfer began with (\<open>None\<close> for a chunk: reading the file fails).
\<close>

fun send_chunks :: "cryptolib \<Rightarrow> bytes \<Rightarrow> string \<Rightarrow> nat \<Rightarrow> nat \<Rightarrow> (bytes option \<times> send_env \<times> bool) list \<Rightarrow> (worker, unit) stepper" where
  "send_chunks L file_id name whole sent [] w = (Inr (), w)"
| "send_chunks L file_id name whole sent ((None, env, same) # rest) w = (Inl OSError, w)"
| "send_chunks L file_id name whole sent ((Some chunk, env, same) # rest) w =
     (if \<not> same then (Inl ConnectionError, w)
      else and_next (send_raw L env (encode_file_chunk file_id chunk)) (\<lambda>_ w.
             send_chunks L file_id name whole (sent + length chunk) rest
               (emit_event (Sending_Progress name (sent + length chunk) whole) w)) w)"

text \<open>
  \<open>_send_file\<close>: \<open>len\<close> is the size (\<open>None\<close>: the file cannot be examined), \<open>first\<close> what the pass
  that computes the digest reads, and \<open>pieces\<close> what the second pass does.
\<close>

definition send_file ::
    "cryptolib \<Rightarrow> string \<Rightarrow> nat option \<Rightarrow> bytes option \<Rightarrow> bytes \<Rightarrow> send_env \<Rightarrow> (bytes option \<times> send_env \<times> bool) list \<Rightarrow>
     (worker, unit) stepper" where
  "send_file L path len first file_id env pieces w =
     (let name = path_name path; failed = (\<lambda>w. (Inr (), emit_event (Send_Failed name) w))
      in case (len, first) of
        (None, _) \<Rightarrow> failed w
      | (Some n, content) \<Rightarrow>
          if int n > MAX_FILE_SIZE \<or> n = 0 then failed w
          else case content of
            None \<Rightarrow> failed w
          | Some b \<Rightarrow>
              (case and_next (send_raw L env (encode_file_offer file_id name (int n) (hex (sha256 b)))) (\<lambda>_.
                   send_chunks L file_id name n 0 pieces) w of
                 (Inr _, w1) \<Rightarrow> (Inr (), emit_event (File_Sent name n) w1)
               | (Inl e, w1) \<Rightarrow> if network_error e then failed w1 else (Inl e, w1)))"

end
