(* ===== verification/Transfer_Safety.thy ===== *)
theory Transfer_Safety
  imports Peer_Worker
begin

text \<open>
  What the receiving side of the file transfers keeps true whatever messages arrive: where
  files are created, which ones never change, and when one is announced as received; and that
  a file sent in chunks arrives, among any other messages.
\<close>

section \<open>The name on disk\<close>

text \<open>A name that stays in the directory it is put in.\<close>

definition plain_name :: "string \<Rightarrow> bool" where
  "plain_name q \<longleftrightarrow> q \<notin> {'''', ''.'', ''..''} \<and> CHR ''/'' \<notin> set q \<and> length q \<le> NAME_MAX"

lemma components_plain: "p \<in> set (components s) \<Longrightarrow> CHR ''/'' \<notin> set p"
  by (induction s arbitrary: p) (auto split: if_splits list.splits)

lemma path_name_plain: "CHR ''/'' \<notin> set (path_name s)" "path_name s \<noteq> ''.''"
proof -
  let ?ps = "rev (filter (\<lambda>p. p \<noteq> '''' \<and> p \<noteq> ''.'') (components s))"
  have "CHR ''/'' \<notin> set (path_name s) \<and> path_name s \<noteq> ''.''"
  proof (cases ?ps)
    case (Cons p ps)
    then have "p \<in> set ?ps" by (metis list.set_intros(1))
    then have "p \<in> set (components s)" "p \<noteq> ''.''" by simp_all
    moreover have "path_name s = p" by (simp only: path_name_def Cons list.case)
    ultimately show ?thesis using components_plain by simp
  next
    case Nil
    then have "path_name s = ''''" by (simp only: path_name_def list.case)
    then show ?thesis by simp
  qed
  then show "CHR ''/'' \<notin> set (path_name s)" "path_name s \<noteq> ''.''" by simp_all
qed

lemma os_char_cases:
  assumes "n < 1114112" and "os_char n = Some c"
  shows "c = utf8_char n \<and> list_all low_char c \<or> (\<exists>x \<in> set c. \<not> low_char x)"
proof (cases "n < 128")
  case True
  then show ?thesis using assms by (auto simp: os_char_def surrogate_def utf8_char_def low_char_def split: if_splits)
next
  case False
  have "c \<noteq> []" using assms by (auto simp: os_char_def utf8_char_def split: if_splits)
  moreover have "filter low_char c = []"
    using os_char_low [OF assms] utf8_char_low [OF assms(1)] False by simp
  ultimately show ?thesis by (cases c) (auto split: if_splits)
qed

lemma os_chars_all_low:
  "list_all (\<lambda>n. n < 1114112) ns \<Longrightarrow> os_chars ns = Some q \<Longrightarrow> list_all low_char q \<Longrightarrow> q = text_of ns"
proof (induction ns arbitrary: q)
  case (Cons n ns)
  then obtain c r where "os_char n = Some c" "os_chars ns = Some r" "q = c @ r"
    by (auto split: option.splits)
  with Cons os_char_cases [of n c] show ?case
    by (auto simp: text_of_def list_all_iff)
qed (simp add: text_of_def)

lemma os_name_all_low: "os_name s = Some q \<Longrightarrow> list_all low_char q \<Longrightarrow> q = s"
  using os_chars_all_low [OF code_points_bound] text_of_code_points [of s]
  by (auto simp: os_name_def bind_eq_Some_conv)

lemma os_name_slash: "os_name s = Some q \<Longrightarrow> CHR ''/'' \<in> set q \<Longrightarrow> CHR ''/'' \<in> set s"
proof -
  assume "os_name s = Some q" and "CHR ''/'' \<in> set q"
  then have "CHR ''/'' \<in> set (filter low_char s)"
    by (simp add: os_name_low [symmetric] low_char_def)
  then show ?thesis by simp
qed

text \<open>What the name that is picked is not.\<close>

definition free_in :: "files \<Rightarrow> string \<Rightarrow> string \<Rightarrow> bool" where
  "free_in fs dir n \<longleftrightarrow> CHR ''/'' \<notin> set n \<and> n \<noteq> '''' \<and> n \<noteq> ''.'' \<and>
     (\<forall>q. os_name n = Some q \<longrightarrow> length q \<le> NAME_MAX \<and> fs (path_join dir q) = None \<and> q \<noteq> ''..'')"

lemma free_inI:
  assumes "path_exists fs dir n = Inr False" and "CHR ''/'' \<notin> set n" and "n \<noteq> ''''" and "n \<noteq> ''.''"
  shows "free_in fs dir n"
  using assms by (auto simp: free_in_def path_exists_def split: option.splits if_splits)

lemma numbered_shape:
  assumes "CHR ''/'' \<notin> set stem" and "CHR ''/'' \<notin> set suffix"
  shows "CHR ''/'' \<notin> set (numbered stem suffix i)" and "numbered stem suffix i \<noteq> ''''" and "numbered stem suffix i \<noteq> ''.''"
proof -
  have "\<not> is_digit (CHR ''/'')" by (simp add: is_digit_def)
  then have "CHR ''/'' \<notin> set (show_nat i)"
    using show_nat_digits [of i] by (auto simp: list_all_iff)
  then show "CHR ''/'' \<notin> set (numbered stem suffix i)" using assms by (auto simp: numbered_def)
  show "numbered stem suffix i \<noteq> ''''" by (simp add: numbered_def)
  show "numbered stem suffix i \<noteq> ''.''" by (cases stem) (simp_all add: numbered_def)
qed

lemma free_name_free:
  assumes "CHR ''/'' \<notin> set stem" and "CHR ''/'' \<notin> set suffix" and "free_name fs dir stem suffix i = Inr n"
  shows "free_in fs dir n"
  using assms
proof (induction fs dir stem suffix i rule: free_name.induct)
  case (1 fs dir stem suffix i)
  show ?case
  proof (cases "path_exists fs dir (numbered stem suffix i)")
    case (Inr taken)
    show ?thesis
    proof (cases taken)
      case True
      with 1 Inr show ?thesis by (simp add: free_name.simps [of fs dir stem suffix i])
    next
      case False
      with 1(4) Inr have "n = numbered stem suffix i"
        by (simp add: free_name.simps [of fs dir stem suffix i])
      with Inr False numbered_shape [OF 1(2,3)] show ?thesis by (simp add: free_inI)
    qed
  qed (use 1(4) in \<open>simp add: free_name.simps [of fs dir stem suffix i]\<close>)
qed

lemma stem_suffix_plain:
  "stem_suffix n = (stem, suffix) \<Longrightarrow> CHR ''/'' \<notin> set n \<Longrightarrow> CHR ''/'' \<notin> set stem \<and> CHR ''/'' \<notin> set suffix"
  using set_takeWhileD [of "CHR ''/''" "\<lambda>c. c \<noteq> CHR ''.''" "rev n"]
  by (auto simp: stem_suffix_def Let_def dest: in_set_takeD split: if_splits)

lemma unique_dest_path_free:
  assumes "unique_dest_path fs dir name = Inr n"
  shows "free_in fs dir n"
proof -
  define s where "s = (if path_name name = '''' then ''received_file'' else path_name name)"
  have s: "CHR ''/'' \<notin> set s" "s \<noteq> ''''" "s \<noteq> ''.''"
    using path_name_plain [of name] by (simp_all add: s_def)
  obtain stem suffix where st: "stem_suffix s = (stem, suffix)" by (cases "stem_suffix s")
  from assms obtain taken where t: "path_exists fs dir s = Inr taken"
    by (auto simp: unique_dest_path_def s_def Let_def bind_exn_Inr)
  show ?thesis
  proof (cases taken)
    case False
    with assms t s show ?thesis by (auto simp: unique_dest_path_def s_def [symmetric] intro: free_inI)
  next
    case True
    with assms t st have "free_name fs dir stem suffix 1 = Inr n"
      by (simp add: unique_dest_path_def s_def [symmetric])
    with stem_suffix_plain [OF st s(1)] show ?thesis by (auto intro: free_name_free)
  qed
qed

lemma free_in_plain:
  assumes "free_in fs dir n" and "os_name n = Some q"
  shows "plain_name q" and "fs (path_join dir q) = None"
proof -
  have low: "list_all low_char ''''" "list_all low_char ''.''" by (simp_all add: low_char_def)
  show "fs (path_join dir q) = None" using assms by (simp add: free_in_def)
  have "q \<noteq> ''''" "q \<noteq> ''.''"
    using assms os_name_all_low [OF assms(2)] low by (auto simp: free_in_def)
  then show "plain_name q"
    using assms os_name_slash [OF assms(2)] by (auto simp: plain_name_def free_in_def)
qed

section \<open>What is true of the transfers\<close>

definition in_recv_dir :: "string \<Rightarrow> bool" where
  "in_recv_dir p \<longleftrightarrow> (\<exists>q. plain_name q \<and> p = path_join FILE_RECV_DIR q)"

text \<open>The file a Python path under the directory stands for.\<close>

definition on_disk :: "string \<Rightarrow> string \<Rightarrow> bool" where
  "on_disk p h \<longleftrightarrow> (\<exists>n q. p = path_join FILE_RECV_DIR n \<and> os_name n = Some q \<and> h = path_join FILE_RECV_DIR q)"

type_synonym offer = "bytes \<times> string \<times> int \<times> string"

text \<open>
  A transfer under way: its file is new, in the directory, and holds what was received. A
  finished one: its file also has the offered digest and at least the offered length, and
  belongs to no other transfer.
\<close>

definition tracked :: "files \<Rightarrow> offer set \<Rightarrow> files \<Rightarrow> bytes \<Rightarrow> transfer \<Rightarrow> bool" where
  "tracked fs0 offers fs fid t \<longleftrightarrow>
     fs (t_handle t) = Some (t_digest t) \<and> t_received t = length (t_digest t) \<and> in_recv_dir (t_handle t) \<and>
     fs0 (t_handle t) = None \<and> on_disk (t_path t) (t_handle t) \<and> (fid, t_name t, t_size t, t_sha256 t) \<in> offers"

definition delivered :: "files \<Rightarrow> offer set \<Rightarrow> files \<Rightarrow> string \<Rightarrow> int \<Rightarrow> string \<Rightarrow> string \<Rightarrow> bool" where
  "delivered fs0 offers fs name len p h \<longleftrightarrow>
     on_disk p h \<and> in_recv_dir h \<and> fs0 h = None \<and>
     (\<exists>content fid sha. fs h = Some content \<and> (fid, name, len, sha) \<in> offers \<and> hex (sha256 content) = sha \<and>
        len \<le> int (length content))"

definition owned :: "'a receiver_scheme \<Rightarrow> string \<Rightarrow> bool" where
  "owned r h \<longleftrightarrow> (\<exists>fid t. map_of (r_inbound r) fid = Some t \<and> t_handle t = h)"

definition transfers_inv :: "files \<Rightarrow> files \<Rightarrow> string set \<Rightarrow> offer set \<Rightarrow> 'a receiver_scheme \<Rightarrow> bool" where
  "transfers_inv fs0 kept others offers r \<longleftrightarrow>
     (\<forall>fid t. map_of (r_inbound r) fid = Some t \<longrightarrow> tracked fs0 offers (r_files r) fid t) \<and>
     (\<forall>f g t u. map_of (r_inbound r) f = Some t \<and> map_of (r_inbound r) g = Some u \<and> t_handle t = t_handle u \<longrightarrow> f = g) \<and>
     fs0 \<subseteq>\<^sub>m kept \<and>
     (\<forall>p c. in_recv_dir p \<and> kept p = Some c \<longrightarrow> r_files r p = Some c \<and> \<not> owned r p) \<and>
     (\<forall>p. \<not> in_recv_dir p \<and> p \<notin> others \<longrightarrow> r_files r p = fs0 p) \<and>
     (\<forall>n s p. File_Received n s p \<in> set (r_events r) \<longrightarrow>
        (\<exists>h. delivered fs0 offers (r_files r) n s p h \<and> \<not> owned r h)) \<and>
     length (r_inbound r) \<le> MAX_CONCURRENT_INBOUND_TRANSFERS"

lemma transfers_invD:
  assumes "transfers_inv fs0 kept others offers r"
  shows "map_of (r_inbound r) fid = Some t \<Longrightarrow> tracked fs0 offers (r_files r) fid t"
    and "map_of (r_inbound r) f = Some t \<Longrightarrow> map_of (r_inbound r) g = Some u \<Longrightarrow> t_handle t = t_handle u \<Longrightarrow> f = g"
    and "in_recv_dir p \<Longrightarrow> kept p = Some c \<Longrightarrow> r_files r p = Some c \<and> \<not> owned r p"
    and "\<not> in_recv_dir p \<Longrightarrow> p \<notin> others \<Longrightarrow> r_files r p = fs0 p"
    and "File_Received n s p \<in> set (r_events r) \<Longrightarrow> \<exists>h. delivered fs0 offers (r_files r) n s p h \<and> \<not> owned r h"
    and "length (r_inbound r) \<le> MAX_CONCURRENT_INBOUND_TRANSFERS"
    and "fs0 \<subseteq>\<^sub>m kept"
  using assms unfolding transfers_inv_def by blast+

lemma transfers_invI:
  assumes "\<And>fid t. map_of (r_inbound r) fid = Some t \<Longrightarrow> tracked fs0 offers (r_files r) fid t"
    and "\<And>f g t u. map_of (r_inbound r) f = Some t \<Longrightarrow> map_of (r_inbound r) g = Some u \<Longrightarrow> t_handle t = t_handle u \<Longrightarrow> f = g"
    and "\<And>p c. in_recv_dir p \<Longrightarrow> kept p = Some c \<Longrightarrow> r_files r p = Some c \<and> \<not> owned r p"
    and "\<And>p. \<not> in_recv_dir p \<Longrightarrow> p \<notin> others \<Longrightarrow> r_files r p = fs0 p"
    and "\<And>n s p. File_Received n s p \<in> set (r_events r) \<Longrightarrow> \<exists>h. delivered fs0 offers (r_files r) n s p h \<and> \<not> owned r h"
    and "length (r_inbound r) \<le> MAX_CONCURRENT_INBOUND_TRANSFERS"
    and "fs0 \<subseteq>\<^sub>m kept"
  shows "transfers_inv fs0 kept others offers r"
  using assms unfolding transfers_inv_def by blast

lemma transfers_inv_mono:
  assumes "transfers_inv fs0 kept others offers r" and "offers \<subseteq> offers'"
  shows "transfers_inv fs0 kept others offers' r"
proof -
  have t: "tracked fs0 offers fs f t \<Longrightarrow> tracked fs0 offers' fs f t" for fs f t
    using assms(2) by (auto simp: tracked_def)
  have d: "delivered fs0 offers fs n s p h \<Longrightarrow> delivered fs0 offers' fs n s p h" for fs n s p h
    using assms(2) unfolding delivered_def by blast
  note I = transfers_invD [OF assms(1)]
  show ?thesis
    by (rule transfers_invI) (use I(1) t in blast, rule I(2), assumption+, rule I(3), assumption+,
        rule I(4), assumption+, use I(5) d in blast, rule I(6), rule I(7))
qed

text \<open>Only the table, the files of the directory and the news of finished files count.\<close>

lemma transfers_inv_cong:
  assumes "transfers_inv fs0 kept others offers r" and "r_inbound r' = r_inbound r"
    and "\<And>p. in_recv_dir p \<or> p \<notin> others \<Longrightarrow> r_files r' p = r_files r p"
    and "\<And>n s p. File_Received n s p \<in> set (r_events r') \<Longrightarrow> File_Received n s p \<in> set (r_events r)"
  shows "transfers_inv fs0 kept others offers r'"
proof -
  note I = transfers_invD [OF assms(1)]
  have t: "tracked fs0 offers (r_files r) f t \<Longrightarrow> tracked fs0 offers (r_files r') f t" for f t
    using assms(3) by (auto simp: tracked_def)
  have d: "delivered fs0 offers (r_files r) n s p h \<Longrightarrow> delivered fs0 offers (r_files r') n s p h" for n s p h
    using assms(3) by (auto simp: delivered_def)
  have o: "owned r' h = owned r h" for h by (simp add: owned_def assms(2))
  have ev: "\<exists>h. delivered fs0 offers (r_files r') n s p h \<and> \<not> owned r' h"
    if "File_Received n s p \<in> set (r_events r')" for n s p
  proof -
    from I(5) [OF assms(4) [OF that]] obtain h where "delivered fs0 offers (r_files r) n s p h" "\<not> owned r h"
      by blast
    with d show ?thesis unfolding o by blast
  qed
  have same: "in_recv_dir p \<Longrightarrow> kept p = Some c \<Longrightarrow> r_files r' p = Some c \<and> \<not> owned r' p"
    "\<not> in_recv_dir p \<Longrightarrow> p \<notin> others \<Longrightarrow> r_files r' p = fs0 p" for p c
    using I(3) [of p c] I(4) [of p] assms(3) [of p] o by auto
  show ?thesis
    by (rule transfers_invI) (use I(1,2,6,7) t ev same assms(2) in \<open>simp_all del: not_None_eq\<close>)
qed

definition no_news :: "ui_event \<Rightarrow> bool" where
  "no_news ev \<longleftrightarrow> (\<forall>n s p. ev \<noteq> File_Received n s p)"

lemma transfers_inv_emit:
  "transfers_inv fs0 kept others offers r \<Longrightarrow> no_news ev \<Longrightarrow> transfers_inv fs0 kept others offers (emit_event ev r)"
  by (erule transfers_inv_cong) (auto simp: emit_event_def no_news_def)

text \<open>A transfer leaves the table, and its file may change or go.\<close>

lemma transfers_inv_drop:
  assumes inv: "transfers_inv fs0 kept others offers r" and t: "map_of (r_inbound r) fid = Some t"
    and files: "\<And>p. p \<noteq> t_handle t \<Longrightarrow> r_files r' p = r_files r p"
    and "r_inbound r' = AList.delete fid (r_inbound r)" and "r_events r' = r_events r"
  shows "transfers_inv fs0 kept others offers r'"
proof -
  note I = transfers_invD [OF inv]
  have new: "fs0 (t_handle t) = None" "in_recv_dir (t_handle t)"
    using I(1) [OF t] by (simp_all add: tracked_def)
  have map: "map_of (r_inbound r') f = Some u \<longleftrightarrow> f \<noteq> fid \<and> map_of (r_inbound r) f = Some u" for f u
    by (simp add: assms(4) AList.delete_conv')
  have other: "t_handle u \<noteq> t_handle t" if "f \<noteq> fid" "map_of (r_inbound r) f = Some u" for f u
    using I(2) [OF that(2) t] that(1) by blast
  have tr: "tracked fs0 offers (r_files r') f u" if "map_of (r_inbound r') f = Some u" for f u
    using that I(1) [of f u] other [of f u] files by (auto simp: map tracked_def)
  have ev: "\<exists>h. delivered fs0 offers (r_files r') n s p h \<and> \<not> owned r' h" if "File_Received n s p \<in> set (r_events r')" for n s p
  proof -
    from that I(5) obtain h where h: "delivered fs0 offers (r_files r) n s p h" "\<not> owned r h"
      unfolding assms(5) by blast
    with t have "h \<noteq> t_handle t" by (auto simp: owned_def)
    with h files have "delivered fs0 offers (r_files r') n s p h" "\<not> owned r' h"
      by (auto simp: delivered_def owned_def map)
    then show ?thesis by blast
  qed
  have same: "in_recv_dir p \<Longrightarrow> kept p = Some c \<Longrightarrow> r_files r' p = Some c \<and> \<not> owned r' p"
    "\<not> in_recv_dir p \<Longrightarrow> p \<notin> others \<Longrightarrow> r_files r' p = fs0 p" for p c
  proof -
    show "r_files r' p = Some c \<and> \<not> owned r' p" if "in_recv_dir p" "kept p = Some c"
    proof -
      from I(3) [OF that] have p: "r_files r p = Some c" "\<not> owned r p" by simp_all
      with t have "p \<noteq> t_handle t" by (auto simp: owned_def)
      with p files show ?thesis by (auto simp: owned_def map)
    qed
    show "r_files r' p = fs0 p" if "\<not> in_recv_dir p" "p \<notin> others"
      using I(4) [OF that] files [of p] new that by metis
  qed
  have len: "length (r_inbound r') \<le> MAX_CONCURRENT_INBOUND_TRANSFERS"
    using le_trans [OF length_filter_le I(6)] by (simp add: assms(4) AList.delete_eq)
  show ?thesis
    by (rule transfers_invI) (use I(2,7) tr ev same len map in \<open>simp_all del: not_None_eq\<close>)
qed

text \<open>A transfer is added in place of an older one with its identifier, or grows.\<close>

lemma transfers_inv_put:
  assumes inv: "transfers_inv fs0 kept others offers r"
    and t1: "tracked fs0 offers (r_files r') fid t1"
    and alone: "\<And>f u. f \<noteq> fid \<Longrightarrow> map_of (r_inbound r) f = Some u \<Longrightarrow> t_handle u \<noteq> t_handle t1"
    and unsold: "\<And>n s p h. File_Received n s p \<in> set (r_events r) \<Longrightarrow> delivered fs0 offers (r_files r) n s p h \<Longrightarrow>
        \<not> owned r h \<Longrightarrow> h \<noteq> t_handle t1"
    and free: "kept (t_handle t1) = None"
    and files: "\<And>p. p \<noteq> t_handle t1 \<Longrightarrow> r_files r' p = r_files r p"
    and "r_inbound r' = AList.update fid t1 (r_inbound r)" and "r_events r' = r_events r"
    and "length (r_inbound r') \<le> MAX_CONCURRENT_INBOUND_TRANSFERS"
  shows "transfers_inv fs0 kept others offers r'"
proof -
  note I = transfers_invD [OF inv]
  have new: "fs0 (t_handle t1) = None" "in_recv_dir (t_handle t1)"
    using t1 by (simp_all add: tracked_def)
  have map: "map_of (r_inbound r') f = (if f = fid then Some t1 else map_of (r_inbound r) f)" for f
    by (simp add: assms(7) AList.update_conv')
  have tr: "tracked fs0 offers (r_files r') f u" if "map_of (r_inbound r') f = Some u" for f u
    using that I(1) [of f u] alone [of f u] files t1 by (auto simp: map tracked_def split: if_splits)
  have inj: "f = g" if "map_of (r_inbound r') f = Some t" "map_of (r_inbound r') g = Some u" "t_handle t = t_handle u" for f g t u
    using that alone I(2) by (auto simp: map split: if_splits)
  have ev: "\<exists>h. delivered fs0 offers (r_files r') n s p h \<and> \<not> owned r' h" if "File_Received n s p \<in> set (r_events r')" for n s p
  proof -
    from that I(5) obtain h where h: "delivered fs0 offers (r_files r) n s p h" "\<not> owned r h"
      unfolding assms(8) by blast
    have "h \<noteq> t_handle t1" using unsold [OF _ h] that by (simp add: assms(8))
    with h files have "delivered fs0 offers (r_files r') n s p h" "\<not> owned r' h"
      by (auto simp: delivered_def owned_def map split: if_splits)
    then show ?thesis by blast
  qed
  have same: "in_recv_dir p \<Longrightarrow> kept p = Some c \<Longrightarrow> r_files r' p = Some c \<and> \<not> owned r' p"
    "\<not> in_recv_dir p \<Longrightarrow> p \<notin> others \<Longrightarrow> r_files r' p = fs0 p" for p c
  proof -
    show "r_files r' p = Some c \<and> \<not> owned r' p" if "in_recv_dir p" "kept p = Some c"
    proof -
      from I(3) [OF that] have p: "r_files r p = Some c" "\<not> owned r p" by simp_all
      have "p \<noteq> t_handle t1" using free that(2) by auto
      with p files show ?thesis by (auto simp: owned_def map split: if_splits)
    qed
    show "r_files r' p = fs0 p" if "\<not> in_recv_dir p" "p \<notin> others"
      using I(4) [OF that] files [of p] new that by metis
  qed
  show ?thesis
    by (rule transfers_invI) (use inj tr ev same assms(9) I(7) in \<open>simp_all del: not_None_eq\<close>)
qed

section \<open>An offer\<close>

definition accepted_offer :: "offer \<Rightarrow> string \<Rightarrow> string \<Rightarrow> transfer" where
  "accepted_offer off dest handle =
     (case off of (file_id, name, len, sha) \<Rightarrow>
        \<lparr>t_name = name, t_size = len, t_sha256 = sha, t_received = 0,
         t_path = path_join FILE_RECV_DIR dest, t_handle = handle, t_digest = []\<rparr>)"

definition take_offer :: "offer \<Rightarrow> string \<Rightarrow> string \<Rightarrow> 'a receiver_scheme \<Rightarrow> 'a receiver_scheme" where
  "take_offer off dest handle r =
     r\<lparr>r_files := (r_files r)(handle \<mapsto> []),
       r_inbound := AList.update (fst off) (accepted_offer off dest handle) (r_inbound r)\<rparr>"

text \<open>An offer is refused, raises, or is entered under a name that was free.\<close>

lemma handle_file_offer_cases:
  assumes "handle_file_offer R io body r = (res, r')"
  obtains (same) "r' = r"
  | (told) ev where "r' = emit_event ev r" "no_news ev"
  | (taken) off dest q where "parse_offer R body = Inr off" "unique_dest_path (r_files r) FILE_RECV_DIR (fst (snd off)) = Inr dest"
      "os_name dest = Some q" "length (r_inbound r) < MAX_CONCURRENT_INBOUND_TRANSFERS"
      "r' = emit_event (File_Offered (fst (snd off)) (fst (snd (snd off)))) (take_offer off dest (path_join FILE_RECV_DIR q) r)"
proof (cases "parse_offer R body")
  case (Inl e)
  with assms told [of "Security_Alert Malformed_Offer"] same show ?thesis
    by (auto simp: handle_file_offer_def no_news_def split: if_splits)
next
  case (Inr off)
  obtain file_id name len sha where off: "off = (file_id, name, len, sha)" by (cases off) auto
  note h = assms [unfolded handle_file_offer_def Inr off, simplified Let_def sum.case prod.case]
  consider "len > MAX_FILE_SIZE" | "\<not> len > MAX_FILE_SIZE" "len \<le> 0"
    | "\<not> len > MAX_FILE_SIZE" "\<not> len \<le> 0" "length (r_inbound r) \<ge> MAX_CONCURRENT_INBOUND_TRANSFERS"
    | "\<not> len > MAX_FILE_SIZE" "\<not> len \<le> 0" "\<not> length (r_inbound r) \<ge> MAX_CONCURRENT_INBOUND_TRANSFERS"
    by blast
  then show ?thesis
  proof cases
    case 1
    with h show ?thesis
      by (cases "human_size (nat len)") (auto simp: no_news_def intro: same told)
  next
    case 2
    with h show ?thesis by (auto simp: no_news_def intro: told)
  next
    case 3
    with h show ?thesis by (auto simp: no_news_def intro: told)
  next
    case 4
    show ?thesis
    proof (cases "mkdir_ok io")
      case False
      with 4 h show ?thesis by (auto intro: same)
    next
      case True
      show ?thesis
      proof (cases "unique_dest_path (r_files r) FILE_RECV_DIR name")
        case (Inl e)
        with 4 True h show ?thesis by (auto intro: same)
      next
        case u: (Inr dest)
        show ?thesis
        proof (cases "open_wb io FILE_RECV_DIR dest")
          case (Inl e)
          with 4 True u h told [of "Ui_Error Cannot_Save"] same show ?thesis
            by (auto simp: no_news_def split: if_splits)
        next
          case o: (Inr handle)
          then obtain q where "os_name dest = Some q" "handle = path_join FILE_RECV_DIR q"
            by (auto simp: open_wb_def split: option.splits if_splits)
          with 4 True u o h Inr off taken [of off dest q] show ?thesis
            by (simp add: take_offer_def accepted_offer_def)
        qed
      qed
    qed
  qed
qed

lemma length_update: "length (AList.update k v xs) \<le> Suc (length xs)"
  by (induction xs) auto

lemma update_length_known: "map_of xs k = Some w \<Longrightarrow> length (AList.update k v xs) = length xs"
  by (induction xs) (auto split: if_splits)

lemma take_offer_inv:
  assumes inv: "transfers_inv fs0 kept others offers r" and "off \<in> offers"
    and dest: "unique_dest_path (r_files r) FILE_RECV_DIR name = Inr dest" "os_name dest = Some q"
    and "length (r_inbound r) < MAX_CONCURRENT_INBOUND_TRANSFERS"
  shows "transfers_inv fs0 kept others offers (take_offer off dest (path_join FILE_RECV_DIR q) r)"
proof -
  let ?h = "path_join FILE_RECV_DIR q"
  note I = transfers_invD [OF inv]
  from free_in_plain [OF unique_dest_path_free [OF dest(1)] dest(2)]
  have new: "in_recv_dir ?h" "r_files r ?h = None"
    by (auto simp: in_recv_dir_def)
  with I(3) [of ?h] have free: "kept ?h = None" by (cases "kept ?h") auto
  with I(7) have "fs0 ?h = None" by (auto simp: map_le_def dom_def)
  moreover have "on_disk (path_join FILE_RECV_DIR dest) ?h" using dest(2) by (auto simp: on_disk_def)
  moreover obtain file_id name' len sha where off: "off = (file_id, name', len, sha)" by (cases off) auto
  ultimately have t: "tracked fs0 offers ((r_files r)(?h \<mapsto> [])) (fst off) (accepted_offer off dest ?h)"
    using new assms(2) by (simp add: tracked_def accepted_offer_def)
  have handle: "t_handle (accepted_offer off dest ?h) = ?h"
    by (simp add: accepted_offer_def off)
  show ?thesis
  proof (rule transfers_inv_put [OF inv, where fid = "fst off" and ?t1.0 = "accepted_offer off dest ?h"])
    show "t_handle u \<noteq> t_handle (accepted_offer off dest ?h)" if "map_of (r_inbound r) f = Some u" for f u
      using I(1) [OF that] new(2) unfolding handle tracked_def by force
    show "h \<noteq> t_handle (accepted_offer off dest ?h)" if "delivered fs0 offers (r_files r) n s p h" for n s p h
      using that new(2) unfolding handle delivered_def by force
    show "length (r_inbound (take_offer off dest ?h r)) \<le> MAX_CONCURRENT_INBOUND_TRANSFERS"
      using assms(5) length_update [of "fst off" "accepted_offer off dest ?h" "r_inbound r"] by (simp add: take_offer_def)
  qed (use t free in \<open>simp_all add: take_offer_def handle\<close>)
qed

lemma handle_file_offer_inv:
  assumes "transfers_inv fs0 kept others offers r" and "handle_file_offer R io body r = (res, r')"
    and "\<And>off. parse_offer R body = Inr off \<Longrightarrow> off \<in> offers"
  shows "transfers_inv fs0 kept others offers r'"
  using assms(2)
proof (cases rule: handle_file_offer_cases)
  case (taken off dest q)
  then show ?thesis
    using transfers_inv_emit [OF take_offer_inv [OF assms(1) assms(3) [OF taken(1)] taken(2,3,4)]] by (simp add: no_news_def)
qed (use assms(1) in \<open>auto intro: transfers_inv_emit\<close>)

section \<open>A chunk\<close>

definition grown :: "transfer \<Rightarrow> bytes \<Rightarrow> transfer" where
  "grown t chunk = t\<lparr>t_digest := t_digest t @ chunk, t_received := t_received t + length chunk\<rparr>"

lemma grown_simps [simp]:
  "t_handle (grown t c) = t_handle t" "t_name (grown t c) = t_name t" "t_size (grown t c) = t_size t"
  "t_sha256 (grown t c) = t_sha256 t" "t_path (grown t c) = t_path t" "t_digest (grown t c) = t_digest t @ c"
  "t_received (grown t c) = t_received t + length c"
  by (simp_all add: grown_def)

definition add_chunk :: "bytes \<Rightarrow> transfer \<Rightarrow> bytes \<Rightarrow> 'a receiver_scheme \<Rightarrow> 'a receiver_scheme" where
  "add_chunk file_id t chunk r =
     emit_event (File_Progress (t_name t) (t_received t + length chunk) (t_size t))
       ((write_handle t chunk r)\<lparr>r_inbound := AList.update file_id (grown t chunk) (r_inbound r)\<rparr>)"

definition forget :: "bytes \<Rightarrow> 'a receiver_scheme \<Rightarrow> 'a receiver_scheme" where
  "forget file_id r = r\<lparr>r_inbound := AList.delete file_id (r_inbound r)\<rparr>"

lemma handle_file_chunk_unfold:
  assumes "map_of (r_inbound r) (take 16 body) = Some t" and "\<not> length body < 16"
  shows "handle_file_chunk io body r =
    (let t1 = grown t (drop 16 body); r1 = add_chunk (take 16 body) t (drop 16 body) r
     in case cut_write io of
       Some n \<Rightarrow> (Inr (), emit_event (Ui_Error Cannot_Write) (unlink io t
                  (forget (take 16 body) (write_handle t (take n (drop 16 body)) r))))
     | None \<Rightarrow>
         if int (t_received t1) < t_size t1 then (Inr (), r1)
         else if \<not> close_ok io then (Inl OSError, r1)
         else if hex (sha256 (t_digest t1)) \<noteq> t_sha256 t1
         then (Inr (), unlink io t1 (emit_event (Security_Alert (Integrity_Failed (t_name t1))) (forget (take 16 body) r1)))
         else (Inr (), emit_event (File_Received (t_name t1) (t_size t1) (t_path t1)) (forget (take 16 body) r1)))"
proof -
  have w: "r_inbound (write_handle t b r) = r_inbound r" for b
    by (simp add: write_handle_def split: option.split)
  show ?thesis
    using assms by (simp add: handle_file_chunk_def Let_def grown_def add_chunk_def forget_def w
        del: grown_simps split: option.split)
qed

lemma handle_file_chunk_ignored:
  assumes "length body < 16 \<or> map_of (r_inbound r) (take 16 body) = None"
  shows "handle_file_chunk io body r = (Inr (), r) \<or>
    handle_file_chunk io body r = (Inr (), emit_event (Security_Alert Malformed_Chunk) r)"
  using assms by (auto simp: handle_file_chunk_def Let_def)

lemma write_handle_tracked:
  "tracked fs0 offers (r_files r) fid t \<Longrightarrow>
     write_handle t b r = r\<lparr>r_files := (r_files r)(t_handle t \<mapsto> t_digest t @ b)\<rparr>"
  by (simp add: tracked_def write_handle_def)

lemma add_chunk_inv:
  assumes inv: "transfers_inv fs0 kept others offers r" and t: "map_of (r_inbound r) fid = Some t"
  shows "transfers_inv fs0 kept others offers (add_chunk fid t chunk r)"
proof -
  note I = transfers_invD [OF inv]
  note tr = I(1) [OF t]
  let ?r = "(write_handle t chunk r)\<lparr>r_inbound := AList.update fid (grown t chunk) (r_inbound r)\<rparr>"
  have "transfers_inv fs0 kept others offers ?r"
  proof (rule transfers_inv_put [OF inv, where fid = fid and ?t1.0 = "grown t chunk"])
    show "tracked fs0 offers (r_files ?r) fid (grown t chunk)"
      using tr by (simp add: write_handle_tracked [OF tr]) (simp add: tracked_def)
    show "t_handle u \<noteq> t_handle (grown t chunk)" if "f \<noteq> fid" "map_of (r_inbound r) f = Some u" for f u
      using I(2) [OF that(2) t] that(1) by auto
    have "owned r (t_handle t)" using t by (auto simp: owned_def)
    with I(3) [of "t_handle t"] tr show "kept (t_handle (grown t chunk)) = None"
      by (cases "kept (t_handle t)") (auto simp: tracked_def)
    show "h \<noteq> t_handle (grown t chunk)" if "\<not> owned r h" for h
      using that t by (auto simp: owned_def)
    show "length (r_inbound ?r) \<le> MAX_CONCURRENT_INBOUND_TRANSFERS"
      using I(6) update_length_known [OF t] by simp
  qed (simp_all add: write_handle_tracked [OF tr])
  then show ?thesis
    unfolding add_chunk_def by (rule transfers_inv_emit) (simp add: no_news_def)
qed

lemma add_chunk_entry: "map_of (r_inbound (add_chunk fid t c r)) fid = Some (grown t c)"
  by (simp add: add_chunk_def emit_event_def AList.update_conv')

lemma write_handle_files: "p \<noteq> t_handle t \<Longrightarrow> r_files (write_handle t b r) p = r_files r p"
  by (simp add: write_handle_def split: option.split)

lemma write_handle_kept [simp]:
  "r_inbound (write_handle t b r) = r_inbound r" "r_events (write_handle t b r) = r_events r"
  by (simp_all add: write_handle_def split: option.split)

lemma unlink_kept [simp]:
  "r_inbound (unlink io t r) = r_inbound r" "r_events (unlink io t r) = r_events r"
  "p \<noteq> t_handle t \<Longrightarrow> r_files (unlink io t r) p = r_files r p"
  by (simp_all add: unlink_def)

lemma emit_event_kept [simp]:
  "r_inbound (emit_event ev r) = r_inbound r" "r_files (emit_event ev r) = r_files r"
  "r_events (emit_event ev r) = r_events r @ [ev]"
  by (simp_all add: emit_event_def)

lemma forget_kept [simp]:
  "r_inbound (forget fid r) = AList.delete fid (r_inbound r)" "r_files (forget fid r) = r_files r"
  "r_events (forget fid r) = r_events r"
  by (simp_all add: forget_def)

text \<open>A finished transfer whose digest is the offered one becomes news.\<close>

lemma finish_inv:
  assumes inv: "transfers_inv fs0 kept others offers r" and t: "map_of (r_inbound r) fid = Some t"
    and "hex (sha256 (t_digest t)) = t_sha256 t" and "t_size t \<le> int (t_received t)"
  shows "transfers_inv fs0 kept others offers (emit_event (File_Received (t_name t) (t_size t) (t_path t)) (forget fid r))"
    (is "transfers_inv _ _ _ _ ?r")
proof -
  have drop: "transfers_inv fs0 kept others offers (forget fid r)"
    by (rule transfers_inv_drop [OF inv t]) simp_all
  note I = transfers_invD [OF inv] and D = transfers_invD [OF drop]
  have "delivered fs0 offers (r_files r) (t_name t) (t_size t) (t_path t) (t_handle t)"
    using I(1) [OF t] assms(3,4) unfolding tracked_def delivered_def by (metis int_int_eq)
  moreover have "\<not> owned (forget fid r) (t_handle t)"
    using I(2) [OF _ t] by (auto simp: owned_def AList.delete_conv' split: if_splits)
  ultimately have new: "\<exists>h. delivered fs0 offers (r_files r) (t_name t) (t_size t) (t_path t) h \<and> \<not> owned (forget fid r) h"
    by blast
  have same: "owned ?r h = owned (forget fid r) h" for h by (simp add: owned_def)
  show ?thesis
  proof (rule transfers_invI)
    show "\<exists>h. delivered fs0 offers (r_files ?r) n s p h \<and> \<not> owned ?r h"
      if "File_Received n s p \<in> set (r_events ?r)" for n s p
    proof (cases "File_Received n s p \<in> set (r_events (forget fid r))")
      case True
      from D(5) [OF this] show ?thesis by (simp only: same emit_event_kept)
    next
      case False
      with that have "n = t_name t \<and> s = t_size t \<and> p = t_path t" by simp
      with new show ?thesis by (simp only: same emit_event_kept forget_kept simp_thms)
    qed
  qed (use D(1,2,3,4,6,7) in \<open>simp_all only: emit_event_kept same simp_thms\<close>)
qed

lemma handle_file_chunk_inv:
  assumes inv: "transfers_inv fs0 kept others offers r" and h: "handle_file_chunk io body r = (res, r')"
  shows "transfers_inv fs0 kept others offers r'"
proof (cases "length body < 16 \<or> map_of (r_inbound r) (take 16 body) = None")
  case True
  from handle_file_chunk_ignored [OF this, of io] h inv transfers_inv_emit [OF inv, of "Security_Alert Malformed_Chunk"]
  show ?thesis by (auto simp: no_news_def)
next
  case False
  define fid and chunk where "fid = take 16 body" and "chunk = drop 16 body"
  from False obtain t where t: "map_of (r_inbound r) fid = Some t" by (auto simp: fid_def)
  define r1 where "r1 = add_chunk fid t chunk r"
  have inv1: "transfers_inv fs0 kept others offers r1" and t1: "map_of (r_inbound r1) fid = Some (grown t chunk)"
    using add_chunk_inv [OF inv t] add_chunk_entry unfolding r1_def by blast+
  have dropped: "transfers_inv fs0 kept others offers (unlink io (grown t chunk) (forget fid r1))"
    by (rule transfers_inv_drop [OF inv1 t1]) simp_all
  have swap: "unlink io u (emit_event ev x) = emit_event ev (unlink io u x)" for u ev and x :: "'a receiver_scheme"
    by (simp add: unlink_def emit_event_def)
  note u = handle_file_chunk_unfold [OF t [unfolded fid_def], of io, folded fid_def chunk_def, folded r1_def]
  show ?thesis
  proof (cases "cut_write io")
    case (Some n)
    have "transfers_inv fs0 kept others offers (unlink io t (forget fid (write_handle t (take n chunk) r)))"
      by (rule transfers_inv_drop [OF inv t]) (simp_all add: write_handle_files)
    then show ?thesis
      using h u False Some by (auto simp: Let_def no_news_def intro: transfers_inv_emit)
  next
    case None
    consider "int (t_received (grown t chunk)) < t_size t" | "\<not> int (t_received (grown t chunk)) < t_size t" "\<not> close_ok io"
      | "\<not> int (t_received (grown t chunk)) < t_size t" "close_ok io" "hex (sha256 (t_digest (grown t chunk))) \<noteq> t_sha256 t"
      | "\<not> int (t_received (grown t chunk)) < t_size t" "close_ok io" "hex (sha256 (t_digest (grown t chunk))) = t_sha256 t"
      by blast
    then show ?thesis
    proof cases
      case 4
      with finish_inv [OF inv1 t1] h u False None show ?thesis by (simp add: Let_def del: emit_event_kept)
    qed (use h u False None inv1 dropped in \<open>auto simp: Let_def swap no_news_def intro: transfers_inv_emit\<close>)
  qed
qed

section \<open>All messages\<close>

definition history_paths :: "worker \<Rightarrow> string set" where
  "history_paths w = (case w_history w of None \<Rightarrow> {} | Some h \<Rightarrow> {h_path h, h_path h @ ''.tmp''})"

lemma save_history_files:
  "save_history L nonce disk h fs = (res, fs') \<Longrightarrow> p \<notin> {h_path h, h_path h @ ''.tmp''} \<Longrightarrow> fs' p = fs p"
  by (auto simp: save_history_def Let_def split: sum.splits disk.splits)

lemma worker_append_history_keeps:
  assumes "worker_append_history L d txt l w = (res, w')"
  shows "r_inbound w' = r_inbound w" and "p \<notin> history_paths w \<Longrightarrow> r_files w' p = r_files w p"
    and "set (r_events w') \<subseteq> insert History_Disabled (set (r_events w))" and "history_paths w' \<subseteq> history_paths w"
    and "w_sock w' = w_sock w" and "w_channel w' = w_channel w" and "w_peer w' = w_peer w"
proof -
  have "w' = w \<or> (\<exists>h h' fs r x. w_history w = Some h \<and> h_path h' = h_path h \<and>
      (\<forall>p. p \<notin> history_paths w \<longrightarrow> fs p = r_files w p) \<and>
      (w' = w\<lparr>w_history := Some h', r_files := fs\<rparr> \<or>
       w' = emit_event History_Disabled (w\<lparr>w_history := None, r_files := fs\<rparr>)))"
  proof (cases "w_history w")
    case None
    with assms show ?thesis by (simp add: worker_append_history_def)
  next
    case (Some h)
    obtain r h' fs where a: "append_history L (w_peer w) d txt (l_ts l) (l_nonce l) (l_disk l) h (r_files w) = (r, h', fs)"
      by (cases "append_history L (w_peer w) d txt (l_ts l) (l_nonce l) (l_disk l) h (r_files w)") auto
    have "h_path h' = h_path h \<and> (\<forall>p. p \<notin> {h_path h, h_path h @ ''.tmp''} \<longrightarrow> fs p = r_files w p)"
    proof (cases "\<exists>es. h_entries h = JArr es")
      case True
      then obtain es where es: "h_entries h = JArr es" by blast
      let ?h = "h\<lparr>h_entries := JArr (es @ [history_entry (l_ts l) (w_peer w) d txt])\<rparr>"
      obtain r1 fs1 where sv: "save_history L (l_nonce l) (l_disk l) ?h (r_files w) = (r1, fs1)"
        by (cases "save_history L (l_nonce l) (l_disk l) ?h (r_files w)")
      with a es have "h' = ?h" "fs = fs1" by (simp_all add: append_history_def)
      with save_history_files [OF sv] show ?thesis by auto
    next
      case False
      with a show ?thesis by (auto simp: append_history_def split: json.splits)
    qed
    with assms a Some show ?thesis
      by (auto simp: worker_append_history_def history_paths_def split: sum.splits if_splits)
  qed
  then show "r_inbound w' = r_inbound w" "p \<notin> history_paths w \<Longrightarrow> r_files w' p = r_files w p"
    "set (r_events w') \<subseteq> insert History_Disabled (set (r_events w))" "history_paths w' \<subseteq> history_paths w"
    "w_sock w' = w_sock w" "w_channel w' = w_channel w" "w_peer w' = w_peer w"
    by (auto simp: history_paths_def emit_event_def)
qed

fun handle_plaintexts :: "cryptolib \<Rightarrow> (json \<Rightarrow> string) \<Rightarrow> (luck \<times> bytes) list \<Rightarrow> (worker, unit) stepper" where
  "handle_plaintexts L R [] w = (Inr (), w)"
| "handle_plaintexts L R ((l, p) # ps) w = and_next (handle_plaintext L R l p) (\<lambda>_. handle_plaintexts L R ps) w"

text \<open>The offers among the messages.\<close>

definition offers_in :: "(json \<Rightarrow> string) \<Rightarrow> bytes set \<Rightarrow> offer set" where
  "offers_in R ps = {off. \<exists>body. MSG_FILE_OFFER # body \<in> ps \<and> parse_offer R body = Inr off}"

lemma handle_file_offer_history: "handle_file_offer R io body w = (res, w') \<Longrightarrow> history_paths w' = history_paths w"
  by (erule handle_file_offer_cases)
    (simp_all add: history_paths_def emit_event_def take_offer_def)

lemma handle_file_chunk_history: "handle_file_chunk io body w = (res, w') \<Longrightarrow> history_paths w' = history_paths w"
proof -
  assume h: "handle_file_chunk io body w = (res, w')"
  have k: "w_history (emit_event ev x) = w_history x" "w_history (unlink io t x) = w_history x"
    "w_history (write_handle t b x) = w_history x" for ev io t b and x :: worker
    by (simp_all add: emit_event_def unlink_def write_handle_def split: option.split)
  have "w_history w' = w_history w"
    using h by (auto simp: handle_file_chunk_def Let_def k split: if_splits option.splits)
  then show ?thesis by (simp add: history_paths_def)
qed

lemma handle_plaintext_inv:
  assumes inv: "transfers_inv fs0 kept others offers w" and h: "handle_plaintext L R l p w = (res, w')"
    and offers: "offers_in R {p} \<subseteq> offers" and paths: "history_paths w \<subseteq> others" and apart: "\<forall>q \<in> others. \<not> in_recv_dir q"
  shows "transfers_inv fs0 kept others offers w' \<and> history_paths w' \<subseteq> others"
proof (cases p)
  case Nil
  with h inv paths show ?thesis by (simp add: handle_plaintext_def)
next
  case (Cons m body)
  note h1 = h [unfolded handle_plaintext_def Cons, simplified]
  consider "m = MSG_TEXT" | "m \<noteq> MSG_TEXT" "m = MSG_FILE_OFFER" | "m \<noteq> MSG_TEXT" "m \<noteq> MSG_FILE_OFFER" "m = MSG_FILE_CHUNK"
    | "m \<noteq> MSG_TEXT" "m \<noteq> MSG_FILE_OFFER" "m \<noteq> MSG_FILE_CHUNK" by blast
  then show ?thesis
  proof cases
    case 1
    let ?txt = "decode_replace body"
    obtain r w1 where a: "worker_append_history L ''received'' ?txt l w = (r, w1)"
      by (cases "worker_append_history L ''received'' ?txt l w")
    note k = worker_append_history_keeps [OF a]
    have "transfers_inv fs0 kept others offers w1"
      by (rule transfers_inv_cong [OF inv k(1)]) (use k(2,3) paths apart in blast)+
    moreover have "w' = w1 \<or> (\<exists>ev. w' = emit_event ev w1 \<and> no_news ev)"
      using h1 1 a by (auto simp: and_next_def Let_def no_news_def split: sum.splits)
    moreover have "history_paths (emit_event ev w1) = history_paths w1" for ev
      by (simp add: history_paths_def emit_event_def)
    ultimately show ?thesis using k(4) paths by (auto intro: transfers_inv_emit)
  next
    case 2
    with h1 have o: "handle_file_offer R (l_io l) body w = (res, w')" by simp
    have "off \<in> offers" if "parse_offer R body = Inr off" for off
      using that offers 2 Cons by (auto simp: offers_in_def)
    with handle_file_offer_inv [OF inv o] handle_file_offer_history [OF o] paths show ?thesis by simp
  next
    case 3
    with h1 have c: "handle_file_chunk (l_io l) body w = (res, w')" by simp
    with handle_file_chunk_inv [OF inv c] handle_file_chunk_history [OF c] paths show ?thesis by simp
  next
    case 4
    with h1 inv paths show ?thesis by simp
  qed
qed

lemma handle_plaintexts_inv:
  assumes "transfers_inv fs0 kept others offers w" and "handle_plaintexts L R ps w = (res, w')"
    and "offers_in R (snd ` set ps) \<subseteq> offers" and "history_paths w \<subseteq> others" and apart: "\<forall>q \<in> others. \<not> in_recv_dir q"
  shows "transfers_inv fs0 kept others offers w'" and "history_paths w' \<subseteq> others"
proof -
  have "transfers_inv fs0 kept others offers w' \<and> history_paths w' \<subseteq> others"
    using assms(1-4)
  proof (induction ps arbitrary: w)
    case (Cons lp ps)
    obtain l p where lp: "lp = (l, p)" by (cases lp)
    have "offers_in R {p} \<subseteq> offers" "offers_in R (snd ` set ps) \<subseteq> offers"
      using Cons.prems(3) by (auto simp: offers_in_def lp)
    note step = handle_plaintext_inv [OF Cons.prems(1) _ this(1) Cons.prems(4) apart] and rest = this(2)
    from Cons.prems(2) [unfolded lp handle_plaintexts.simps] show ?case
    proof (cases rule: and_next_cases)
      case (2 a w1)
      with step [OF 2(1)] rest Cons.IH [of w1] show ?thesis by simp
    qed (use step in blast)
  qed simp
  then show "transfers_inv fs0 kept others offers w'" "history_paths w' \<subseteq> others" by simp_all
qed

lemma transfers_inv_start:
  assumes "r_inbound r = []" and "\<forall>n s p. File_Received n s p \<notin> set (r_events r)"
  shows "transfers_inv (r_files r) (r_files r) others offers r"
  by (rule transfers_invI) (simp_all add: assms owned_def)

section \<open>One transfer among other messages\<close>

definition about :: "(json \<Rightarrow> string) \<Rightarrow> bytes \<Rightarrow> bytes \<Rightarrow> bool" where
  "about R fid p \<longleftrightarrow>
     (\<exists>body. p = MSG_FILE_CHUNK # body \<and> 16 \<le> length body \<and> take 16 body = fid) \<or>
     (\<exists>body off. p = MSG_FILE_OFFER # body \<and> parse_offer R body = Inr off \<and> fst off = fid)"

lemma message_types [simp]:
  "MSG_FILE_CHUNK \<noteq> MSG_TEXT" "MSG_FILE_CHUNK \<noteq> MSG_FILE_OFFER" "MSG_FILE_OFFER \<noteq> MSG_TEXT"
  by (simp_all add: MSG_FILE_CHUNK_def MSG_TEXT_def MSG_FILE_OFFER_def)

lemma handle_file_chunk_other:
  assumes "handle_file_chunk io body r = (res, r')" and "length body < 16 \<or> take 16 body \<noteq> fid"
  shows "map_of (r_inbound r') fid = map_of (r_inbound r) fid" and "set (r_events r) \<subseteq> set (r_events r')"
proof -
  have "map_of (r_inbound r') fid = map_of (r_inbound r) fid \<and> set (r_events r) \<subseteq> set (r_events r')"
  proof (cases "length body < 16 \<or> map_of (r_inbound r) (take 16 body) = None")
    case True
    from handle_file_chunk_ignored [OF this, of io] assms(1) show ?thesis by auto
  next
    case False
    then obtain t where t: "map_of (r_inbound r) (take 16 body) = Some t" "\<not> length body < 16" by auto
    with assms show ?thesis
      unfolding handle_file_chunk_unfold [OF t]
      by (auto simp: Let_def add_chunk_def AList.update_conv' AList.delete_conv' split: option.splits if_splits)
  qed
  then show "map_of (r_inbound r') fid = map_of (r_inbound r) fid" "set (r_events r) \<subseteq> set (r_events r')" by simp_all
qed

lemma handle_file_offer_other:
  assumes "handle_file_offer R io body r = (res, r')" and "\<And>off. parse_offer R body = Inr off \<Longrightarrow> fst off \<noteq> fid"
  shows "map_of (r_inbound r') fid = map_of (r_inbound r) fid"
  using assms(1)
proof (cases rule: handle_file_offer_cases)
  case (taken off dest q)
  with assms(2) show ?thesis by (simp add: take_offer_def AList.update_conv')
qed simp_all

lemma handle_file_chunk_events: "handle_file_chunk io body r = (res, r') \<Longrightarrow> set (r_events r) \<subseteq> set (r_events r')"
  by (auto simp: handle_file_chunk_def Let_def split: if_splits option.splits)

lemma handle_file_offer_events: "handle_file_offer R io body r = (res, r') \<Longrightarrow> set (r_events r) \<subseteq> set (r_events r')"
  by (erule handle_file_offer_cases) (auto simp: take_offer_def)

lemma worker_append_history_events:
  "worker_append_history L d txt l w = (res, w') \<Longrightarrow> set (r_events w) \<subseteq> set (r_events w')"
  by (auto simp: worker_append_history_def split: option.splits sum.splits prod.splits if_splits)

lemma handle_plaintext_other:
  assumes "handle_plaintext L R l p w = (res, w')" and "\<not> about R fid p"
  shows "map_of (r_inbound w') fid = map_of (r_inbound w) fid"
proof (cases p)
  case (Cons m body)
  note h = assms(1) [unfolded handle_plaintext_def Cons, simplified]
  show ?thesis
  proof (cases "m = MSG_TEXT")
    case True
    obtain r w1 where a: "worker_append_history L ''received'' (decode_replace body) l w = (r, w1)"
      by (cases "worker_append_history L ''received'' (decode_replace body) l w")
    from worker_append_history_keeps(1) [OF a] h True a show ?thesis
      by (auto simp: and_next_def Let_def split: sum.splits)
  next
    case False
    show ?thesis
    proof (cases "m = MSG_FILE_OFFER")
      case True
      with h have o: "handle_file_offer R (l_io l) body w = (res, w')" by simp
      show ?thesis
        by (rule handle_file_offer_other [OF o]) (use assms(2) Cons True in \<open>auto simp: about_def\<close>)
    next
      case no_offer: False
      with False h assms(2) Cons handle_file_chunk_other(1) [of "l_io l" body w res w' fid]
      show ?thesis by (auto simp: about_def split: if_splits)
    qed
  qed
qed (use assms in \<open>simp add: handle_plaintext_def\<close>)

lemma handle_plaintext_events:
  assumes "handle_plaintext L R l p w = (res, w')"
  shows "set (r_events w) \<subseteq> set (r_events w')"
proof (cases p)
  case (Cons m body)
  note h = assms(1) [unfolded handle_plaintext_def Cons, simplified]
  show ?thesis
  proof (cases "m = MSG_TEXT")
    case True
    obtain r w1 where a: "worker_append_history L ''received'' (decode_replace body) l w = (r, w1)"
      by (cases "worker_append_history L ''received'' (decode_replace body) l w")
    from worker_append_history_events [OF a] h True a show ?thesis
      by (auto simp: and_next_def Let_def split: sum.splits)
  next
    case False
    with h handle_file_offer_events [of R "l_io l" body w res w'] handle_file_chunk_events [of "l_io l" body w res w']
    show ?thesis by (auto split: if_splits)
  qed
qed (use assms in \<open>simp add: handle_plaintext_def\<close>)

lemma handle_plaintexts_events:
  "handle_plaintexts L R ps w = (res, w') \<Longrightarrow> set (r_events w) \<subseteq> set (r_events w')"
proof (induction ps arbitrary: w)
  case (Cons lp ps)
  obtain l p where lp: "lp = (l, p)" by (cases lp)
  from Cons.prems [unfolded lp handle_plaintexts.simps] show ?case
    by (cases rule: and_next_cases) (use handle_plaintext_events Cons.IH in blast)+
qed simp

text \<open>A file that belongs to no transfer is left alone from then on.\<close>

lemma transfers_inv_settle:
  assumes inv: "transfers_inv fs0 kept others offers r" and "r_files r h = Some c" and "\<not> owned r h" and "fs0 h = None"
  shows "transfers_inv fs0 (kept(h \<mapsto> c)) others offers r"
proof -
  note I = transfers_invD [OF inv]
  have "fs0 \<subseteq>\<^sub>m kept(h \<mapsto> c)" using I(7) assms(4) by (auto simp: map_le_def dom_def)
  moreover have "r_files r p = Some b \<and> \<not> owned r p" if "in_recv_dir p" "(kept(h \<mapsto> c)) p = Some b" for p b
    using that I(3) [of p b] assms(2,3) by (auto split: if_splits)
  ultimately show ?thesis
    by (intro transfers_invI) (use I(1,2,4,5,6) in \<open>simp_all del: fun_upd_apply\<close>)
qed

lemma handle_chunk_of:
  assumes "length fid = 16" and "map_of (r_inbound w) fid = Some t" and "cut_write (l_io l) = None" and "close_ok (l_io l)"
    and "t_size t \<le> int (t_received t + length c) \<longrightarrow> hex (sha256 (t_digest t @ c)) = t_sha256 t"
  shows "handle_plaintext L R l (encode_file_chunk fid c) w =
    (Inr (),
     if int (t_received t + length c) < t_size t then add_chunk fid t c w
     else emit_event (File_Received (t_name t) (t_size t) (t_path t)) (forget fid (add_chunk fid t c w)))"
proof -
  have "handle_plaintext L R l (encode_file_chunk fid c) w = handle_file_chunk (l_io l) (fid @ c) w"
    by (simp add: handle_plaintext_def encode_file_chunk_def)
  also have "\<dots> = (Inr (),
     if int (t_received t + length c) < t_size t then add_chunk fid t c w
     else emit_event (File_Received (t_name t) (t_size t) (t_path t)) (forget fid (add_chunk fid t c w)))"
    using assms handle_file_chunk_unfold [of w "fid @ c" t "l_io l"] by (simp add: Let_def)
  finally show ?thesis .
qed

definition smooth :: "(json \<Rightarrow> string) \<Rightarrow> bytes \<Rightarrow> (luck \<times> bytes) list \<Rightarrow> bool" where
  "smooth R fid ps \<longleftrightarrow> (\<forall>(l, p) \<in> set ps. about R fid p \<longrightarrow> cut_write (l_io l) = None \<and> close_ok (l_io l))"

lemma about_chunk: "length fid = 16 \<Longrightarrow> about R fid (encode_file_chunk fid c)"
  by (simp add: about_def encode_file_chunk_def)

lemma chunks_delivered:
  assumes "transfers_inv fs0 kept others offers w" and "map_of (r_inbound w) fid = Some t"
    and "handle_plaintexts L R ps w = (Inr (), w')"
    and "filter (about R fid) (map snd ps) = map (encode_file_chunk fid) cs" and "cs \<noteq> []" and "[] \<notin> set cs"
    and "t_digest t @ concat cs = content" and "t_size t = int (length content)" and "t_sha256 t = hex (sha256 content)"
    and "smooth R fid ps" and "offers_in R (snd ` set ps) \<subseteq> offers" and "history_paths w \<subseteq> others"
    and len: "length fid = 16" and apart: "\<forall>q \<in> others. \<not> in_recv_dir q"
  shows "File_Received (t_name t) (t_size t) (t_path t) \<in> set (r_events w') \<and> r_files w' (t_handle t) = Some content"
  using assms(1-12)
proof (induction ps arbitrary: w t cs)
  case Nil
  then show ?case by simp
next
  case (Cons lp ps)
  obtain l p where lp: "lp = (l, p)" by (cases lp)
  from Cons.prems(3) obtain w1 where step: "handle_plaintext L R l p w = (Inr (), w1)"
    and run: "handle_plaintexts L R ps w1 = (Inr (), w')"
    by (auto simp: lp elim: and_next_cases)
  have offers: "offers_in R {p} \<subseteq> offers" "offers_in R (snd ` set ps) \<subseteq> offers"
    using Cons.prems(11) by (auto simp: offers_in_def lp)
  have smooth: "smooth R fid ps" using Cons.prems(10) by (auto simp: smooth_def)
  from handle_plaintext_inv [OF Cons.prems(1) step offers(1) Cons.prems(12) apart]
  have inv1: "transfers_inv fs0 kept others offers w1" and paths1: "history_paths w1 \<subseteq> others" by simp_all
  note tr = transfers_invD(1) [OF Cons.prems(1,2)]
  show ?case
  proof (cases "about R fid p")
    case False
    have "map_of (r_inbound w1) fid = Some t"
      using handle_plaintext_other [OF step False] Cons.prems(2) by simp
    moreover have "filter (about R fid) (map snd ps) = map (encode_file_chunk fid) cs"
      using Cons.prems(4) False by (simp add: lp)
    ultimately show ?thesis
      using Cons.IH [OF inv1 _ run _ Cons.prems(5-9) smooth offers(2) paths1] by blast
  next
    case True
    with Cons.prems(4,5) obtain c cs' where cs: "cs = c # cs'" and p: "p = encode_file_chunk fid c"
      and rest: "filter (about R fid) (map snd ps) = map (encode_file_chunk fid) cs'"
      by (cases cs) (auto simp: lp)
    have io: "cut_write (l_io l) = None" "close_ok (l_io l)"
      using Cons.prems(10) True by (auto simp: smooth_def lp)
    have rcv: "t_received t = length (t_digest t)" using tr by (simp add: tracked_def)
    have all: "cs' = [] \<longleftrightarrow> t_size t \<le> int (t_received t + length c)"
    proof (cases cs')
      case (Cons a as)
      with Cons.prems(6) obtain n where "length a = Suc n" by (cases a) (auto simp: cs)
      with Cons Cons.prems(7,8) rcv show ?thesis by (auto simp: cs)
    qed (use Cons.prems(7,8) rcv in \<open>auto simp: cs\<close>)
    have "t_size t \<le> int (t_received t + length c) \<longrightarrow> hex (sha256 (t_digest t @ c)) = t_sha256 t"
      using all Cons.prems(7,9) by (auto simp: cs)
    from handle_chunk_of [OF len Cons.prems(2) io this, of L R] step p
    have w1: "w1 = (if cs' \<noteq> [] then add_chunk fid t c w
        else emit_event (File_Received (t_name t) (t_size t) (t_path t)) (forget fid (add_chunk fid t c w)))"
      using all by (auto split: if_splits)
    show ?thesis
    proof (cases "cs' = []")
      case False
      have t1: "map_of (r_inbound w1) fid = Some (grown t c)"
        using w1 False add_chunk_entry by simp
      show ?thesis
        using Cons.IH [OF inv1 t1 run rest False _ _ _ _ smooth offers(2) paths1] Cons.prems(6-9) by (simp add: cs)
    next
      case True
      have content: "content = t_digest t @ c" using Cons.prems(7) True by (simp add: cs)
      have news: "File_Received (t_name t) (t_size t) (t_path t) \<in> set (r_events w1)"
        using w1 True by simp
      have "r_files w1 (t_handle t) = Some content"
        using w1 True content by (simp add: add_chunk_def write_handle_tracked [OF tr])
      moreover have "\<not> owned w1 (t_handle t)"
        using transfers_invD(2) [OF Cons.prems(1) _ Cons.prems(2)] w1 True
        by (auto simp: owned_def add_chunk_def AList.delete_conv' AList.update_conv' split: if_splits)
      ultimately have "transfers_inv fs0 (kept(t_handle t \<mapsto> content)) others offers w1"
        using transfers_inv_settle [OF inv1] tr by (simp add: tracked_def)
      from handle_plaintexts_inv(1) [OF this run offers(2) paths1 apart]
      have "r_files w' (t_handle t) = Some content"
        using transfers_invD(3) tr by (fastforce simp: tracked_def)
      with news handle_plaintexts_events [OF run] show ?thesis by blast
    qed
  qed
qed

text \<open>The offer itself.\<close>

lemma parse_own_offer:
  assumes "utf8_ok name" and "length (show_nat n) \<le> int_max_str_digits"
  shows "parse_offer R (tl (encode_file_offer fid name (int n) (hex b))) = Inr (fid, name, int n, hex b)"
proof -
  have "wf_json (offer_json fid name (int n) (hex b))"
    using assms utf8_hex by (auto simp: offer_json_def intro!: ascii_text_ok)
  from decode_dump [OF this, of None 0] show ?thesis
    by (simp add: parse_offer_def encode_file_offer_def dumps_def)
      (simp add: offer_json_def json_hex_field_def fromhex_hex int_of_json_def str_of_json_def)
qed

section \<open>Runs\<close>

lemma handle_offer_taken:
  assumes "parse_offer R body = Inr (fid, name, len, sha)" and "0 < len" and "len \<le> MAX_FILE_SIZE"
    and "length (r_inbound r) < MAX_CONCURRENT_INBOUND_TRANSFERS" and "mkdir_ok io" and "open_ok io"
    and "unique_dest_path (r_files r) FILE_RECV_DIR name = Inr dest" and "os_name dest = Some q"
  shows "handle_file_offer R io body r =
    (Inr (), emit_event (File_Offered name len) (take_offer (fid, name, len, sha) dest (path_join FILE_RECV_DIR q) r))"
proof -
  have "length q \<le> NAME_MAX"
    using free_in_plain(1) [OF unique_dest_path_free [OF assms(7)] assms(8)] by (simp add: plain_name_def)
  with assms show ?thesis
    by (simp add: handle_file_offer_def open_wb_def take_offer_def accepted_offer_def)
qed

lemma handle_plaintexts_append:
  "handle_plaintexts L R (ps @ qs) w = and_next (handle_plaintexts L R ps) (\<lambda>_. handle_plaintexts L R qs) w"
  by (induction ps arbitrary: w) (auto simp: and_next_def split: prod.splits sum.splits)

end
