(* ===== verification/Audit_Format.thy ===== *)
theory Audit_Format
  imports Audit_Log Json_Laws "HOL-Library.List_Lexorder" "HOL-Library.Char_ord"
begin

text \<open>
  The text of the log: \<open>_JsonFormatter\<close> of \<open>audit_log.py\<close> and the lines a handler writes. The time
  stamp is rendered by the standard library and so is \<open>repr\<close> of a float; both are arguments.
\<close>

section \<open>Records\<close>

text \<open>What the formatter reads of a \<open>LogRecord\<close>; a record of another logger has no event.\<close>

record log_record =
  lr_time :: string
  lr_level :: string
  lr_event :: "string option"
  lr_message :: string
  lr_context :: "(string \<times> json) list option"

fun context_json :: "(real \<Rightarrow> string) \<Rightarrow> context_value \<Rightarrow> json" where
  "context_json F (CInt i) = JInt i"
| "context_json F (CStr s) = JStr s"
| "context_json F (CReal x) = JFloat (F x)"
| "context_json F CNone = JNull"
| "context_json F (CJson j) = j"

text \<open>\<open>SecurityLogger.security\<close>: the event travels in the record's extra attributes.\<close>

definition security_record :: "(real \<Rightarrow> string) \<Rightarrow> string \<Rightarrow> string \<Rightarrow> event \<Rightarrow> log_record" where
  "security_record F time msg ev =
     \<lparr>lr_time = time, lr_level = ''SECURITY'', lr_event = Some (event_value (code ev)), lr_message = msg,
      lr_context = Some (map (\<lambda>(k, v). (k, context_json F v)) (details ev))\<rparr>"

section \<open>The formatter\<close>

text \<open>\<open>sort_keys=True\<close>: by code points, which is the order of the encoded bytes.\<close>

primrec sort_keys :: "json \<Rightarrow> json" where
  "sort_keys JNull = JNull"
| "sort_keys (JBool b) = JBool b"
| "sort_keys (JInt i) = JInt i"
| "sort_keys (JFloat lit) = JFloat lit"
| "sort_keys (JStr s) = JStr s"
| "sort_keys (JArr js) = JArr (map sort_keys js)"
| "sort_keys (JObj m) = JObj (sort_key fst (map (map_prod id sort_keys) m))"

definition record_payload :: "log_record \<Rightarrow> json" where
  "record_payload r =
     JObj ([(''ts'', JStr (lr_time r)), (''level'', JStr (lr_level r)),
            (''event'', JStr (case lr_event r of Some e \<Rightarrow> e | None \<Rightarrow> lr_message r)), (''msg'', JStr (lr_message r))] @
           (case lr_context r of None \<Rightarrow> [] | Some m \<Rightarrow> if m = [] then [] else [(''context'', JObj m)]))"

definition format_record :: "log_record \<Rightarrow> string" where
  "format_record r = dumps (sort_keys (record_payload r))"

text \<open>A handler ends every record with a new line.\<close>

definition log_text :: "log_record list \<Rightarrow> string" where
  "log_text rs = concat (map (\<lambda>r. format_record r @ [CHR 0x0A]) rs)"

section \<open>Lines\<close>

text \<open>The specification: a log is read line by line.\<close>

fun lines_of :: "string \<Rightarrow> string list" where
  "lines_of [] = []"
| "lines_of (c # s) =
     (if c = CHR 0x0A then [] # lines_of s
      else case lines_of s of [] \<Rightarrow> [[c]] | l # ls \<Rightarrow> (c # l) # ls)"

definition printable :: "string \<Rightarrow> bool" where
  "printable s \<longleftrightarrow> (\<forall>c \<in> set s. 32 \<le> (of_char c :: nat) \<and> of_char c < (127 :: nat))"

lemma printable_simps [simp]:
  "printable []" "printable (c # s) \<longleftrightarrow> (32 \<le> (of_char c :: nat) \<and> of_char c < (127 :: nat)) \<and> printable s"
  "printable (s @ t) \<longleftrightarrow> printable s \<and> printable t"
  by (auto simp: printable_def)

lemma lines_of_line: "CHR 0x0A \<notin> set l \<Longrightarrow> lines_of (l @ CHR 0x0A # s) = l # lines_of s"
  by (induction l) auto

lemma printable_one_line: "printable s \<Longrightarrow> CHR 0x0A \<notin> set s"
  by (auto simp: printable_def)

lemma printable_concat: "printable (concat xs) \<longleftrightarrow> (\<forall>x \<in> set xs. printable x)"
  by (induction xs) auto

lemma printable_join: "printable sep \<Longrightarrow> (\<forall>x \<in> set xs. printable x) \<Longrightarrow> printable (join sep xs)"
  by (induction sep xs rule: join.induct) auto

lemma hex_digit_printable: "n < 16 \<Longrightarrow> 32 \<le> (of_char (hex_digits ! n) :: nat) \<and> of_char (hex_digits ! n) < (127 :: nat)"
proof -
  assume "n < 16"
  then have "hex_digits ! n \<in> set hex_digits"
    by (intro nth_mem) (simp add: hex_digits_def)
  then show ?thesis by (auto simp: hex_digits_def)
qed

lemma printable_escape: "printable (escape_char n)"
proof -
  have u: "printable (escape_u m)" for m
    by (simp add: escape_u_def hex4_text_def hex_digit_printable)
  show ?thesis
    by (auto simp: escape_char_def u)
qed

lemma printable_quote: "printable (quote s)"
  by (simp add: quote_def printable_concat printable_escape split: option.splits)

lemma printable_show_int: "printable (show_int i)"
proof -
  have "list_all is_digit s \<Longrightarrow> printable s" for s
    by (induction s) (auto simp: is_digit_def Let_def)
  then show ?thesis
    using show_nat_digits by (auto simp: show_int_def)
qed

text \<open>The literals of floats are the only text that is not escaped.\<close>

primrec plain_floats :: "json \<Rightarrow> bool" where
  "plain_floats JNull = True"
| "plain_floats (JBool b) = True"
| "plain_floats (JInt i) = True"
| "plain_floats (JFloat lit) = printable lit"
| "plain_floats (JStr s) = True"
| "plain_floats (JArr js) = list_all id (map plain_floats js)"
| "plain_floats (JObj m) = list_all snd (map (map_prod id plain_floats) m)"

lemma printable_dump: "plain_floats j \<Longrightarrow> ind = None \<Longrightarrow> printable (dump ind l j)"
proof (induction ind l j rule: dump.induct)
  case (6 ind level js)
  then show ?case by (auto simp: new_line_def item_separator_def list_all_iff intro!: printable_join)
next
  case (7 ind level m)
  then show ?case by (fastforce simp: new_line_def item_separator_def printable_quote list_all_iff intro!: printable_join)
qed (simp_all add: printable_quote printable_show_int)

section \<open>Sorting the keys\<close>

lemma keys_map_prod: "keys (map (map_prod id f) m) = keys m"
  by (induction m) auto

lemma distinct_sort_keys: "distinct (keys (sort_key fst (map (map_prod id f) m))) \<longleftrightarrow> distinct (keys m)" for m :: "(string \<times> 'a) list"
proof -
  have "distinct (keys (sort_key fst xs)) \<longleftrightarrow> distinct (keys xs)" for xs :: "(string \<times> 'b) list"
    by (simp add: distinct_map)
  then show ?thesis by (simp only: keys_map_prod)
qed

lemma plain_sorted: "plain_floats j \<Longrightarrow> plain_floats (sort_keys j)"
proof (induction j)
  case (JObj m)
  then show ?case by (fastforce simp: list_all_iff)
qed (auto simp: list_all_iff)

lemma wf_sorted: "wf_json j \<Longrightarrow> wf_json (sort_keys j)"
proof (induction j)
  case (JObj m)
  have "distinct (keys (sort_key fst (map (map_prod id sort_keys) m)))"
    using JObj.prems by (simp only: distinct_sort_keys wf_json.simps)
  with JObj show ?case by (fastforce simp: list_all_iff)
qed (auto simp: list_all_iff)

lemma map_of_sorted:
  fixes m :: "(string \<times> json) list"
  assumes "distinct (keys m)"
  shows "map_of (sort_key fst (map (map_prod id sort_keys) m)) k = map_option sort_keys (map_of m k)"
proof -
  have "map_of (sort_key fst (map (map_prod id sort_keys) m)) = map_of (map (map_prod id sort_keys) m)"
    using assms distinct_sort_keys [of sort_keys m] keys_map_prod [of sort_keys m]
    by (subst map_of_inject_set) (simp_all only: set_sort)
  moreover have "map_of (map (map_prod id sort_keys) m) k = map_option sort_keys (map_of m k)"
    by (induction m) auto
  ultimately show ?thesis by simp
qed

section \<open>The log\<close>

lemma lines_of_log: "\<forall>r \<in> set rs. plain_floats (record_payload r) \<Longrightarrow> lines_of (log_text rs) = map format_record rs"
proof (induction rs)
  case (Cons r rs)
  then have "CHR 0x0A \<notin> set (format_record r)"
    by (intro printable_one_line) (simp add: format_record_def dumps_def printable_dump plain_sorted)
  with Cons lines_of_line [OF this, of "log_text rs"] show ?case by (simp add: log_text_def)
qed (simp add: log_text_def)

lemma loads_record: "wf_json (record_payload r) \<Longrightarrow> loads (format_record r) = Inr (sort_keys (record_payload r))"
  by (simp add: format_record_def loads_dumps wf_sorted)

lemma distinct_payload: "record_payload r = JObj m \<Longrightarrow> distinct (keys m)"
  by (auto simp: record_payload_def split: option.splits)

text \<open>What a reader finds in a line.\<close>

lemma record_fields:
  assumes "wf_json (record_payload r)" and "lr_event r = Some e"
  shows "bind_exn (loads (format_record r)) (json_get ''event'') = Inr (JStr e)"
    and "bind_exn (loads (format_record r)) (json_get ''msg'') = Inr (JStr (lr_message r))"
    and "bind_exn (loads (format_record r)) (json_get ''level'') = Inr (JStr (lr_level r))"
    and "lr_context r = Some m \<Longrightarrow> m \<noteq> [] \<Longrightarrow>
      bind_exn (loads (format_record r)) (json_get ''context'') = Inr (sort_keys (JObj m))"
proof -
  obtain ps where ps: "record_payload r = JObj ps" by (simp add: record_payload_def)
  have get: "bind_exn (loads (format_record r)) (json_get k) = Inr (sort_keys v)" if "map_of ps k = Some v" for k v
    using that map_of_sorted [OF distinct_payload [OF ps], of k] by (simp add: loads_record [OF assms(1)] ps)
  show "bind_exn (loads (format_record r)) (json_get ''event'') = Inr (JStr e)"
    "bind_exn (loads (format_record r)) (json_get ''msg'') = Inr (JStr (lr_message r))"
    "bind_exn (loads (format_record r)) (json_get ''level'') = Inr (JStr (lr_level r))"
    using get [of "''event''" "JStr e"] get [of "''msg''" "JStr (lr_message r)"] get [of "''level''" "JStr (lr_level r)"]
      ps assms(2) by (auto simp: record_payload_def)
  show "bind_exn (loads (format_record r)) (json_get ''context'') = Inr (sort_keys (JObj m))" if "lr_context r = Some m" "m \<noteq> []"
    using get [of "''context''" "JObj m"] ps that by (auto simp: record_payload_def)
qed

end
