(* ===== verification/Program_Properties.thy ===== *)
theory Program_Properties
  imports Demo_Session Client Server_Safety Transfer_Safety Audit_Format
begin

text \<open>
  The properties of the programs around the channel: the server and its rate limiter, the trust
  store on disk, the chat loops, the chat history, the file transfers, the worker's loop of
  connections and the log.
\<close>

section \<open>The server\<close>

text \<open>
  C11: What a connection does to the rate limiter. A visitor the limiter blocks is turned away and
  nothing else changes; of the others, one whose handshake completes is recorded as a success,
  one that shows another key than the pinned one or fails the handshake as one failure, and
  any other outcome leaves no trace in it.
\<close>

theorem connection_accounting:
  assumes "serve_visit L v s = (Inr x, s')" and "sql_is_blocked (v_ip v) (v_accepted v) (srv_limiter s) = (blocked, db)"
  shows "(x = None \<longleftrightarrow> blocked) \<and> (blocked \<longrightarrow> s' = s\<lparr>srv_limiter := db\<rparr>) \<and>
    (\<forall>y. x = Some y \<longrightarrow>
      srv_limiter s' =
        (if Handshake_Complete \<in> set (x_shown y) then sql_record_success (v_ip v) db
         else if key_mismatch y \<or> (\<exists>h. fst (server_body L v (open_connection v (s\<lparr>srv_limiter := db\<rparr>))) = Inl (HandshakeError h))
         then sql_record_failure (v_ip v) (v_failed v) db
         else db))"
proof (cases blocked)
  case True
  with assms show ?thesis by (auto simp: serve_visit_def)
next
  case False
  let ?x0 = "open_connection v (s\<lparr>srv_limiter := db\<rparr>)"
  from assms False obtain y where y: "handle_connection L v ?x0 = (Inr (), y)" "x = Some y" "s' = close_connection y s"
    by (auto simp: serve_visit_def split: prod.splits sum.splits)
  have "x_limiter y = verdict_on v (fst (server_body L v ?x0)) y db"
    using handle_connection_limiter [OF y(1)] by (simp add: open_connection_def)
  with y False show ?thesis by (simp add: verdict_on_def close_connection_def)
qed

definition demo_server :: server where
  "demo_server =
     \<lparr>srv_me = self bob, srv_trust = store bob,
      srv_limiter = (new_sqlite_limiter 5 60 30)\<lparr>blocks := [(''10.0.0.9'', 7)]\<rparr>,
      srv_files = save_store (store bob) server_trust_path (\<lambda>_. None), srv_log = []\<rparr>"

definition demo_visit :: "string \<Rightarrow> bytes list \<Rightarrow> visit" where
  "demo_visit ip pieces =
     \<lparr>v_ip = ip, v_sock = \<lparr>audit = [], incoming = pieces, outgoing = [], writable = True, silent = False, deadline = False\<rparr>,
      v_accepted = 5, v_failed = 6, v_answer = ''y'', v_eph = [4], v_joined = 0, v_replies = []\<rparr>"

lemma connection_accounting_witness:
  "snd (serve_visit demo (demo_visit ''10.0.0.9'' [[1]]) demo_server) = demo_server"
proof -
  let ?v = "demo_visit ''10.0.0.9'' [[1]]"
  have q: "sql_is_blocked (v_ip ?v) (v_accepted ?v) (srv_limiter demo_server) = (True, srv_limiter demo_server)"
    by (simp add: sql_is_blocked_def demo_visit_def demo_server_def)
  then have "serve_visit demo ?v demo_server = (Inr None, snd (serve_visit demo ?v demo_server))"
    by (simp add: serve_visit_def)
  from connection_accounting [OF this q] show ?thesis by simp
qed


lemma demo_sendable:
  "sendable (introduction (self bob))"
  "sendable (JObj [(''name'', JStr ''carol''), (''identity_pub'', JStr (hex (demo_pub k)))])"
  "length (m1_epk m1) \<le> 500 \<Longrightarrow> sendable (to_wire1 (m1\<lparr>m1_name := JStr ''alice''\<rparr>))"
  "length (m2_epk m2) \<le> 500 \<Longrightarrow> length (m2_sig m2) \<le> 500 \<Longrightarrow> sendable (to_wire2 (m2\<lparr>m2_name := JStr ''bob''\<rparr>))"
  "length (m3_sig m3) \<le> 500 \<Longrightarrow> sendable (to_wire3 m3)"
  unfolding introduction_def to_wire1_def to_wire2_def to_wire3_def
  by (rule sendable_small;
      force simp: utf8_hex bob_def demo_party_def new_identity_def public_bytes_def intro!: ascii_text_ok)+


text \<open>
  C23: A peer whose introduction names a pinned identity with its key and whose handshake messages
  verify is admitted to the chat, whatever pieces its frames arrive in and whatever the human
  would answer, and is then no longer counted as failing. The chat shows the name of the
  introduction; nothing compares it with the name the handshake authenticated.
\<close>

theorem server_admits_known_key:
  assumes "claim_holds L v x c ch"
    and "coming (frame_of (c_intro c) @ frame_of (c_wire1 c) @ frame_of (c_wire3 c) @ rest) (x_sock x)"
  shows "\<exists>s evs. coming rest s \<and>
    server_body L v x = server_chat L (c_name c) (v_replies v) ch
      (show_line Handshake_Complete (count_success v (x\<lparr>x_sock := s, x_log := x_log x @ evs, x_channel := Some ch\<rparr>)))"
  by (rule server_completes [OF assms])

text \<open>Alice's handshake behind the introduction of another peer whose key is pinned.\<close>

definition demo_trust :: trust_store where
  "demo_trust = \<lparr>audit = [], trusted = [(''alice'', demo_pub [1]), (''carol'', demo_pub [8])]\<rparr>"

definition demo_claim :: "handshake_message1 \<Rightarrow> handshake_message3 \<Rightarrow> claim" where
  "demo_claim msg1 msg3 =
     \<lparr>c_intro = JObj [(''name'', JStr ''carol''), (''identity_pub'', JStr (hex (demo_pub [8])))],
      c_name = JStr ''carol'', c_pub = demo_pub [8],
      c_wire1 = to_wire1 msg1, c_msg1 = msg1, c_wire3 = to_wire3 msg3, c_msg3 = msg3\<rparr>"

definition demo_exchange_of :: "bytes \<Rightarrow> exchange" where
  "demo_exchange_of b =
     \<lparr>x_me = self bob, x_trust = demo_trust, x_limiter = new_sqlite_limiter 5 60 30, x_files = (\<lambda>_. None),
      x_sock = \<lparr>audit = [], incoming = [b], outgoing = [], writable = True, silent = False, deadline = False\<rparr>,
      x_log = [], x_shown = [], x_channel = None\<rparr>"

lemma server_admits_known_key_witness:
  "\<exists>msg1 msg3 ch x. m1_name msg1 = JStr ''alice'' \<and>
     server_body demo (demo_visit ''10.0.0.7'' [])
       (demo_exchange_of (frame_of (c_intro (demo_claim msg1 msg3)) @ frame_of (to_wire1 msg1) @ frame_of (to_wire3 msg3))) =
     server_chat demo (JStr ''carol'') [] ch x \<and> Handshake_Complete \<in> set (x_shown x)"
proof -
  let ?bob = "bob\<lparr>store := demo_trust\<rparr>" and ?v = "demo_visit ''10.0.0.7'' []"
  obtain msg1 st where m1: "initiator_start demo (self alice) (eph alice) = (msg1, st)"
    by (cases "initiator_start demo (self alice) (eph alice)")
  obtain msg2 st2 where m2: "responder_respond demo (self bob) msg1 (eph bob) = (msg2, st2)"
    by (cases "responder_respond demo (self bob) msg1 (eph bob)")
  have "genuine demo ?bob" "pinned_by ?bob alice" "pinned_by alice ?bob"
    using demo_parties by (simp_all add: genuine_def pinned_by_def demo_trust_def pins_def alice_def demo_party_def
        new_identity_def public_bytes_def)
  then obtain a b where "honest_handshake demo alice ?bob = Inr (a, b)"
    using honest_handshake_completes [OF demo_dh demo_signatures demo_parties(1)] by metis
  then obtain msg3 where i: "fst (initiator_finish demo (self alice) (store alice) st msg2 (joined alice)) = Inr (msg3, a)"
    and r: "fst (responder_finish demo demo_trust st2 msg3 (joined bob)) = Inr b"
    by (auto simp: honest_handshake_def m1 m2 bind_exn_Inr)
  have msgs: "msg1 = \<lparr>m1_name = JStr ''alice'', m1_epk = demo_pub [3]\<rparr>" "is_epk_bytes st = demo_pub [3]"
    "msg2 = \<lparr>m2_name = JStr ''bob'', m2_epk = demo_pub [4], m2_sig = demo_sign [2] (transcript (demo_pub [3]) (demo_pub [4]))\<rparr>"
    using m1 m2 by (auto simp: initiator_start_def responder_respond_def generate_x25519_keypair_def sign_def
        alice_def bob_def demo_party_def new_identity_def Let_def)
  from i obtain evs where "initiator_finish demo (self alice) (store alice) st msg2 (joined alice) = (Inr (msg3, a), evs)"
    by (metis prod.collapse)
  then have msg3: "msg3 = \<lparr>m3_sig = demo_sign [1] (transcript (demo_pub [3]) (demo_pub [4]))\<rparr>"
    by (cases rule: initiator_finish_Inr)
      (simp add: msgs sign_def alice_def demo_party_def new_identity_def)
  have sizes: "length (m1_epk msg1) \<le> 500" "length (m2_epk msg2) \<le> 500" "length (m2_sig msg2) \<le> 500" "length (m3_sig msg3) \<le> 500"
    and names: "msg1\<lparr>m1_name := JStr ''alice''\<rparr> = msg1" "msg2\<lparr>m2_name := JStr ''bob''\<rparr> = msg2"
    by (simp_all add: msgs msg3 demo_sign_def transcript_def)
  let ?c = "demo_claim msg1 msg3"
  have claim: "claim_holds demo ?v (demo_exchange_of b') ?c b" for b'
  proof -
    have "parse_introduction (c_intro ?c) = Inr (c_name ?c, c_pub ?c)"
      by (simp add: demo_claim_def parse_introduction_def json_hex_field_def fromhex_hex)
    moreover have "from_wire1 (c_wire1 ?c) = Inr (c_msg1 ?c)" "from_wire3 (c_wire3 ?c) = Inr (c_msg3 ?c)"
      using wire1.dec_enc [OF refl, of msg1] wire3.dec_enc [OF refl, of msg3] by (simp_all add: demo_claim_def)
    moreover have "sendable (c_intro ?c)" "sendable (c_wire1 ?c)" "sendable (c_wire3 ?c)"
      using demo_sendable(2) [of "[8]"] demo_sendable(3) [OF sizes(1)] demo_sendable(5) [OF sizes(4)]
      by (simp_all add: demo_claim_def names)
    moreover have "sendable (introduction (x_me (demo_exchange_of b')))"
      using demo_sendable(1) by (simp add: demo_exchange_of_def)
    moreover have "sendable (to_wire2 msg2)"
      using demo_sendable(4) [OF sizes(2,3)] by (simp add: names)
    moreover have "pins demo_trust ''carol'' = Some (demo_pub [8])" by (simp add: pins_def demo_trust_def)
    moreover have "ed25519_public_from_bytes demo (demo_pub [8]) = Inr (demo_pub [8])"
      by (simp add: ed25519_public_from_bytes_def demo_def demo_load_def)
    moreover obtain evs where "responder_finish demo demo_trust st2 msg3 (joined bob) = (Inr b, evs)"
      using r by (metis prod.collapse)
    moreover have "v_eph ?v = eph bob" "v_joined ?v = joined bob"
      by (simp_all add: demo_visit_def bob_def demo_party_def)
    ultimately show ?thesis
      by (simp add: claim_holds_def m2 demo_exchange_of_def demo_claim_def)
  qed
  let ?b = "frame_of (c_intro ?c) @ frame_of (c_wire1 ?c) @ frame_of (c_wire3 ?c)"
  have "coming (frame_of (c_intro ?c) @ frame_of (c_wire1 ?c) @ frame_of (c_wire3 ?c) @ []) (x_sock (demo_exchange_of ?b))"
    by (simp add: coming_def demo_exchange_of_def pieces_ok_def frame_of_def be_bytes_4)
  from server_admits_known_key [OF claim this] obtain s evs where
    "server_body demo ?v (demo_exchange_of ?b) = server_chat demo (c_name ?c) (v_replies ?v) b
      (show_line Handshake_Complete (count_success ?v ((demo_exchange_of ?b)\<lparr>x_sock := s, x_log := x_log (demo_exchange_of ?b) @ evs, x_channel := Some b\<rparr>)))"
    by blast
  moreover have "c_name ?c = JStr ''carol''" "v_replies ?v = []" "c_wire1 ?c = to_wire1 msg1" "c_wire3 ?c = to_wire3 msg3"
    by (simp_all add: demo_claim_def demo_visit_def)
  moreover have "m1_name msg1 = JStr ''alice''" by (simp add: msgs)
  moreover have "Handshake_Complete \<in> set (x_shown (show_line Handshake_Complete y))" for y
    by (simp add: show_line_def)
  ultimately show ?thesis by metis
qed

text \<open>
  C24: One frame that is no JSON text, from a peer nothing is known of, ends the server: the
  exception leaves the loop, the visitors behind it are not served, and no failure is recorded.
\<close>

theorem malformed_introduction_stops_server:
  assumes "sql_is_blocked (v_ip v) (v_accepted v) (srv_limiter s) = (False, db)" and "receivable (v_sock v)"
    and "arriving (v_sock v) = be_bytes 4 (length b) @ b @ rest" and "length b \<le> MAX_FRAME_SIZE"
    and "bind_exn (decode_utf8 b) loads \<in> {Inl JSONDecodeError, Inl UnicodeDecodeError}"
  shows "fst (serve L (v # vs) s) = Inl (FrameError Malformed_Frame) \<and> snd (serve L (v # vs) s) = s\<lparr>srv_limiter := db\<rparr>"
proof -
  have "from_bytes (be_bytes 4 (length b)) = length b"
    using assms(4) by (simp add: from_be_bytes MAX_FRAME_SIZE_def)
  with recv_bytes_stream(1) [OF assms(2) assms(3) [symmetric]] assms(4)
  have "fst (recv_bytes (v_sock v)) = Inr b" by (simp add: Let_def)
  then obtain s1 where "recv_bytes (v_sock v) = (Inr b, s1)" by (metis prod.collapse)
  with assms(5) obtain s2 where r: "recv_json (v_sock v) = (Inl (FrameError Malformed_Frame), s2)"
    by (auto simp: recv_json_def)
  let ?x0 = "open_connection v (s\<lparr>srv_limiter := db\<rparr>)"
  have "server_body L v ?x0 = (Inl (FrameError Malformed_Frame), ?x0\<lparr>x_sock := s2\<rparr>)"
    using r by (simp add: server_body_def recv_message_def and_next_def on_sock_def open_connection_def)
  then have "serve_visit L v s = (Inl (FrameError Malformed_Frame), s\<lparr>srv_limiter := db\<rparr>)"
    using assms(1) by (simp add: serve_visit_def handle_connection_def open_connection_def close_connection_def)
  then show ?thesis by simp
qed

lemma malformed_introduction_stops_server_witness:
  "fst (serve demo [demo_visit ''10.0.0.7'' [[0, 0, 0], [1, 255]], demo_visit ''10.0.0.8'' []] demo_server) =
     Inl (FrameError Malformed_Frame)"
proof -
  let ?v = "demo_visit ''10.0.0.7'' [[0, 0, 0], [1, 255]]"
  have "decode_utf8 [255] = Inl UnicodeDecodeError"
    by code_simp
  then have b: "bind_exn (decode_utf8 [255]) loads \<in> {Inl JSONDecodeError, Inl UnicodeDecodeError}" by simp
  have q: "sql_is_blocked (v_ip ?v) (v_accepted ?v) (srv_limiter demo_server) = (False, srv_limiter demo_server)"
    by (simp add: sql_is_blocked_def demo_visit_def demo_server_def new_sqlite_limiter_def)
  have "receivable (v_sock ?v)" by (simp add: demo_visit_def pieces_ok_def)
  moreover have "arriving (v_sock ?v) = be_bytes 4 (length [255 :: byte]) @ [255] @ []"
    by (simp add: demo_visit_def be_bytes_4)
  moreover have "length [255 :: byte] \<le> MAX_FRAME_SIZE" by (simp add: MAX_FRAME_SIZE_def)
  ultimately show ?thesis
    using malformed_introduction_stops_server [OF q _ _ _ b, of "[]" demo "[demo_visit ''10.0.0.8'' []]"] by blast
qed

section \<open>The chat loops\<close>


section \<open>The chat history\<close>

text \<open>
  C16: The history implements a journal. After any sequence of appends, each of which may fail in
  the middle of the write or before the rename, memory holds everything, a restart finds a
  prefix of it that has what it found before, and all of it if the last append succeeded.
\<close>

theorem history_survives_crashes:
  assumes "fits_all (add_note L) (note_fits L dir p) ns s" and "recovered_entries L dir p s = Some es"
    and "held_entries s = es @ unsaved"
  shows "held_entries (add_all (add_note L) ns s) = es @ unsaved @ map note_entry ns \<and>
    (\<exists>k. recovered_entries L dir p (add_all (add_note L) ns s) = Some (es @ take k (unsaved @ map note_entry ns))) \<and>
    (ns \<noteq> [] \<and> fst (add_note L (last ns) (add_all (add_note L) (butlast ns) s)) = Inr () \<longrightarrow>
      recovered_entries L dir p (add_all (add_note L) ns s) = Some (es @ unsaved @ map note_entry ns))"
proof -
  have held: "held_entries (add_all (add_note L) ns s) = es @ unsaved @ map note_entry ns"
    using chat_log.run_held [OF assms(1)] assms(3) by simp
  have "recovered_entries L dir p (add_all (add_note L) ns s) = Some (es @ unsaved @ map note_entry ns)"
    if saved: "fst (add_note L (last ns) (add_all (add_note L) (butlast ns) s)) = Inr ()" and "ns \<noteq> []"
  proof -
    obtain ms n where ns: "ns = ms @ [n]" using \<open>ns \<noteq> []\<close> by (metis append_butlast_last_id)
    from assms(1) have "note_fits L dir p n (add_all (add_note L) ms s)"
      by (simp add: ns fits_all_append)
    from chat_log.add_recovered [OF this] chat_log.add_held [OF this] saved held
    show ?thesis by (simp add: ns add_all_append)
  qed
  with held chat_log.run_recovered [OF assms] show ?thesis by blast
qed

definition demo_call :: "disk \<Rightarrow> log_call" where
  "demo_call d =
     \<lparr>n_peer = JStr ''bob'', n_direction = ''sent'', n_text = ''hi'', n_ts = ''1.5'', n_nonce = replicate 12 9, n_disk = d\<rparr>"

definition demo_history :: history where
  "demo_history =
     new_history (history_path ''d'' ''a'') ''a'' (demo_kdf (ascii ''pw'') (replicate 16 0) [] 32) (replicate 16 0) (JArr [])"

lemma demo_entry_ok: "wf_json (note_entry (demo_call d))"
proof -
  have "scan_number ''1.5'' = Inr (JFloat ''1.5'', [])" by code_simp
  then show ?thesis
    by (simp add: demo_call_def note_entry_def history_entry_def ascii_text_ok)
qed

lemma demo_entry_length: "length (dump None l (note_entry (demo_call d))) \<le> 10000"
  unfolding demo_call_def note_entry_def history_entry_def
  using quote_length [of "''ts''"] quote_length [of "''peer''"] quote_length [of "''direction''"] quote_length [of "''text''"]
    quote_length [of "''bob''"] quote_length [of "''sent''"] quote_length [of "''hi''"]
  by (simp add: new_line_def item_separator_def)

lemma demo_history_ok:
  assumes "length ds \<le> 2"
  shows "history_ok demo ''d'' ''pw'' (demo_history\<lparr>h_entries := JArr (map (\<lambda>d. note_entry (demo_call d)) ds)\<rparr>)"
proof -
  let ?es = "map (\<lambda>d. note_entry (demo_call d)) ds"
  have "length (join '', '' (map (dump None 1) ?es)) \<le> length (map (dump None 1) ?es) * 10002"
    using join_length [of "map (dump None 1) ?es" 10000] demo_entry_length by simp
  also have "\<dots> \<le> 2 * 10002" using assms by simp
  finally have "length (join '', '' (map (dump None 1) ?es)) \<le> 2 * 10002" .
  then have "length (dumps (JArr ?es)) < gcm_limit"
    by (simp add: dumps_def new_line_def item_separator_def gcm_limit_def)
  moreover have "wf_json (JArr ?es)"
    using demo_entry_ok by (simp add: list_all_iff)
  moreover have "utf8_ok ''a''" by (rule ascii_text_ok) simp
  moreover have "derive_key_from_passphrase demo ''pw'' (replicate 16 0) 32 = demo_kdf (ascii ''pw'') (replicate 16 0) [] 32"
    by (simp add: derive_key_from_passphrase_def demo_def)
  ultimately show ?thesis
    by (simp add: history_ok_def demo_history_def new_history_def gcm_limit_def SALT_SIZE_def)
qed

text \<open>The first addition fails before the rename, the second one succeeds.\<close>

lemma history_survives_crashes_witness:
  "recovered_entries demo ''d'' ''pw''
     (add_all (add_note demo) [demo_call Rename_Fails, demo_call Disk_Works] (demo_history, \<lambda>_. None)) =
   Some [note_entry (demo_call Rename_Fails), note_entry (demo_call Disk_Works)]"
proof -
  let ?s = "(demo_history, \<lambda>_ :: string. None :: bytes option)" and ?ns = "[demo_call Rename_Fails, demo_call Disk_Works]"
  let ?e = "\<lambda>d. note_entry (demo_call d)"
  have start: "demo_history = demo_history\<lparr>h_entries := JArr (map ?e [])\<rparr>"
    by (simp add: demo_history_def new_history_def)
  have one: "fst (snd (add_note demo (demo_call d) ?s)) = demo_history\<lparr>h_entries := JArr (map ?e [d])\<rparr>" for d
    by (simp add: add_note_def append_history_def demo_history_def new_history_def note_entry_def split_beta Let_def)
  have laws: "aead_laws demo" "scrypt_laws demo" "length (n_nonce (demo_call d)) = NONCE_SIZE" for d
    by (simp_all add: demo_aead demo_scrypt demo_call_def NONCE_SIZE_def)
  have none: "held_entries ?s = []"
    by (simp add: held_entries_def demo_history_def new_history_def list_of_def)
  have first: "note_fits demo ''d'' ''pw'' (demo_call Rename_Fails) ?s"
    using demo_history_ok [of "[]"] demo_history_ok [of "[Rename_Fails]"] start none laws
    by (simp add: note_fits_def)
  have second: "note_fits demo ''d'' ''pw'' (demo_call Disk_Works) (snd (add_note demo (demo_call Rename_Fails) ?s))"
    using demo_history_ok [of "[Rename_Fails]"] demo_history_ok [of "[Rename_Fails, Disk_Works]"] laws
    by (simp add: note_fits_def one held_entries_def list_of_def)
  have fits: "fits_all (add_note demo) (note_fits demo ''d'' ''pw'') ?ns ?s"
    using first second by simp
  have saved: "fst (add_note demo (demo_call Disk_Works) s) = Inr ()"
    if "fst s = demo_history\<lparr>h_entries := JArr es\<rparr>" for s es
  proof -
    have "utf8_ok ''a''" by (rule ascii_text_ok) simp
    with that show ?thesis
      by (simp add: add_note_def append_history_def save_history_def demo_history_def new_history_def encode_utf8_def
          aes_gcm_encrypt_def demo_def demo_seal_def demo_call_def Let_def)
  qed
  have empty: "recovered_entries demo ''d'' ''pw'' ?s = Some []"
    by (simp add: recovered_entries_def load_history_def truthy_def demo_history_def new_history_def list_of_def Let_def)
  from history_survives_crashes [OF fits empty, of "[]"] none saved [OF one]
  show ?thesis by simp
qed

section \<open>File transfers\<close>

definition demo_worker :: worker where
  "demo_worker = new_worker ''alice'' Connect (self alice) (store alice) (\<lambda>_. None)"

text \<open>
  C7: Whatever messages a peer sends to a worker that has no transfer open, and whatever the disk
  does: at most four transfers are open, every file that changed is a new one of the directory
  of received files (or the history), and every file reported as received is on the disk, was
  not there before, has the digest and at least the size of an offer that named it.
\<close>

theorem received_files_genuine:
  assumes "handle_plaintexts L R ps w = (res, w')" and "r_inbound w = []"
    and "\<forall>n s p. File_Received n s p \<notin> set (r_events w)" and "\<forall>q \<in> history_paths w. \<not> in_recv_dir q"
  shows "length (r_inbound w') \<le> MAX_CONCURRENT_INBOUND_TRANSFERS \<and>
    (\<forall>p. r_files w' p \<noteq> r_files w p \<longrightarrow> in_recv_dir p \<and> r_files w p = None \<or> p \<in> history_paths w) \<and>
    (\<forall>n s p. File_Received n s p \<in> set (r_events w') \<longrightarrow>
      (\<exists>h. delivered (r_files w) (offers_in R (snd ` set ps)) (r_files w') n s p h))"
proof -
  have "transfers_inv (r_files w) (r_files w) (history_paths w) (offers_in R (snd ` set ps)) w'"
    by (rule handle_plaintexts_inv(1) [OF transfers_inv_start [OF assms(2,3)] assms(1) subset_refl subset_refl assms(4)])
  note I = transfers_invD [OF this]
  have "in_recv_dir p \<and> r_files w p = None \<or> p \<in> history_paths w" if "r_files w' p \<noteq> r_files w p" for p
    using that I(3) [of p] I(4) [of p] by (metis option.exhaust)
  with I(5,6) show ?thesis by blast
qed

definition demo_luck :: luck where
  "demo_luck =
     \<lparr>l_io = \<lparr>mkdir_ok = True, open_ok = True, cut_write = None, close_ok = True, unlink_ok = True\<rparr>, l_ts = ''1.5'',
      l_nonce = [], l_disk = undefined\<rparr>"

definition demo_id :: bytes where
  "demo_id = replicate 16 7"

definition demo_frames :: "(luck \<times> bytes) list" where
  "demo_frames =
     [(demo_luck, encode_file_offer demo_id ''../notes'' 3 (hex (sha256 [1, 2, 3]))),
      (demo_luck, encode_file_chunk demo_id [1, 2]), (demo_luck, []), (demo_luck, encode_file_chunk demo_id [3])]"

lemma demo_worker_simps [simp]:
  "r_inbound demo_worker = []" "r_files demo_worker = (\<lambda>_. None)" "w_history demo_worker = None"
  "history_paths demo_worker = {}" "File_Received n s p \<notin> set (r_events demo_worker)"
  by (simp_all add: demo_worker_def new_worker_def history_paths_def)

lemma demo_offer: "parse_offer (\<lambda>_. []) (tl (encode_file_offer demo_id ''../notes'' 3 (hex (sha256 [1, 2, 3])))) =
    Inr (demo_id, ''../notes'', 3, hex (sha256 [1, 2, 3]))"
proof -
  have "utf8_ok ''../notes''" by (rule ascii_text_ok) simp
  moreover have "length (show_nat 3) \<le> int_max_str_digits"
    by (simp add: show_nat.simps int_max_str_digits_def)
  ultimately show ?thesis
    using parse_own_offer [of "''../notes''" 3 "\<lambda>_. []" demo_id "sha256 [1, 2, 3]"] by simp
qed

lemma demo_name: "os_name ''notes'' = Some ''notes''"
  by (rule os_name_ascii) simp

lemma demo_paths:
  "unique_dest_path (\<lambda>_. None) FILE_RECV_DIR ''../notes'' = Inr ''notes''" "os_name ''notes'' = Some ''notes''"
  "path_join FILE_RECV_DIR ''notes'' = ''received_files/notes''"
proof -
  show "os_name ''notes'' = Some ''notes''" by (rule demo_name)
  show "path_join FILE_RECV_DIR ''notes'' = ''received_files/notes''" by (simp add: path_join_def FILE_RECV_DIR_def)
  have "path_name ''../notes'' = ''notes''" by (simp add: path_name_def)
  then show "unique_dest_path (\<lambda>_. None) FILE_RECV_DIR ''../notes'' = Inr ''notes''"
    by (simp add: unique_dest_path_def path_exists_def demo_name NAME_MAX_def)
qed

lemma demo_run:
  "\<exists>w. handle_plaintexts demo (\<lambda>_. []) demo_frames demo_worker = (Inr (), w) \<and>
     File_Received ''../notes'' 3 ''received_files/notes'' \<in> set (r_events w)"
proof -
  let ?off = "(demo_id, ''../notes'', 3 :: int, hex (sha256 [1, 2, 3]))"
  let ?w1 = "emit_event (File_Offered ''../notes'' 3) (take_offer ?off ''notes'' ''received_files/notes'' demo_worker)"
  have "handle_file_offer (\<lambda>_. []) (l_io demo_luck) (tl (encode_file_offer demo_id ''../notes'' 3 (hex (sha256 [1, 2, 3])))) demo_worker = (Inr (), ?w1)"
    using handle_offer_taken [OF demo_offer, of demo_worker "l_io demo_luck" "''notes''" "''notes''"]
    by (simp add: demo_paths MAX_FILE_SIZE_def MAX_CONCURRENT_INBOUND_TRANSFERS_def demo_luck_def)
  then have 1: "handle_plaintext demo (\<lambda>_. []) demo_luck (encode_file_offer demo_id ''../notes'' 3 (hex (sha256 [1, 2, 3]))) demo_worker = (Inr (), ?w1)"
    by (simp add: handle_plaintext_def encode_file_offer_def)
  let ?t = "accepted_offer ?off ''notes'' ''received_files/notes''"
  have id: "length demo_id = 16" "cut_write (l_io demo_luck) = None" "close_ok (l_io demo_luck)"
    by (simp_all add: demo_id_def demo_luck_def)
  have m: "map_of (r_inbound ?w1) demo_id = Some ?t"
    by (simp add: take_offer_def AList.update_conv')
  let ?w2 = "add_chunk demo_id ?t [1, 2] ?w1"
  have 2: "handle_plaintext demo (\<lambda>_. []) demo_luck (encode_file_chunk demo_id [1, 2]) ?w1 = (Inr (), ?w2)"
    using handle_chunk_of [OF id(1) m id(2,3), of "[1, 2]" demo "\<lambda>_. []"] by (simp add: accepted_offer_def)
  obtain t2 where t2: "map_of (r_inbound ?w2) demo_id = Some t2" "t_size t2 = 3" "t_received t2 = 2" "t_digest t2 = [1, 2]"
    "t_sha256 t2 = hex (sha256 [1, 2, 3])" "t_name t2 = ''../notes''" "t_path t2 = ''received_files/notes''"
    by (auto simp: add_chunk_def Let_def AList.update_conv' accepted_offer_def demo_paths)
  let ?w3 = "emit_event (File_Received ''../notes'' 3 ''received_files/notes'') (forget demo_id (add_chunk demo_id t2 [3] ?w2))"
  have 3: "handle_plaintext demo (\<lambda>_. []) demo_luck (encode_file_chunk demo_id [3]) ?w2 = (Inr (), ?w3)"
    using handle_chunk_of [OF id(1) t2(1) id(2,3), of "[3]" demo "\<lambda>_. []"] by (simp add: t2)
  have 4: "handle_plaintext demo (\<lambda>_. []) demo_luck [] w = (Inr (), w)" for w
    by (simp add: handle_plaintext_def)
  show ?thesis
    by (rule exI [of _ ?w3]) (simp add: demo_frames_def and_next_def 1 2 3 4)
qed

lemma received_files_genuine_witness:
  "\<exists>w h. handle_plaintexts demo (\<lambda>_. []) demo_frames demo_worker = (Inr (), w) \<and>
     delivered (\<lambda>_. None) (offers_in (\<lambda>_. []) (snd ` set demo_frames)) (r_files w) ''../notes'' 3 ''received_files/notes'' h"
proof -
  obtain w where run: "handle_plaintexts demo (\<lambda>_. []) demo_frames demo_worker = (Inr (), w)"
    and news: "File_Received ''../notes'' 3 ''received_files/notes'' \<in> set (r_events w)"
    using demo_run by blast
  have "length (r_inbound w) \<le> MAX_CONCURRENT_INBOUND_TRANSFERS \<and>
    (\<forall>p. r_files w p \<noteq> r_files demo_worker p \<longrightarrow> in_recv_dir p \<and> r_files demo_worker p = None \<or> p \<in> history_paths demo_worker) \<and>
    (\<forall>n s p. File_Received n s p \<in> set (r_events w) \<longrightarrow>
      (\<exists>h. delivered (r_files demo_worker) (offers_in (\<lambda>_. []) (snd ` set demo_frames)) (r_files w) n s p h))"
    by (rule received_files_genuine [OF run]) simp_all
  with run news show ?thesis by auto
qed

text \<open>
  C8: A file that is offered and sent in chunks arrives, byte for byte, under the name reported,
  among any other messages, transfers included, if the disk works for the messages about it
  and nothing else uses its identifier.
\<close>

theorem file_transfer_roundtrip:
  assumes start: "r_inbound w0 = []" "\<forall>n s p. File_Received n s p \<notin> set (r_events w0)" "\<forall>q \<in> history_paths w0. \<not> in_recv_dir q"
    and before: "handle_plaintexts L R before w0 = (Inr (), w)" "length (r_inbound w) < MAX_CONCURRENT_INBOUND_TRANSFERS"
    and name: "utf8_ok name" "unique_dest_path (r_files w) FILE_RECV_DIR name = Inr dest" "os_name dest = Some q"
    and luck: "mkdir_ok (l_io l)" "open_ok (l_io l)" "smooth R fid after"
    and sizes: "content \<noteq> []" "int (length content) \<le> MAX_FILE_SIZE"
    and chunks: "concat cs = content" "[] \<notin> set cs" "length fid = 16"
      "filter (about R fid) (map snd after) = map (encode_file_chunk fid) cs"
    and run: "handle_plaintexts L R
      (before @ (l, encode_file_offer fid name (int (length content)) (hex (sha256 content))) # after) w0 = (Inr (), w')"
  shows "File_Received name (int (length content)) (path_join FILE_RECV_DIR dest) \<in> set (r_events w') \<and>
    r_files w' (path_join FILE_RECV_DIR q) = Some content"
proof -
  let ?off = "(fid, name, int (length content), hex (sha256 content))" and ?h = "path_join FILE_RECV_DIR q"
  let ?offer = "encode_file_offer fid name (int (length content)) (hex (sha256 content))"
  let ?w1 = "emit_event (File_Offered name (int (length content))) (take_offer ?off dest ?h w)"
  let ?offers = "offers_in R (snd ` set (before @ (l, ?offer) # after))"
  obtain body where offer: "?offer = MSG_FILE_OFFER # body" by (auto simp: encode_file_offer_def)
  have "length content < 10 ^ 9" using sizes(2) by (simp add: MAX_FILE_SIZE_def)
  then have "length (show_nat (length content)) \<le> int_max_str_digits"
    using show_nat_length [of "length content" 9] by (simp add: int_max_str_digits_def)
  from parse_own_offer [OF name(1) this, of R fid "sha256 content"] have parse: "parse_offer R body = Inr ?off"
    by (simp add: offer)
  have "handle_file_offer R (l_io l) body w = (Inr (), ?w1)"
    by (rule handle_offer_taken [OF parse _ sizes(2) before(2) luck(1,2) name(2,3)]) (use sizes(1) in simp)
  then have step: "handle_plaintext L R l ?offer w = (Inr (), ?w1)"
    by (simp add: offer handle_plaintext_def)
  have rest: "handle_plaintexts L R after ?w1 = (Inr (), w')"
    using run before(1) step by (simp add: handle_plaintexts_append and_next_def)
  have "transfers_inv (r_files w0) (r_files w0) (history_paths w0) ?offers w0"
    by (rule transfers_inv_mono [OF transfers_inv_start [OF start(1,2)]]) (rule subset_refl)
  have sub: "offers_in R (snd ` set before) \<subseteq> ?offers" "offers_in R (snd ` set after) \<subseteq> ?offers" "?off \<in> ?offers"
    using parse offer by (auto simp: offers_in_def)
  note inv = handle_plaintexts_inv [OF \<open>transfers_inv _ _ _ ?offers w0\<close> before(1) sub(1) subset_refl start(3)]
  have inv1: "transfers_inv (r_files w0) (r_files w0) (history_paths w0) ?offers ?w1"
    by (rule transfers_inv_emit [OF take_offer_inv [OF inv(1) sub(3) name(2,3) before(2)]]) (simp add: no_news_def)
  have entry: "map_of (r_inbound ?w1) fid = Some (accepted_offer ?off dest ?h)"
    by (simp add: take_offer_def AList.update_conv')
  have paths: "history_paths ?w1 \<subseteq> history_paths w0"
    using inv(2) by (simp add: history_paths_def emit_event_def take_offer_def)
  have "cs \<noteq> []" using chunks(1) sizes(1) by auto
  from chunks_delivered [OF inv1 entry rest chunks(4) this chunks(2) _ _ _ luck(3) sub(2) paths chunks(3) start(3)] chunks(1)
  show ?thesis by (simp add: accepted_offer_def)
qed

lemma file_transfer_roundtrip_witness:
  "\<exists>w. handle_plaintexts demo (\<lambda>_. []) demo_frames demo_worker = (Inr (), w) \<and>
     r_files w ''received_files/notes'' = Some [1, 2, 3]"
proof -
  obtain w where run: "handle_plaintexts demo (\<lambda>_. []) demo_frames demo_worker = (Inr (), w)"
    using demo_run by blast
  let ?after = "[(demo_luck, encode_file_chunk demo_id [1, 2]), (demo_luck, []), (demo_luck, encode_file_chunk demo_id [3])]"
  have a: "about (\<lambda>_. []) demo_id (encode_file_chunk demo_id c)" "\<not> about (\<lambda>_. []) demo_id []" for c
    by (simp_all add: about_def encode_file_chunk_def demo_id_def)
  have f: "filter (about (\<lambda>_. []) demo_id) (map snd ?after) = map (encode_file_chunk demo_id) [[1, 2], [3]]"
    by (simp add: a)
  have s: "smooth (\<lambda>_. []) demo_id ?after" by (simp add: smooth_def demo_luck_def)
  have "utf8_ok ''../notes''" by (rule ascii_text_ok) simp
  from file_transfer_roundtrip [where ?w0.0 = demo_worker and before = "[]" and L = demo and R = "\<lambda>_. []" and w = demo_worker
      and name = "''../notes''" and dest = "''notes''" and q = "''notes''" and l = demo_luck and fid = demo_id and after = ?after
      and content = "[1, 2, 3]" and cs = "[[1, 2], [3]]" and w' = w, OF _ _ _ _ _ this _ demo_paths(2) _ _ s _ _ _ _ _ f] run
  show ?thesis
    by (simp add: demo_paths demo_frames_def demo_luck_def demo_id_def MAX_FILE_SIZE_def MAX_CONCURRENT_INBOUND_TRANSFERS_def)
qed

section \<open>The loop of connections\<close>

definition refused_pass :: "pass \<Rightarrow> bool" where
  "refused_pass p \<longleftrightarrow> c_sock (p_attempt p) = None \<and> \<not> p_stopped p \<and> \<not> p_stopped_waiting p"

definition retry_news :: "nat \<Rightarrow> ui_event list" where
  "retry_news i = [Status ''Connecting'', Reconnecting (min (2 ^ i) 30) (i + 1)]"

lemma refused_pass_step:
  assumes "w_role w = Connect" and "refused_pass p"
  shows "run_loop L R (p # ps) w =
    (if w_attempt w \<ge> 1024 then (Inl OverflowError, (emit_event (Status ''Connecting'') w)\<lparr>w_attempt := w_attempt w + 1\<rparr>)
     else run_loop L R ps (w\<lparr>w_attempt := w_attempt w + 1, r_events := r_events w @ retry_news (w_attempt w)\<rparr>))"
  using assms
  by (simp add: establish_def run_connect_def refused_pass_def network_error_def reconnect_wait_def
      compute_backoff_delay_def emit_event_def retry_news_def RECONNECT_MAX_DELAY_def)

text \<open>
  C36: A peer that cannot be reached is tried again after 1, 2, 4, 8, 16 and then 30 seconds each
  time; at the 1025th attempt the computation of the delay overflows, and the worker ends with
  an exception that nothing reports.
\<close>

theorem unreachable_peer:
  assumes "w_role w = Connect" and "\<forall>p \<in> set ps. refused_pass p" and "w_attempt w \<le> 1024"
  shows "(w_attempt w + length ps \<le> 1024 \<longrightarrow>
      run_loop L R ps w = (Inr (), w\<lparr>w_attempt := w_attempt w + length ps,
        r_events := r_events w @ concat (map retry_news [w_attempt w ..< w_attempt w + length ps])\<rparr>)) \<and>
    (1024 < w_attempt w + length ps \<longrightarrow> fst (run_loop L R ps w) = Inl OverflowError)"
  using assms
proof (induction ps arbitrary: w)
  case Nil
  then show ?case by simp
next
  case (Cons p ps)
  let ?a = "w_attempt w"
  let ?w = "w\<lparr>w_attempt := ?a + 1, r_events := r_events w @ retry_news ?a\<rparr>"
  have step: "run_loop L R (p # ps) w =
      (if ?a \<ge> 1024 then (Inl OverflowError, (emit_event (Status ''Connecting'') w)\<lparr>w_attempt := ?a + 1\<rparr>)
       else run_loop L R ps ?w)"
    using Cons.prems by (intro refused_pass_step) simp_all
  show ?case
  proof (cases "?a \<ge> 1024")
    case True
    with step Cons.prems show ?thesis by simp
  next
    case False
    have "[?a ..< ?a + length (p # ps)] = ?a # [Suc ?a ..< Suc ?a + length ps]"
      by (simp add: upt_rec del: upt_Suc)
    with Cons.IH [of ?w] Cons.prems False step show ?thesis
      by (simp del: run_loop.simps upt_Suc)
  qed
qed

definition demo_refused :: pass where
  "demo_refused =
     \<lparr>p_bound = True, p_rows = new_sqlite_limiter 5 60 30, p_arrivals = [],
      p_attempt = \<lparr>c_sock = None, c_trusts = False, c_eph = [], c_joined = 0\<rparr>, p_lucks = [], p_kept = (\<lambda>_. False),
      p_stopped = False, p_stopped_waiting = False\<rparr>"

lemma unreachable_peer_witness:
  "r_events (snd (run_loop demo (\<lambda>_. []) (replicate 6 demo_refused) demo_worker)) =
     r_events demo_worker @ concat (map (\<lambda>(d, n). [Status ''Connecting'', Reconnecting d n])
       [(1, 1), (2, 2), (4, 3), (8, 4), (16, 5), (30, 6)]) \<and>
   fst (run_loop demo (\<lambda>_. []) (replicate 1025 demo_refused) demo_worker) = Inl OverflowError"
proof -
  have h: "w_role demo_worker = Connect" "\<forall>p \<in> set (replicate n demo_refused). refused_pass p" "w_attempt demo_worker = 0" for n
    by (auto simp: demo_worker_def new_worker_def refused_pass_def demo_refused_def)
  have six: "[0..<6] = [0, 1, 2, 3, 4, 5 :: nat]" by (simp add: upt_rec)
  show ?thesis
    using unreachable_peer [OF h(1,2) order.trans [OF eq_refl [OF h(3)]], of 6 demo "\<lambda>_. []"]
      unreachable_peer [OF h(1,2) order.trans [OF eq_refl [OF h(3)]], of 1025 demo "\<lambda>_. []"]
    by (simp add: h(3) six retry_news_def del: run_loop.simps replicate.simps upt_Suc)
qed

section \<open>The log\<close>

text \<open>
  C14: Nobody forges a line of the audit log. Read line by line, the log is the records that
  were logged, one line each, whatever texts of a peer they contain; and a line reads back as
  JSON with the event's identifier, the message, the level and the context of its record.
\<close>

theorem audit_log_lines:
  assumes "\<forall>r \<in> set rs. plain_floats (record_payload r)"
    and "wf_json (record_payload (security_record F time msg ev))"
  shows "lines_of (log_text rs) = map format_record rs \<and>
    bind_exn (loads (format_record (security_record F time msg ev))) (json_get ''event'') = Inr (JStr (event_value (code ev))) \<and>
    bind_exn (loads (format_record (security_record F time msg ev))) (json_get ''msg'') = Inr (JStr msg) \<and>
    bind_exn (loads (format_record (security_record F time msg ev))) (json_get ''level'') = Inr (JStr ''SECURITY'') \<and>
    (details ev \<noteq> [] \<longrightarrow>
      bind_exn (loads (format_record (security_record F time msg ev))) (json_get ''context'') =
        Inr (sort_keys (JObj (map (\<lambda>(k, v). (k, context_json F v)) (details ev)))))"
  using lines_of_log [OF assms(1)] record_fields [OF assms(2)] by (simp add: security_record_def)

text \<open>A peer whose name tries to look like a record of its own.\<close>

definition demo_record :: log_record where
  "demo_record = security_record (\<lambda>_. ''0.5'') ''2024-01-01T00:00:00Z'' ''key mismatch''
     (Event IDENTITY_MISMATCH [(''peer_name'', CStr (''eve'' @ CHR 0x0A # ''{'' @ CHR 0x22 # ''event'' @ [CHR 0x22]))])"

lemma audit_log_lines_witness:
  "lines_of (log_text [demo_record, demo_record]) = [format_record demo_record, format_record demo_record] \<and>
   bind_exn (loads (format_record demo_record)) (json_get ''event'') = Inr (JStr ''identity_mismatch'')"
proof -
  have "\<forall>r \<in> set [demo_record, demo_record]. plain_floats (record_payload r)"
    by (simp add: demo_record_def security_record_def record_payload_def)
  moreover have "wf_json (record_payload demo_record)"
    by (simp add: demo_record_def security_record_def record_payload_def ascii_text_ok)
  ultimately show ?thesis
    using audit_log_lines [of "[demo_record, demo_record]"] unfolding demo_record_def
    by (simp only: list.map event_value.simps event.sel)
qed

end
