(* ===== verification/App.thy ===== *)
theory App
  imports Peer_Worker
begin

text \<open>
  \<open>SecureCommsApp\<close> of \<open>gui.py\<close>: the window's books of the worker that is starting, of the tabs
  and of what is still unread, the actions of the human, and the events of the workers. The
  widgets are left out, but what they are told is kept, by content and not by wording. The
  window owns its workers by name only: what it reads from a running worker, and what the
  human answers, are arguments.
\<close>

section \<open>The books\<close>

text \<open>\<open>PeerWorker(...)\<close>, as far as the window knows it.\<close>

record peer_handle =
  s_id :: string
  s_name :: string
  s_role :: role
  s_host :: string
  s_port :: int
  s_passphrase :: "string option"
  s_saving :: bool

datatype tag = Me | Peer | System | Alert_Tag

datatype log_text = Of_Event ui_event | Chat string | Previous_Conversation | New_Session | Secured

text \<open>A line of a tab's log: label and time stamp as they are given to \<open>_log\<close>.\<close>

record log_line =
  ln_text :: log_text
  ln_tag :: tag
  ln_label :: "json option"
  ln_time :: "string option"

text \<open>The bar's text: the label, the percentage, what is done and the total.\<close>

record progress_bar =
  b_mapped :: bool
  b_value :: nat
  b_text :: "(string \<times> nat \<times> string \<times> string) option"

record tab =
  t_worker :: peer_handle
  t_shown :: bool
  t_unread :: nat
  t_title :: "json \<times> nat"
  t_header :: "json option"
  t_log :: "log_line list"
  t_input :: bool
  t_bar :: progress_bar
  t_msg :: string

datatype status_line = Enter_Name | Starting | Ready_For_Another | Told ui_event

datatype dialog = Invalid_Port | Missing_Name | Passphrase_Required | Error_Dialog ui_event

datatype app_event = Of_Worker ui_event | Focus_Requested

record form =
  f_name :: string
  f_host :: string
  f_port :: string
  f_passphrase :: string
  f_save :: bool
  f_save_enabled :: bool

text \<open>
  \<open>a_started\<close>, \<open>a_stopped\<close>, \<open>a_sent\<close>, \<open>a_answers\<close>: the calls of \<open>start\<close>, \<open>stop\<close> and \<open>send_file\<close> on
  workers and the answers given to them, in order. A selection of \<open>None\<close> is the permanent tab.
\<close>

record app =
  a_form :: form
  a_buttons :: bool
  a_status :: status_line
  a_fingerprint :: "(string \<times> string) option"
  a_pending :: "peer_handle option"
  a_sessions :: "(string, tab) dict"
  a_queue :: "(string \<times> app_event) list"
  a_polling :: bool
  a_focused :: bool
  a_unread :: nat
  a_title :: "nat option"
  a_selected :: "string option"
  a_cursor :: "string option"
  a_raised :: nat
  a_bells :: nat
  a_notified :: "(json \<times> string) list"
  a_dialogs :: "dialog list"
  a_started :: "peer_handle list"
  a_stopped :: "string list"
  a_sent :: "(string \<times> string) list"
  a_answers :: "(string \<times> bool) list"
  a_open :: bool

definition new_app :: app where
  "new_app =
     \<lparr>a_form = \<lparr>f_name = ''alice'', f_host = ''127.0.0.1'', f_port = ''8000'', f_passphrase = '''', f_save = False,
        f_save_enabled = False\<rparr>,
      a_buttons = True, a_status = Enter_Name, a_fingerprint = None, a_pending = None, a_sessions = [], a_queue = [],
      a_polling = True, a_focused = True, a_unread = 0, a_title = None, a_selected = None, a_cursor = None, a_raised = 0,
      a_bells = 0, a_notified = [], a_dialogs = [], a_started = [], a_stopped = [], a_sent = [], a_answers = [],
      a_open = True\<rparr>"

text \<open>\<open>_build_session_tab\<close>: empty, with the input enabled as widgets are.\<close>

definition new_tab :: "peer_handle \<Rightarrow> json \<Rightarrow> tab" where
  "new_tab w peer =
     \<lparr>t_worker = w, t_shown = False, t_unread = 0, t_title = (peer, 0), t_header = None, t_log = [], t_input = True,
      t_bar = \<lparr>b_mapped = False, b_value = 0, b_text = None\<rparr>, t_msg = ''''\<rparr>"

definition on_tab :: "string \<Rightarrow> (tab \<Rightarrow> tab) \<Rightarrow> app \<Rightarrow> app" where
  "on_tab sid f a = a\<lparr>a_sessions := AList.map_entry sid f (a_sessions a)\<rparr>"

text \<open>A line that is added now has no time stamp of its own.\<close>

definition log_line :: "log_text \<Rightarrow> tag \<Rightarrow> json option \<Rightarrow> string option \<Rightarrow> tab \<Rightarrow> tab" where
  "log_line txt tg label at_time t =
     t\<lparr>t_log := t_log t @ [\<lparr>ln_text = txt, ln_tag = tg, ln_label = label, ln_time = at_time\<rparr>]\<rparr>"

section \<open>Actions\<close>

text \<open>\<open>_on_passphrase_changed\<close>, called on every change of the field.\<close>

definition type_passphrase :: "string \<Rightarrow> app \<Rightarrow> app" where
  "type_passphrase p a =
     (let f = (a_form a)\<lparr>f_passphrase := p\<rparr>
      in a\<lparr>a_form := (if p \<noteq> '''' then f\<lparr>f_save_enabled := True\<rparr> else f\<lparr>f_save := False, f_save_enabled := False\<rparr>)\<rparr>)"

text \<open>The other fields; the box is ticked only while it is enabled.\<close>

definition fill_form :: "string \<Rightarrow> string \<Rightarrow> string \<Rightarrow> bool \<Rightarrow> app \<Rightarrow> app" where
  "fill_form name host port save a =
     a\<lparr>a_form := (a_form a)\<lparr>f_name := name, f_host := host, f_port := port,
        f_save := (if f_save_enabled (a_form a) then save else f_save (a_form a))\<rparr>\<rparr>"

definition show_dialog :: "dialog \<Rightarrow> app \<Rightarrow> app" where
  "show_dialog d a = a\<lparr>a_dialogs := a_dialogs a @ [d]\<rparr>"

definition start_clicked :: "role \<Rightarrow> string \<Rightarrow> app \<Rightarrow> app" where
  "start_clicked role fresh_id a =
     (if a_pending a \<noteq> None then a
      else let f = a_form a; name = strip (f_name f); host = strip (f_host f)
      in case int_of_text (strip (f_port f)) of
        Inl _ \<Rightarrow> show_dialog Invalid_Port a
      | Inr port \<Rightarrow>
          if name = '''' then show_dialog Missing_Name a
          else if f_save f \<and> f_passphrase f = '''' then show_dialog Passphrase_Required a
          else let w = \<lparr>s_id = fresh_id, s_name = name, s_role = role, s_host = host, s_port = port,
                        s_passphrase = truthy (Some (f_passphrase f)), s_saving = f_save f\<rparr>
          in a\<lparr>a_buttons := False, a_status := Starting, a_pending := Some w, a_started := a_started a @ [w]\<rparr>)"

text \<open>
  \<open>_send\<close>: \<open>online\<close> says whether the worker has a channel, \<open>outcome\<close> how its \<open>send\<close> ends; an
  exception leaves the text in the field.
\<close>

definition send_clicked :: "bool \<Rightarrow> exn + unit \<Rightarrow> string \<Rightarrow> (app, unit) stepper" where
  "send_clicked online outcome sid a =
     (case map_of (a_sessions a) sid of
        None \<Rightarrow> (Inr (), a)
      | Some t \<Rightarrow>
          if t_msg t = '''' \<or> \<not> online then (Inr (), a)
          else case outcome of
            Inl e \<Rightarrow> (Inl e, a)
          | Inr _ \<Rightarrow>
              (Inr (), on_tab sid (\<lambda>t. (log_line (Chat (t_msg t)) Me (Some (JStr (s_name (t_worker t)))) None t)\<lparr>t_msg := ''''\<rparr>) a))"

definition type_message :: "string \<Rightarrow> string \<Rightarrow> app \<Rightarrow> app" where
  "type_message sid txt a = on_tab sid (\<lambda>t. t\<lparr>t_msg := txt\<rparr>) a"

definition send_file_clicked :: "bool \<Rightarrow> string \<Rightarrow> string \<Rightarrow> app \<Rightarrow> app" where
  "send_file_clicked online path sid a =
     (if map_of (a_sessions a) sid = None \<or> \<not> online \<or> path = '''' then a
      else a\<lparr>a_sent := a_sent a @ [(sid, path)]\<rparr>)"

text \<open>\<open>_disconnect_session\<close>: Tk selects another tab if the selected one is destroyed.\<close>

definition disconnect_session :: "string option \<Rightarrow> string \<Rightarrow> app \<Rightarrow> app" where
  "disconnect_session other sid a =
     (case map_of (a_sessions a) sid of
        None \<Rightarrow> a
      | Some t \<Rightarrow>
          a\<lparr>a_sessions := AList.delete sid (a_sessions a), a_stopped := a_stopped a @ [s_id (t_worker t)],
            a_selected := (if a_selected a = Some sid then other else a_selected a)\<rparr>)"

definition close_window :: "app \<Rightarrow> app" where
  "close_window a =
     a\<lparr>a_stopped := a_stopped a @ (case a_pending a of None \<Rightarrow> [] | Some w \<Rightarrow> [s_id w]) @
          map (\<lambda>(_, t). s_id (t_worker t)) (a_sessions a),
       a_open := False\<rparr>"

section \<open>Tabs\<close>

definition worker_for :: "string \<Rightarrow> app \<Rightarrow> peer_handle option" where
  "worker_for sid a =
     (case map_of (a_sessions a) sid of
        Some t \<Rightarrow> Some (t_worker t)
      | None \<Rightarrow> (case a_pending a of Some w \<Rightarrow> if s_id w = sid then Some w else None | None \<Rightarrow> None))"

text \<open>\<open>_ensure_session_tab\<close>; \<open>peer\<close> is the worker's \<open>peer_name\<close>.\<close>

definition ensure_session_tab :: "json \<Rightarrow> string \<Rightarrow> app \<Rightarrow> bool \<times> app" where
  "ensure_session_tab peer sid a =
     (if map_of (a_sessions a) sid \<noteq> None then (True, a)
      else case worker_for sid a of
        None \<Rightarrow> (False, a)
      | Some w \<Rightarrow>
          let a1 = a\<lparr>a_sessions := AList.update sid (new_tab w peer) (a_sessions a), a_selected := Some sid\<rparr>
          in (True,
              if a_pending a1 = Some w
              then a1\<lparr>a_pending := None, a_buttons := True, a_status := Ready_For_Another, a_fingerprint := None\<rparr>
              else a1))"

definition update_tab_title :: "json \<Rightarrow> string \<Rightarrow> app \<Rightarrow> app" where
  "update_tab_title peer sid a = on_tab sid (\<lambda>t. t\<lparr>t_title := (peer, t_unread t)\<rparr>) a"

text \<open>The human chooses a tab, and then Tk tells so.\<close>

definition choose_tab :: "string option \<Rightarrow> app \<Rightarrow> app" where
  "choose_tab sel a = (if sel = None \<or> map_of (a_sessions a) (the sel) \<noteq> None then a\<lparr>a_selected := sel\<rparr> else a)"

definition on_tab_changed :: "json \<Rightarrow> app \<Rightarrow> app" where
  "on_tab_changed peer a =
     (case a_selected a of
        None \<Rightarrow> a
      | Some sid \<Rightarrow> on_tab sid (\<lambda>t. if t_unread t \<noteq> 0 then t\<lparr>t_unread := 0, t_title := (peer, 0)\<rparr> else t) a)"

definition on_focus_in :: "app \<Rightarrow> app" where
  "on_focus_in a = a\<lparr>a_focused := True, a_unread := 0, a_title := None\<rparr>"

definition on_focus_out :: "app \<Rightarrow> app" where
  "on_focus_out a = a\<lparr>a_focused := False\<rparr>"

section \<open>Events\<close>

text \<open>A fraction rounded to a float, as a fraction again (no overflow, no underflow).\<close>

definition to_float :: "nat \<Rightarrow> nat \<Rightarrow> nat \<times> nat" where
  "to_float n d =
     (if n = 0 then (0, 1)
      else let b = bit_length n; c = bit_length d
      in if b < c + 53 then
           (let k = c + 53 - b; k1 = (if bit_length (n * 2 ^ k div d) > 53 then k - 1 else k)
            in (round_even (n * 2 ^ k1) d, 2 ^ k1))
         else
           (let j = b - c - 53; j1 = (if bit_length (n div (d * 2 ^ j)) > 53 then j + 1 else j)
            in (round_even n (d * 2 ^ j1) * 2 ^ j1, 1)))"

text \<open>\<open>int(done / total * 100)\<close>: two operations on floats, then truncation.\<close>

definition percentage :: "nat \<Rightarrow> nat \<Rightarrow> nat" where
  "percentage amount whole =
     (if whole = 0 then 100
      else let (m, e) = to_float amount whole; (p, q) = to_float (100 * m) e in p div q)"

definition update_transfer_bar :: "string \<Rightarrow> string \<Rightarrow> nat \<Rightarrow> nat \<Rightarrow> (app, unit) stepper" where
  "update_transfer_bar sid label amount whole a =
     (let percent = percentage amount whole;
          a1 = on_tab sid (\<lambda>t. t\<lparr>t_bar := (t_bar t)\<lparr>b_mapped := True, b_value := percent\<rparr>\<rparr>) a
      in case bind_exn (human_size amount) (\<lambda>x. bind_exn (human_size whole) (\<lambda>y. Inr (x, y))) of
        Inl e \<Rightarrow> (Inl e, a1)
      | Inr (x, y) \<Rightarrow> (Inr (), on_tab sid (\<lambda>t. t\<lparr>t_bar := (t_bar t)\<lparr>b_text := Some (label, percent, x, y)\<rparr>\<rparr>) a1))"

definition hide_transfer_bar :: "tab \<Rightarrow> tab" where
  "hide_transfer_bar t = t\<lparr>t_bar := (t_bar t)\<lparr>b_mapped := False\<rparr>\<rparr>"

definition set_chat_input_enabled :: "bool \<Rightarrow> tab \<Rightarrow> tab" where
  "set_chat_input_enabled b t = t\<lparr>t_input := b\<rparr>"

text \<open>The first 80 characters, or 77 and three dots.\<close>

definition preview :: "string \<Rightarrow> string" where
  "preview txt =
     (case code_points txt of
        None \<Rightarrow> txt
      | Some ns \<Rightarrow> if length ns \<le> 80 then txt else text_of (take 77 ns) @ ''...'')"

definition notify_incoming :: "json \<Rightarrow> string \<Rightarrow> json \<Rightarrow> string \<Rightarrow> app \<Rightarrow> app" where
  "notify_incoming peer sid sender txt a =
     (let a1 = a\<lparr>a_bells := a_bells a + 1\<rparr>;
          a2 = (if a_selected a = Some sid then a1
                else update_tab_title peer sid (on_tab sid (\<lambda>t. t\<lparr>t_unread := t_unread t + 1\<rparr>) a1))
      in if a_focused a2 then a2
         else a2\<lparr>a_unread := a_unread a2 + 1, a_title := Some (a_unread a2 + 1),
                 a_notified := a_notified a2 @ [(sender, preview txt)]\<rparr>)"

text \<open>
  One entry of the history: whether it was sent, its text and its time, which \<open>R\<close> renders
  (\<open>datetime.fromtimestamp\<close> and \<open>strftime\<close>, in the local time zone); no time is the present.
\<close>

definition read_entry :: "(json \<Rightarrow> exn + string) \<Rightarrow> json \<Rightarrow> exn + bool \<times> string \<times> string option" where
  "read_entry R e =
     bind_exn (json_get ''direction'' e) (\<lambda>d.
     bind_exn (json_get ''text'' e) (\<lambda>txt.
     bind_exn (json_get ''ts'' e) (\<lambda>ts.
     bind_exn (if ts = JNull then Inr None else map_sum id Some (R ts)) (\<lambda>at_time.
     case txt of JStr s \<Rightarrow> Inr (d = JStr ''sent'', s, at_time) | _ \<Rightarrow> Inl TypeError))))"

fun replay_entries :: "(json \<Rightarrow> exn + string) \<Rightarrow> json \<Rightarrow> string \<Rightarrow> json list \<Rightarrow> (app, unit) stepper" where
  "replay_entries R peer sid [] a = (Inr (), a)"
| "replay_entries R peer sid (e # es) a =
     (case read_entry R e of
        Inl x \<Rightarrow> (Inl x, a)
      | Inr (sent, txt, at_time) \<Rightarrow>
          replay_entries R peer sid es
            (on_tab sid (\<lambda>t. log_line (Chat txt) (if sent then Me else Peer)
               (Some (if sent then JStr (s_name (t_worker t)) else peer)) at_time t) a))"

text \<open>An event for a tab, or for the worker that is starting, or for nobody.\<close>

definition is_pending :: "string \<Rightarrow> app \<Rightarrow> bool" where
  "is_pending sid a \<longleftrightarrow> (case a_pending a of Some w \<Rightarrow> s_id w = sid | None \<Rightarrow> False)"

definition tell :: "ui_event \<Rightarrow> tag \<Rightarrow> (app \<Rightarrow> app) \<Rightarrow> string \<Rightarrow> app \<Rightarrow> app" where
  "tell ev tg while_starting sid a =
     (if map_of (a_sessions a) sid \<noteq> None then on_tab sid (log_line (Of_Event ev) tg None None) a
      else if is_pending sid a then while_starting (a\<lparr>a_status := Told ev\<rparr>)
      else a)"

text \<open>What the window reads of the worker's \<open>peer_name\<close>, and the human's answer, while it handles an event.\<close>

record outside =
  o_peer :: json
  o_trusts :: bool

definition handshake_done :: "json \<Rightarrow> string \<Rightarrow> app \<Rightarrow> app" where
  "handshake_done peer sid a =
     (case ensure_session_tab peer sid a of
        (False, a1) \<Rightarrow> a1
      | (True, a1) \<Rightarrow>
          let a2 = update_tab_title peer sid (on_tab sid (\<lambda>t. t\<lparr>t_shown := True\<rparr>) a1);
              a3 = on_tab sid (\<lambda>t. set_chat_input_enabled True (log_line Secured System None None (t\<lparr>t_header := Some peer\<rparr>))) a2
          in if a_selected a3 = Some sid then a3\<lparr>a_cursor := Some sid\<rparr> else a3)"

definition history_loaded ::
    "(json \<Rightarrow> exn + string) \<Rightarrow> json \<Rightarrow> string \<Rightarrow> json list \<Rightarrow> (app, unit) stepper" where
  "history_loaded R peer sid es a =
     (case ensure_session_tab peer sid a of
        (False, a1) \<Rightarrow> (Inr (), a1)
      | (True, a1) \<Rightarrow>
          if es = [] then (Inr (), a1)
          else and_next (replay_entries R peer sid es)
                 (\<lambda>_ a. (Inr (), on_tab sid (log_line New_Session System None None) a))
                 (on_tab sid (log_line Previous_Conversation System None None) a1))"

definition sized_line :: "nat \<Rightarrow> ui_event \<Rightarrow> string \<Rightarrow> (app, unit) stepper" where
  "sized_line n ev sid a =
     (case human_size n of
        Inl e \<Rightarrow> (Inl e, a)
      | Inr _ \<Rightarrow> (Inr (), on_tab sid (log_line (Of_Event ev) System None None) a))"

definition file_event :: "ui_event \<Rightarrow> string \<Rightarrow> (app, unit) stepper" where
  "file_event ev sid a =
     (let hidden = on_tab sid hide_transfer_bar a
      in case ev of
        File_Offered name len \<Rightarrow> sized_line (nat len) ev sid a
      | File_Progress name n whole \<Rightarrow> update_transfer_bar sid (''Receiving '' @ name) n (nat whole) a
      | File_Received name len path \<Rightarrow> sized_line (nat len) ev sid hidden
      | Sending_Progress name n whole \<Rightarrow> update_transfer_bar sid (''Sending '' @ name) n whole a
      | File_Sent name n \<Rightarrow> sized_line n ev sid hidden
      | Send_Failed name \<Rightarrow> (Inr (), on_tab sid (log_line (Of_Event ev) Alert_Tag None None) hidden)
      | _ \<Rightarrow> (Inr (), a))"

definition worker_event ::
    "(json \<Rightarrow> exn + string) \<Rightarrow> outside \<Rightarrow> string \<Rightarrow> ui_event \<Rightarrow> (app, unit) stepper" where
  "worker_event R env sid ev a =
     (case ev of
        Identity_Loaded fp \<Rightarrow>
          (case fingerprint_to_words fp of
             Inl e \<Rightarrow> (Inl e, a) | Inr words \<Rightarrow> (Inr (), a\<lparr>a_fingerprint := Some (fp, words)\<rparr>))
      | Trust_Prompt name fp \<Rightarrow>
          (case fingerprint_to_words fp of
             Inl e \<Rightarrow> (Inl e, a) | Inr _ \<Rightarrow> (Inr (), a\<lparr>a_answers := a_answers a @ [(sid, o_trusts env)]\<rparr>))
      | Connection_Lost \<Rightarrow> (Inr (), on_tab sid (hide_transfer_bar \<circ> set_chat_input_enabled False) a)
      | Ui_Error e \<Rightarrow>
          (Inr (), tell ev Alert_Tag (\<lambda>a. show_dialog (Error_Dialog ev) (a\<lparr>a_pending := None, a_buttons := True\<rparr>)) sid a)
      | Security_Alert _ \<Rightarrow> (Inr (), tell ev Alert_Tag id sid a)
      | History_Loaded es \<Rightarrow> history_loaded R (o_peer env) sid es a
      | Handshake_Done \<Rightarrow> (Inr (), handshake_done (o_peer env) sid a)
      | Text_Message sender txt \<Rightarrow>
          (Inr (), if map_of (a_sessions a) sid = None then a
            else notify_incoming (o_peer env) sid sender txt (on_tab sid (log_line (Chat txt) Peer (Some sender) None) a))
      | Status _ \<Rightarrow> (Inr (), tell ev System id sid a)
      | Pinned _ _ \<Rightarrow> (Inr (), tell ev System id sid a)
      | Rate_Limited _ \<Rightarrow> (Inr (), tell ev System id sid a)
      | Handshake_Refused _ \<Rightarrow> (Inr (), tell ev System id sid a)
      | Reconnecting _ _ \<Rightarrow> (Inr (), tell ev System id sid a)
      | History_Disabled \<Rightarrow> (Inr (), tell ev System id sid a)
      | _ \<Rightarrow> if map_of (a_sessions a) sid = None then (Inr (), a) else file_event ev sid a)"

definition handle_event :: "(json \<Rightarrow> exn + string) \<Rightarrow> outside \<Rightarrow> string \<Rightarrow> app_event \<Rightarrow> (app, unit) stepper" where
  "handle_event R env sid ev a =
     (case ev of
        Of_Worker u \<Rightarrow> worker_event R env sid u a
      | Focus_Requested \<Rightarrow>
          (Inr (), if map_of (a_sessions a) sid = None then a
            else a\<lparr>a_selected := Some sid, a_raised := a_raised a + 1\<rparr>))"

text \<open>
  \<open>_poll_events\<close>: everything in the queue; \<open>out n\<close> is what is outside when \<open>n\<close> events are left. An
  exception leaves the method before it schedules itself again.
\<close>

fun handle_all :: "(json \<Rightarrow> exn + string) \<Rightarrow> (nat \<Rightarrow> outside) \<Rightarrow> (string \<times> app_event) list \<Rightarrow> (app, unit) stepper" where
  "handle_all R out [] a = (Inr (), a)"
| "handle_all R out ((sid, ev) # rest) a =
     and_next (handle_event R (out (length rest)) sid ev) (\<lambda>_. handle_all R out rest) (a\<lparr>a_queue := rest\<rparr>)"

definition poll_events :: "(json \<Rightarrow> exn + string) \<Rightarrow> (nat \<Rightarrow> outside) \<Rightarrow> (app, unit) stepper" where
  "poll_events R out a =
     (let (r, a1) = handle_all R out (a_queue a) a
      in (r, if r = Inr () then a1 else a1\<lparr>a_polling := False\<rparr>))"

section \<open>A run of the window\<close>

datatype ui_call = Fill string string string bool | Type_Passphrase string | Click role string | Type_Message string string
  | Send bool "exn + unit" string | Send_File bool string string | Disconnect "string option" string
  | Choose "string option" | Tab_Changed json | Focus_In | Focus_Out | Emitted string app_event
  | Poll "nat \<Rightarrow> outside" | Close

definition ui_step :: "(json \<Rightarrow> exn + string) \<Rightarrow> ui_call \<Rightarrow> (app, unit) stepper" where
  "ui_step R c a =
     (case c of
        Fill n h p s \<Rightarrow> (Inr (), fill_form n h p s a)
      | Type_Passphrase p \<Rightarrow> (Inr (), type_passphrase p a)
      | Click role fresh_id \<Rightarrow> (Inr (), start_clicked role fresh_id a)
      | Type_Message sid txt \<Rightarrow> (Inr (), type_message sid txt a)
      | Send online outcome sid \<Rightarrow> send_clicked online outcome sid a
      | Send_File online path sid \<Rightarrow> (Inr (), send_file_clicked online path sid a)
      | Disconnect other sid \<Rightarrow> (Inr (), disconnect_session other sid a)
      | Choose sel \<Rightarrow> (Inr (), choose_tab sel a)
      | Tab_Changed peer \<Rightarrow> (Inr (), on_tab_changed peer a)
      | Focus_In \<Rightarrow> (Inr (), on_focus_in a)
      | Focus_Out \<Rightarrow> (Inr (), on_focus_out a)
      | Emitted sid ev \<Rightarrow> (Inr (), a\<lparr>a_queue := a_queue a @ [(sid, ev)]\<rparr>)
      | Poll out \<Rightarrow> if a_polling a then poll_events R out a else (Inr (), a)
      | Close \<Rightarrow> (Inr (), close_window a))"

text \<open>Tk reports an exception of a callback and goes on, until the window is closed.\<close>

fun run_ui :: "(json \<Rightarrow> exn + string) \<Rightarrow> ui_call list \<Rightarrow> app \<Rightarrow> app" where
  "run_ui R [] a = a"
| "run_ui R (c # cs) a = (if a_open a then run_ui R cs (snd (ui_step R c a)) else a)"

end
