(* ===== verification/App_Safety.thy ===== *)
theory App_Safety
  imports App
begin

text \<open>
  The window: what an event does to its books (\<open>effect\<close>), the invariant that accounts for every
  worker it started (\<open>app_inv\<close>), and the events that cannot stop it from polling (\<open>sane\<close>).
\<close>

section \<open>What an operation leaves alone\<close>

definition members :: "app \<Rightarrow> (string \<times> peer_handle) list" where
  "members a = map (\<lambda>(k, t). (k, t_worker t)) (a_sessions a)"

type_synonym books = "peer_handle option \<times> (string \<times> peer_handle) list \<times> bool \<times> peer_handle list \<times> string list \<times> bool"

definition books :: "app \<Rightarrow> books" where
  "books a = (a_pending a, members a, a_buttons a, a_started a, a_stopped a, a_open a)"

text \<open>The books, the queue, and the badge of the window's title with the timer.\<close>

definition ledger :: "app \<Rightarrow> books \<times> (string \<times> app_event) list" where
  "ledger a = (books a, a_queue a)"

definition badge :: "app \<Rightarrow> bool \<times> nat \<times> nat option \<times> bool" where
  "badge a = (a_focused a, a_unread a, a_title a, a_polling a)"

lemmas ledger_defs = ledger_def books_def members_def

lemma keys_members: "keys (members a) = keys (a_sessions a)"
  by (simp add: members_def comp_def split_beta)

lemma map_of_members: "map_of (members a) sid = map_option t_worker (map_of (a_sessions a) sid)"
  by (simp add: members_def map_of_map split_beta)

text \<open>An update of one tab that keeps its worker.\<close>

definition tab_only :: "string \<Rightarrow> app \<Rightarrow> app \<Rightarrow> bool" where
  "tab_only sid a a' \<longleftrightarrow> (\<exists>f. (\<forall>t. t_worker (f t) = t_worker t) \<and> a' = on_tab sid f a)"

lemma map_entry_map_entry: "AList.map_entry k g (AList.map_entry k f xs) = AList.map_entry k (g \<circ> f) xs"
  by (induction xs) auto

lemma map_entry_id: "(\<And>t. (k, t) \<in> set xs \<Longrightarrow> f t = t) \<Longrightarrow> AList.map_entry k f xs = xs"
  by (induction xs) auto

lemma on_tab_absent: "map_of (a_sessions a) sid = None \<Longrightarrow> on_tab sid f a = a"
proof -
  assume "map_of (a_sessions a) sid = None"
  then have "AList.map_entry sid f (a_sessions a) = a_sessions a"
    by (intro map_entry_id) (auto simp: map_of_eq_None_iff image_iff)
  then show "on_tab sid f a = a" by (simp add: on_tab_def)
qed

lemma tab_only_refl: "tab_only sid a a"
  unfolding tab_only_def by (intro exI [of _ id]) (simp add: on_tab_def map_entry_id)

lemma tab_only_on_tab: "(\<And>t. t_worker (f t) = t_worker t) \<Longrightarrow> tab_only sid a (on_tab sid f a)"
  unfolding tab_only_def by blast

lemma tab_only_trans: "tab_only sid a b \<Longrightarrow> tab_only sid b c \<Longrightarrow> tab_only sid a c"
  unfolding tab_only_def
proof (elim exE conjE)
  fix f g
  assume "\<forall>t. t_worker (f t) = t_worker t" "b = on_tab sid f a" "\<forall>t. t_worker (g t) = t_worker t" "c = on_tab sid g b"
  then show "\<exists>h. (\<forall>t. t_worker (h t) = t_worker t) \<and> c = on_tab sid h a"
    by (intro exI [of _ "g \<circ> f"]) (simp add: on_tab_def map_entry_map_entry)
qed

lemma worker_log_line [simp]: "t_worker (log_line txt tg l w t) = t_worker t"
  by (simp add: log_line_def)

lemma worker_of_tab_updates [simp]: "t_worker (hide_transfer_bar t) = t_worker t"
  "t_worker (set_chat_input_enabled b t) = t_worker t"
  by (simp_all add: hide_transfer_bar_def set_chat_input_enabled_def)

lemma tab_only_keeps:
  assumes "tab_only sid a a'"
  shows "ledger a' = ledger a" and "badge a' = badge a" and "a_selected a' = a_selected a" and "a_polling a' = a_polling a"
    and "other \<noteq> sid \<Longrightarrow> map_of (a_sessions a') other = map_of (a_sessions a) other"
    and "map_of (a_sessions a) sid = None \<Longrightarrow> a' = a"
    and "map_of (a_sessions a') sid = None \<longleftrightarrow> map_of (a_sessions a) sid = None"
proof -
  obtain f where f: "\<And>t. t_worker (f t) = t_worker t" and a': "a' = on_tab sid f a"
    using assms by (auto simp: tab_only_def)
  have "map (\<lambda>(k, t). (k, t_worker t)) (AList.map_entry sid f xs) = map (\<lambda>(k, t). (k, t_worker t)) xs" for xs
    using f by (induction xs) auto
  then show "ledger a' = ledger a"
    by (simp add: ledger_defs a' on_tab_def)
  show "badge a' = badge a" "a_selected a' = a_selected a" "a_polling a' = a_polling a"
    by (simp_all add: a' on_tab_def badge_def)
  show "other \<noteq> sid \<Longrightarrow> map_of (a_sessions a') other = map_of (a_sessions a) other"
    by (simp add: a' on_tab_def AList.map_of_map_entry)
  show "map_of (a_sessions a) sid = None \<Longrightarrow> a' = a"
    by (simp add: a' on_tab_absent)
  show "map_of (a_sessions a') sid = None \<longleftrightarrow> map_of (a_sessions a) sid = None"
    by (auto simp: a' on_tab_def AList.map_of_map_entry split: option.splits)
qed

lemma update_transfer_bar_only: "update_transfer_bar sid l n m a = (r, a') \<Longrightarrow> tab_only sid a a'"
  by (auto simp: update_transfer_bar_def Let_def split: sum.splits
      intro!: tab_only_on_tab intro: tab_only_trans [OF tab_only_on_tab tab_only_on_tab])

lemma sized_line_only: "sized_line n ev sid a = (r, a') \<Longrightarrow> tab_only sid a a'"
  by (auto simp: sized_line_def split: sum.splits intro: tab_only_refl intro!: tab_only_on_tab)

lemma file_event_only: "file_event ev sid a = (r, a') \<Longrightarrow> tab_only sid a a'"
proof -
  assume run: "file_event ev sid a = (r, a')"
  have h: "tab_only sid a (on_tab sid hide_transfer_bar a)"
    by (rule tab_only_on_tab) simp
  have l: "tab_only sid b (on_tab sid (log_line x tg l w) b)" for b x tg l w
    by (rule tab_only_on_tab) simp
  from run show ?thesis
    unfolding file_event_def Let_def
    by (cases ev) (auto dest: sized_line_only update_transfer_bar_only tab_only_trans [OF h]
        intro: tab_only_refl tab_only_trans [OF h l])
qed

lemma replay_entries_only: "replay_entries R peer sid es a = (r, a') \<Longrightarrow> tab_only sid a a'"
proof (induction es arbitrary: a)
  case (Cons e es)
  show ?case
  proof (cases "read_entry R e")
    case (Inl x)
    with Cons.prems show ?thesis by (simp add: tab_only_refl)
  next
    case (Inr x)
    obtain sent msg at_time where x: "x = (sent, msg, at_time)" by (cases x)
    let ?f = "\<lambda>t. log_line (Chat msg) (if sent then Me else Peer) (Some (if sent then JStr (s_name (t_worker t)) else peer)) at_time t"
    have "replay_entries R peer sid es (on_tab sid ?f a) = (r, a')"
      using Cons.prems Inr x by simp
    from tab_only_trans [OF tab_only_on_tab Cons.IH [OF this]] show ?thesis by simp
  qed
qed (auto intro: tab_only_refl)

text \<open>What an event does to the books: nothing, or the worker that was starting gets a tab or is given up.\<close>

definition graduates :: "string \<Rightarrow> peer_handle \<Rightarrow> app \<Rightarrow> app \<Rightarrow> bool" where
  "graduates sid w a a' \<longleftrightarrow>
     a_pending a = Some w \<and> s_id w = sid \<and> map_of (a_sessions a) sid = None \<and>
     ledger a' = ((None, members a @ [(sid, w)], True, a_started a, a_stopped a, a_open a), a_queue a)"

definition given_up :: "string \<Rightarrow> peer_handle \<Rightarrow> app \<Rightarrow> app \<Rightarrow> bool" where
  "given_up sid w a a' \<longleftrightarrow>
     a_pending a = Some w \<and> s_id w = sid \<and> map_of (a_sessions a) sid = None \<and>
     ledger a' = ((None, members a, True, a_started a, a_stopped a, a_open a), a_queue a)"

text \<open>No other tab is touched, and nothing at all if the event is for nobody.\<close>

definition confined :: "string \<Rightarrow> app \<Rightarrow> app \<Rightarrow> bool" where
  "confined sid a a' \<longleftrightarrow>
     (\<forall>other. other \<noteq> sid \<longrightarrow> map_of (a_sessions a') other = map_of (a_sessions a) other) \<and>
     (worker_for sid a = None \<longrightarrow> a' = a)"

lemma worker_for_None: "worker_for sid a = None \<longleftrightarrow> map_of (a_sessions a) sid = None \<and> \<not> is_pending sid a"
  by (auto simp: worker_for_def is_pending_def split: option.splits)

lemma tab_only_confined: "tab_only sid a a' \<Longrightarrow> confined sid a a'"
  using tab_only_keeps(5,6) [of sid a a'] by (auto simp: confined_def worker_for_None)

lemma confined_tab_only: "confined sid a b \<Longrightarrow> tab_only sid b c \<Longrightarrow> confined sid a c"
  using tab_only_keeps(5,6) [of sid b c] by (auto simp: confined_def worker_for_None)

lemma ensure_session_tab_cases:
  assumes "ensure_session_tab peer sid a = (ok, a')"
  obtains "worker_for sid a = None" "\<not> ok" "a' = a"
  | "map_of (a_sessions a) sid \<noteq> None" ok "a' = a"
  | w where ok "graduates sid w a a'" "confined sid a a'" "badge a' = badge a" "a_selected a' = Some sid"
proof (cases "map_of (a_sessions a) sid")
  case absent: None
  show ?thesis
  proof (cases "worker_for sid a")
    case None
    with absent assms have "\<not> ok" "a' = a"
      by (auto simp: ensure_session_tab_def)
    with None show ?thesis by (rule that(1))
  next
    case (Some w)
    with absent have w: "a_pending a = Some w" "s_id w = sid"
      by (auto simp: worker_for_def split: option.splits if_splits)
    let ?a = "a\<lparr>a_sessions := a_sessions a @ [(sid, new_tab w peer)], a_selected := Some sid, a_pending := None, a_buttons := True,
      a_status := Ready_For_Another, a_fingerprint := None\<rparr>"
    have "sid \<notin> set (keys (a_sessions a))"
      using absent by (simp add: map_of_eq_None_iff)
    with assms absent Some w have r: ok "a' = ?a"
      by (auto simp: ensure_session_tab_def update_fresh)
    have "graduates sid w a ?a"
      using absent w by (simp add: graduates_def ledger_defs new_tab_def)
    moreover have "confined sid a ?a"
      using Some by (auto simp: confined_def map_add_def split: option.splits)
    moreover have "badge ?a = badge a" "a_selected ?a = Some sid"
      by (simp_all add: badge_def)
    ultimately show ?thesis using that(3) [of w] r by blast
  qed
next
  case (Some t)
  with assms have ok "a' = a" by (auto simp: ensure_session_tab_def)
  with Some show ?thesis using that(2) by blast
qed

definition steady :: "string \<Rightarrow> app \<Rightarrow> app \<Rightarrow> bool" where
  "steady sid a a' \<longleftrightarrow> (ledger a' = ledger a \<or> (\<exists>w. graduates sid w a a')) \<and> confined sid a a'"

lemma steady_refl: "steady sid a a"
  by (simp add: steady_def confined_def)

lemma steady_tab_only: "steady sid a b \<Longrightarrow> tab_only sid b c \<Longrightarrow> steady sid a c"
  using confined_tab_only [of sid a b c] tab_only_keeps(1) [of sid b c] by (auto simp: steady_def graduates_def)

lemma tab_only_steady: "tab_only sid a a' \<Longrightarrow> steady sid a a'"
  by (rule steady_tab_only [OF steady_refl])

text \<open>Fields outside the ledger may change for a worker that is known.\<close>

lemma steady_aside:
  assumes "steady sid a b" and "ledger c = ledger b" and "a_sessions c = a_sessions b" and "worker_for sid a \<noteq> None"
  shows "steady sid a c"
  using assms by (auto simp: steady_def graduates_def confined_def)

lemma steady_ensure: "ensure_session_tab peer sid a = (ok, a') \<Longrightarrow> steady sid a a' \<and> (\<not> ok \<longrightarrow> a' = a) \<and> (ok \<longrightarrow> worker_for sid a \<noteq> None) \<and> badge a' = badge a"
proof (erule ensure_session_tab_cases)
  fix w
  assume "graduates sid w a a'" "confined sid a a'" "badge a' = badge a" ok
  then show ?thesis by (auto simp: steady_def graduates_def worker_for_None is_pending_def)
qed (auto simp: steady_refl worker_for_None)

lemma steady_handshake_done: "steady sid a (handshake_done peer sid a) \<and> badge (handshake_done peer sid a) = badge a"
proof -
  obtain ok a1 where e: "ensure_session_tab peer sid a = (ok, a1)"
    by (cases "ensure_session_tab peer sid a")
  note s = steady_ensure [OF e]
  show ?thesis
  proof (cases ok)
    case True
    define a3 where "a3 = on_tab sid (\<lambda>t. set_chat_input_enabled True (log_line Secured System None None (t\<lparr>t_header := Some peer\<rparr>)))
      (update_tab_title peer sid (on_tab sid (\<lambda>t. t\<lparr>t_shown := True\<rparr>) a1))"
    have "tab_only sid a1 a3"
      unfolding a3_def update_tab_title_def
      by (rule tab_only_trans [OF tab_only_on_tab tab_only_trans [OF tab_only_on_tab tab_only_on_tab]]) simp_all
    then have a3: "steady sid a a3" "badge a3 = badge a"
      using s steady_tab_only tab_only_keeps(2) by auto
    have "handshake_done peer sid a = (if a_selected a3 = Some sid then a3\<lparr>a_cursor := Some sid\<rparr> else a3)"
      using e True by (simp add: handshake_done_def a3_def Let_def)
    with a3 s True steady_aside [OF a3(1), of "a3\<lparr>a_cursor := Some sid\<rparr>"] show ?thesis
      by (simp add: ledger_defs badge_def)
  qed (use e s steady_refl in \<open>simp add: handshake_done_def\<close>)
qed

lemma steady_history_loaded:
  assumes "history_loaded R peer sid es a = (r, a')"
  shows "steady sid a a' \<and> badge a' = badge a"
proof -
  obtain ok a1 where e: "ensure_session_tab peer sid a = (ok, a1)"
    by (cases "ensure_session_tab peer sid a")
  note s = steady_ensure [OF e]
  have l: "tab_only sid b (on_tab sid (log_line x tg l w) b)" for b x tg l w
    by (rule tab_only_on_tab) simp
  show ?thesis
  proof (cases "ok \<and> es \<noteq> []")
    case True
    with assms e have "and_next (replay_entries R peer sid es) (\<lambda>_ a. (Inr (), on_tab sid (log_line New_Session System None None) a))
        (on_tab sid (log_line Previous_Conversation System None None) a1) = (r, a')"
      by (simp add: history_loaded_def)
    then have "tab_only sid a1 a'"
    proof (cases rule: and_next_cases)
      case (1 x)
      show ?thesis by (rule tab_only_trans [OF l replay_entries_only [OF 1(1)]])
    next
      case (2 u b)
      from 2(2) have "a' = on_tab sid (log_line New_Session System None None) b" by simp
      with tab_only_trans [OF tab_only_trans [OF l replay_entries_only [OF 2(1)]] l] show ?thesis by simp
    qed
    with s steady_tab_only tab_only_keeps(2) show ?thesis by auto
  next
    case False
    with assms e s show ?thesis by (auto simp: history_loaded_def split: bool.splits)
  qed
qed

definition badge_ok :: "app \<Rightarrow> bool" where
  "badge_ok a \<longleftrightarrow>
     (a_focused a \<longrightarrow> a_unread a = 0) \<and> a_title a = (if a_unread a = 0 then None else Some (a_unread a))"

definition is_global :: "app_event \<Rightarrow> bool" where
  "is_global ev \<longleftrightarrow> (\<exists>fp. ev = Of_Worker (Identity_Loaded fp)) \<or> (\<exists>n fp. ev = Of_Worker (Trust_Prompt n fp))"

definition is_message :: "app_event \<Rightarrow> bool" where
  "is_message ev \<longleftrightarrow> (\<exists>s m. ev = Of_Worker (Text_Message s m))"

text \<open>What one event does.\<close>

definition effect :: "string \<Rightarrow> app_event \<Rightarrow> app \<Rightarrow> app \<Rightarrow> bool" where
  "effect sid ev a a' \<longleftrightarrow>
     (ledger a' = ledger a \<or> (\<exists>w. graduates sid w a a') \<or> (\<exists>w e. ev = Of_Worker (Ui_Error e) \<and> given_up sid w a a')) \<and>
     (\<not> is_global ev \<longrightarrow> confined sid a a') \<and>
     a_focused a' = a_focused a \<and> a_polling a' = a_polling a \<and>
     a_unread a' = a_unread a + (if is_message ev \<and> map_of (a_sessions a) sid \<noteq> None \<and> \<not> a_focused a then 1 else 0) \<and>
     (badge_ok a \<longrightarrow> badge_ok a')"

lemma badge_ok_cong: "badge a' = badge a \<Longrightarrow> badge_ok a' = badge_ok a"
  by (simp add: badge_ok_def badge_def)

lemma effect_steady: "steady sid a a' \<Longrightarrow> badge a' = badge a \<Longrightarrow> \<not> is_message ev \<Longrightarrow> effect sid ev a a'"
  using badge_ok_cong [of a' a] by (auto simp: effect_def steady_def badge_def)

lemma effect_tab_only: "tab_only sid a a' \<Longrightarrow> \<not> is_message ev \<Longrightarrow> effect sid ev a a'"
  by (rule effect_steady [OF tab_only_steady tab_only_keeps(2)])

lemma tab_only_log: "tab_only sid a (on_tab sid (log_line x tg l w) a)"
  by (rule tab_only_on_tab) simp

lemma effect_tell: "\<not> is_message ev \<Longrightarrow> effect sid ev a (tell u tg id sid a)"
proof -
  assume m: "\<not> is_message ev"
  consider "map_of (a_sessions a) sid \<noteq> None" | "map_of (a_sessions a) sid = None" "is_pending sid a"
    | "map_of (a_sessions a) sid = None" "\<not> is_pending sid a" by blast
  then show ?thesis
  proof cases
    case 1
    with effect_tab_only [OF tab_only_log m] show ?thesis by (simp add: tell_def)
  next
    case 2
    then have "steady sid a (a\<lparr>a_status := Told u\<rparr>)"
      by (intro steady_aside [OF steady_refl]) (simp_all add: ledger_defs worker_for_None)
    with 2 effect_steady [OF this _ m] show ?thesis by (simp add: tell_def badge_def)
  next
    case 3
    with effect_steady [OF steady_refl refl m] show ?thesis by (simp add: tell_def)
  qed
qed

lemma effect_error:
  "effect sid (Of_Worker (Ui_Error e)) a
     (tell (Ui_Error e) Alert_Tag (\<lambda>a. show_dialog (Error_Dialog (Ui_Error e)) (a\<lparr>a_pending := None, a_buttons := True\<rparr>)) sid a)"
    (is "effect sid ?ev a ?a'")
proof (cases "map_of (a_sessions a) sid = None \<and> is_pending sid a")
  case True
  then obtain w where w: "a_pending a = Some w" "s_id w = sid" by (auto simp: is_pending_def split: option.splits)
  with True have a': "?a' = show_dialog (Error_Dialog (Ui_Error e)) (a\<lparr>a_status := Told (Ui_Error e), a_pending := None, a_buttons := True\<rparr>)"
    by (simp add: tell_def)
  have "given_up sid w a ?a'" "confined sid a ?a'" "badge ?a' = badge a"
    unfolding a' using True w by (simp_all add: given_up_def ledger_defs show_dialog_def confined_def worker_for_None badge_def)
  with badge_ok_cong [of ?a' a] show ?thesis
    by (auto simp: effect_def is_message_def badge_def simp del: a')
next
  case False
  then have "?a' = tell (Ui_Error e) Alert_Tag id sid a" by (auto simp: tell_def)
  with effect_tell [of ?ev sid a "Ui_Error e" Alert_Tag] show ?thesis by (simp add: is_message_def)
qed

lemma effect_message:
  assumes "map_of (a_sessions a) sid \<noteq> None"
  shows "effect sid (Of_Worker (Text_Message s m)) a
    (notify_incoming peer sid s m (on_tab sid (log_line (Chat m) Peer (Some s) None) a))" (is "effect sid ?ev a ?a'")
proof -
  let ?b = "on_tab sid (log_line (Chat m) Peer (Some s) None) a"
  have b: "tab_only sid a ?b" by (rule tab_only_log)
  define c where "c = (if a_selected ?b = Some sid then ?b
      else update_tab_title peer sid (on_tab sid (\<lambda>t. t\<lparr>t_unread := t_unread t + 1\<rparr>) ?b))"
  have "tab_only sid ?b c"
    unfolding c_def update_tab_title_def
    using tab_only_trans [OF tab_only_on_tab tab_only_on_tab, of "\<lambda>t. t\<lparr>t_unread := t_unread t + 1\<rparr>" "\<lambda>t. t\<lparr>t_title := (peer, t_unread t)\<rparr>" sid ?b]
    by (simp add: tab_only_refl)
  then have c: "steady sid a c" "badge c = badge a"
    using tab_only_steady [OF tab_only_trans [OF b]] tab_only_keeps(2) [OF b] tab_only_keeps(2) by simp_all
  have a': "ledger ?a' = ledger c" "a_sessions ?a' = a_sessions c"
    "badge ?a' = (if a_focused c then badge c else (False, a_unread c + 1, Some (a_unread c + 1), a_polling c))"
    by (simp_all add: notify_incoming_def c_def Let_def ledger_defs badge_def on_tab_def update_tab_title_def)
  have "steady sid a ?a'"
    by (rule steady_aside [OF c(1) a'(1,2)]) (use assms in \<open>auto simp: worker_for_None\<close>)
  with a'(3) c(2) assms show ?thesis
    by (auto simp: effect_def steady_def is_message_def badge_def badge_ok_def split: if_splits)
qed

lemma effect_idle: "\<not> is_message ev \<or> map_of (a_sessions a) sid = None \<Longrightarrow> effect sid ev a a"
  by (auto simp: effect_def confined_def)

lemma effect_outside_books:
  assumes "is_global ev" and "ledger a' = ledger a" and "badge a' = badge a"
  shows "effect sid ev a a'"
  using assms badge_ok_cong [OF assms(3)] by (auto simp: effect_def is_global_def is_message_def badge_def)

lemma worker_file_event:
  assumes "(if map_of (a_sessions a) sid = None then (Inr (), a) else file_event ev sid a) = (r, a')"
    and "\<not> is_message (Of_Worker ev)"
  shows "effect sid (Of_Worker ev) a a'"
  using assms effect_tab_only [OF file_event_only] effect_idle by (auto split: if_splits)

lemma worker_global_event:
  assumes "worker_event R env sid ev a = (r, a')" and "is_global (Of_Worker ev)"
  shows "effect sid (Of_Worker ev) a a'"
  by (rule effect_outside_books [OF assms(2)])
    (use assms in \<open>auto simp: is_global_def worker_event_def ledger_defs badge_def split: sum.splits\<close>)

lemma worker_event_effect:
  assumes "worker_event R env sid ev a = (r, a')"
  shows "effect sid (Of_Worker ev) a a'"
proof (cases ev)
  case (Identity_Loaded fp)
  with worker_global_event [OF assms] show ?thesis by (simp add: is_global_def)
next
  case (Trust_Prompt n fp)
  with worker_global_event [OF assms] show ?thesis by (simp add: is_global_def)
next
  case Connection_Lost
  with assms have "a' = on_tab sid (hide_transfer_bar \<circ> set_chat_input_enabled False) a" by (simp add: worker_event_def)
  then have "tab_only sid a a'" using tab_only_on_tab [of "hide_transfer_bar \<circ> set_chat_input_enabled False"] by simp
  then show ?thesis by (rule effect_tab_only) (simp add: is_message_def Connection_Lost)
next
  case (Ui_Error e)
  with assms effect_error [of sid e a] show ?thesis by (auto simp: worker_event_def)
next
  case (History_Loaded es)
  with assms have "history_loaded R (o_peer env) sid es a = (r, a')" by (simp add: worker_event_def)
  from steady_history_loaded [OF this] show ?thesis
    by (intro effect_steady) (auto simp: is_message_def History_Loaded)
next
  case Handshake_Done
  with assms steady_handshake_done [of sid a "o_peer env"] show ?thesis
    by (intro effect_steady) (auto simp: is_message_def worker_event_def)
next
  case (Text_Message s m)
  with assms show ?thesis
    using effect_message [of a sid s m] effect_idle [of "Of_Worker ev" a sid] by (auto simp: worker_event_def split: if_splits)
qed (use assms effect_tell [of "Of_Worker ev" sid a ev] worker_file_event [of a sid ev r a'] in
    \<open>auto simp: worker_event_def is_message_def\<close>)

lemma handle_event_effect:
  assumes "handle_event R env sid ev a = (r, a')"
  shows "effect sid ev a a'"
proof (cases ev)
  case (Of_Worker u)
  with assms worker_event_effect show ?thesis by (simp add: handle_event_def)
next
  case Focus_Requested
  show ?thesis
  proof (cases "map_of (a_sessions a) sid")
    case None
    with assms Focus_Requested effect_idle [of ev a sid] show ?thesis by (auto simp: handle_event_def is_message_def)
  next
    case (Some t)
    with assms Focus_Requested have "a' = a\<lparr>a_selected := Some sid, a_raised := a_raised a + 1\<rparr>"
      by (auto simp: handle_event_def)
    moreover from this have "steady sid a a'"
      using Some by (intro steady_aside [OF steady_refl]) (auto simp: ledger_defs worker_for_None)
    ultimately show ?thesis
      using Focus_Requested by (intro effect_steady) (auto simp: is_message_def badge_def)
  qed
qed

section \<open>The invariant of the window\<close>

definition worker_ids :: "app \<Rightarrow> string list" where
  "worker_ids a = map s_id (a_started a)"

text \<open>
  Every worker that was started is the one that is starting, has the tab of its name, was told
  to stop, or put an error on the queue (the events of the run are \<open>E\<close>).
\<close>

definition app_inv :: "(string \<times> app_event) set \<Rightarrow> app \<Rightarrow> bool" where
  "app_inv E a \<longleftrightarrow>
     set (a_queue a) \<subseteq> E \<and> badge_ok a \<and> distinct (keys (a_sessions a)) \<and>
     (a_buttons a \<longleftrightarrow> a_pending a = None) \<and>
     (\<forall>(sid, w) \<in> set (members a). s_id w = sid \<and> w \<in> set (a_started a) \<and> sid \<notin> set (a_stopped a)) \<and>
     (\<forall>w. a_pending a = Some w \<longrightarrow>
        w \<in> set (a_started a) \<and> s_id w \<notin> set (keys (a_sessions a)) \<and> s_id w \<notin> set (a_stopped a)) \<and>
     set (a_stopped a) \<subseteq> set (worker_ids a) \<and>
     (\<forall>w \<in> set (a_started a).
        a_pending a = Some w \<or> (s_id w, w) \<in> set (members a) \<or> s_id w \<in> set (a_stopped a) \<or>
        (\<exists>e. (s_id w, Of_Worker (Ui_Error e)) \<in> E))"

lemma app_inv_cong:
  assumes "app_inv E a" and "ledger a' = ledger a" and "badge_ok a'"
  shows "app_inv E a'"
proof -
  have "keys (a_sessions a') = keys (a_sessions a)"
    using assms(2) keys_members [of a] keys_members [of a'] by (simp add: ledger_def books_def)
  with assms show ?thesis
    by (simp add: app_inv_def ledger_def books_def worker_ids_def)
qed

lemma app_inv_effect:
  assumes inv: "app_inv E a" and "(sid, ev) \<in> E" and eff: "effect sid ev a a'"
  shows "app_inv E a'" and "a_open a' = a_open a" and "a_queue a' = a_queue a" and "worker_ids a' = worker_ids a"
proof -
  have badge: "badge_ok a'" using inv eff by (simp add: app_inv_def effect_def)
  consider "ledger a' = ledger a" | w where "graduates sid w a a'" | w e where "ev = Of_Worker (Ui_Error e)" "given_up sid w a a'"
    using eff by (auto simp: effect_def)
  then have "app_inv E a' \<and> a_open a' = a_open a \<and> a_queue a' = a_queue a \<and> worker_ids a' = worker_ids a"
  proof cases
    case 1
    with app_inv_cong [OF inv 1 badge] show ?thesis by (simp add: ledger_def books_def worker_ids_def)
  next
    case (2 w)
    then have l: "a_pending a' = None" "members a' = members a @ [(sid, w)]" "a_buttons a'" "a_started a' = a_started a"
      "a_stopped a' = a_stopped a" "a_queue a' = a_queue a" "a_open a' = a_open a"
      and w: "a_pending a = Some w" "s_id w = sid" "sid \<notin> set (keys (members a))"
      by (auto simp: graduates_def ledger_def books_def keys_members map_of_eq_None_iff)
    show ?thesis
      using inv badge w l(3) unfolding app_inv_def keys_members [symmetric] l worker_ids_def by auto
  next
    case (3 w e)
    then have l: "a_pending a' = None" "members a' = members a" "a_buttons a'" "a_started a' = a_started a"
      "a_stopped a' = a_stopped a" "a_queue a' = a_queue a" "a_open a' = a_open a"
      and w: "a_pending a = Some w" "s_id w = sid"
      by (auto simp: given_up_def ledger_def books_def)
    show ?thesis
      using inv badge w l(3) assms(2) 3(1) unfolding app_inv_def keys_members [symmetric] l worker_ids_def by auto
  qed
  then show "app_inv E a'" "a_open a' = a_open a" "a_queue a' = a_queue a" "worker_ids a' = worker_ids a" by simp_all
qed

lemma handle_all_inv:
  assumes "handle_all R out evs a = (r, a')" and "app_inv E a" and "set evs \<subseteq> E"
  shows "app_inv E a' \<and> a_open a' = a_open a \<and> worker_ids a' = worker_ids a"
  using assms
proof (induction evs arbitrary: a)
  case (Cons p evs)
  obtain sid ev where p: "p = (sid, ev)" by (cases p)
  let ?b = "a\<lparr>a_queue := evs\<rparr>"
  have b: "app_inv E ?b"
    using Cons.prems(2,3) by (simp add: app_inv_def badge_ok_def members_def worker_ids_def)
  obtain x c where h: "handle_event R (out (length evs)) sid ev ?b = (x, c)"
    by (cases "handle_event R (out (length evs)) sid ev ?b")
  have "(sid, ev) \<in> E" using Cons.prems(3) p by simp
  note c = app_inv_effect [OF b this handle_event_effect [OF h]]
  show ?case
  proof (cases x)
    case (Inl e)
    with Cons.prems(1) p h c show ?thesis by (auto simp: and_next_def worker_ids_def)
  next
    case (Inr u)
    with Cons.prems(1) p h have "handle_all R out evs c = (r, a')" by (simp add: and_next_def)
    from Cons.IH [OF this c(1)] Cons.prems(3) c show ?thesis by (simp add: worker_ids_def)
  qed
qed simp

lemma app_inv_aside:
  assumes "app_inv E a" and "ledger a' = ledger a" and "badge a' = badge a"
  shows "app_inv E a'"
  by (rule app_inv_cong [OF assms(1,2)]) (use assms(1) badge_ok_cong [OF assms(3)] in \<open>simp add: app_inv_def\<close>)

lemma app_inv_tab_only: "app_inv E a \<Longrightarrow> tab_only sid a a' \<Longrightarrow> app_inv E a'"
  by (rule app_inv_aside [OF _ tab_only_keeps(1,2)])

lemma start_clicked_cases:
  obtains "start_clicked role i a = a" | d where "start_clicked role i a = show_dialog d a"
  | w where "s_id w = i" "a_pending a = None"
    "start_clicked role i a = a\<lparr>a_buttons := False, a_status := Starting, a_pending := Some w, a_started := a_started a @ [w]\<rparr>"
proof (cases "a_pending a = None")
  case True
  let ?f = "a_form a"
  show ?thesis
  proof (cases "int_of_text (strip (f_port ?f))")
    case (Inr port)
    let ?w = "\<lparr>s_id = i, s_name = strip (f_name ?f), s_role = role, s_host = strip (f_host ?f), s_port = port,
      s_passphrase = truthy (Some (f_passphrase ?f)), s_saving = f_save ?f\<rparr>"
    show ?thesis
      by (cases "strip (f_name ?f) = []"; cases "f_save ?f \<and> f_passphrase ?f = []")
        (use that(2) that(3) [of ?w] True Inr in \<open>auto simp: start_clicked_def Let_def\<close>)
  qed (use that(2) True in \<open>auto simp: start_clicked_def Let_def\<close>)
qed (use that(1) in \<open>simp add: start_clicked_def\<close>)

lemma app_inv_start:
  assumes "app_inv E a" and "i \<notin> set (worker_ids a)"
  shows "app_inv E (start_clicked role i a)"
proof (cases rule: start_clicked_cases [of role i a])
  case 1
  with assms(1) show ?thesis by simp
next
  case (2 d)
  have "app_inv E (show_dialog d a)"
    by (rule app_inv_aside [OF assms(1)]) (simp_all add: show_dialog_def ledger_defs badge_def)
  with 2 show ?thesis by simp
next
  case w: (3 w)
  have inv: "badge_ok a" "distinct (keys (a_sessions a))" "set (a_queue a) \<subseteq> E" "set (a_stopped a) \<subseteq> set (worker_ids a)"
    "\<forall>(sid, w) \<in> set (members a). s_id w = sid \<and> w \<in> set (a_started a) \<and> sid \<notin> set (a_stopped a)"
    "\<forall>w \<in> set (a_started a). a_pending a = Some w \<or> (s_id w, w) \<in> set (members a) \<or> s_id w \<in> set (a_stopped a) \<or>
        (\<exists>e. (s_id w, Of_Worker (Ui_Error e)) \<in> E)"
    using assms(1) by (simp_all add: app_inv_def)
  have "i \<notin> set (keys (members a))"
    using inv(5) assms(2) by (auto simp: worker_ids_def)
  then have "i \<notin> set (keys (a_sessions a))" by (simp only: keys_members not_False_eq_True)
  moreover have "i \<notin> set (a_stopped a)" using inv(4) assms(2) by blast
  ultimately show ?thesis
    using inv w by (auto simp: app_inv_def badge_ok_def members_def worker_ids_def)
qed

lemma filter_members: "map (\<lambda>(k, t). (k, t_worker t)) (filter (\<lambda>(k, t). sid \<noteq> k) xs) = filter (\<lambda>p. fst p \<noteq> sid) (map (\<lambda>(k, t). (k, t_worker t)) xs)"
  by (induction xs) auto

lemma distinct_keys_filter: "distinct (keys xs) \<Longrightarrow> distinct (keys (filter P xs))"
  by (induction xs) auto

lemma app_inv_disconnect:
  assumes inv: "app_inv E a"
  shows "app_inv E (disconnect_session other sid a)" (is "app_inv E ?a")
proof (cases "map_of (a_sessions a) sid")
  case (Some t)
  have "(sid, t_worker t) \<in> set (members a)"
    using map_of_SomeD [OF Some] by (force simp: members_def)
  then have w: "s_id (t_worker t) = sid" "t_worker t \<in> set (a_started a)" "sid \<in> set (keys (members a))"
    using inv by (auto simp: app_inv_def intro: rev_image_eqI)
  have l: "a_pending ?a = a_pending a" "members ?a = filter (\<lambda>p. fst p \<noteq> sid) (members a)" "a_buttons ?a = a_buttons a"
    "a_started ?a = a_started a" "a_stopped ?a = a_stopped a @ [sid]" "a_queue ?a = a_queue a" "badge ?a = badge a"
    using Some w by (simp_all add: disconnect_session_def members_def AList.delete_eq filter_members badge_def)
  have "badge_ok ?a" using inv badge_ok_cong [OF l(7)] by (simp add: app_inv_def)
  moreover have "distinct (keys (filter (\<lambda>p. fst p \<noteq> sid) (members a)))"
    using inv unfolding app_inv_def keys_members [symmetric] by (simp add: distinct_keys_filter)
  moreover have "sid \<in> set (worker_ids a)"
    using w by (auto simp: worker_ids_def)
  moreover have "\<forall>w. a_pending a = Some w \<longrightarrow> s_id w \<noteq> sid"
    using inv w(3) unfolding app_inv_def keys_members [symmetric] by blast
  ultimately show ?thesis
    using inv unfolding app_inv_def keys_members [symmetric] l worker_ids_def by auto
qed (use inv in \<open>simp add: disconnect_session_def\<close>)

text \<open>The identifier of a new worker is drawn at random; it is assumed to be new.\<close>

lemma poll_inv:
  assumes "app_inv E a" and "poll_events R out a = (r, a')"
  shows "app_inv E a' \<and> a_open a' = a_open a \<and> worker_ids a' = worker_ids a"
proof -
  obtain x b where h: "handle_all R out (a_queue a) a = (x, b)" by (cases "handle_all R out (a_queue a) a")
  have b: "app_inv E b \<and> a_open b = a_open a \<and> worker_ids b = worker_ids a"
    by (rule handle_all_inv [OF h assms(1)]) (use assms(1) in \<open>simp add: app_inv_def\<close>)
  have "app_inv E (b\<lparr>a_polling := False\<rparr>)"
    by (rule app_inv_cong [OF b [THEN conjunct1]])
      (use b in \<open>simp_all add: ledger_defs badge_ok_def app_inv_def\<close>)
  with b assms(2) h show ?thesis
    by (cases "x = Inr ()") (auto simp: poll_events_def worker_ids_def)
qed

lemma send_only: "send_clicked online outcome sid a = (r, a') \<Longrightarrow> tab_only sid a a'"
proof -
  have "tab_only sid a (on_tab sid (\<lambda>t. (log_line (Chat (t_msg t)) Me (Some (JStr (s_name (t_worker t)))) None t)\<lparr>t_msg := ''''\<rparr>) a)"
    by (rule tab_only_on_tab) simp
  then show "send_clicked online outcome sid a = (r, a') \<Longrightarrow> tab_only sid a a'"
    by (auto simp: send_clicked_def tab_only_refl split: option.splits if_splits sum.splits)
qed

lemma tab_changed_only: "\<exists>sid. tab_only sid a (on_tab_changed peer a)"
proof (cases "a_selected a")
  case (Some sid)
  then have "tab_only sid a (on_tab_changed peer a)"
    by (simp add: on_tab_changed_def tab_only_on_tab)
  then show ?thesis by blast
qed (simp add: on_tab_changed_def tab_only_refl)

lemma ui_step_inv:
  assumes inv: "app_inv E a" and "ui_step R c a = (r, a')" and "c \<noteq> Close"
    and new: "\<And>sid ev. c = Emitted sid ev \<Longrightarrow> (sid, ev) \<in> E" and "distinct (worker_ids a')"
  shows "app_inv E a' \<and> a_open a' = a_open a \<and> (\<exists>ids. worker_ids a' = worker_ids a @ ids)"
proof -
  have aside: ?thesis if "ledger a' = ledger a" "badge a' = badge a"
    using app_inv_aside [OF inv that] that(1) by (simp add: ledger_def books_def worker_ids_def)
  have tab: ?thesis if "tab_only sid a a'" for sid
    by (rule aside) (rule tab_only_keeps [OF that])+
  note step = assms(2) [symmetric, unfolded ui_step_def]
  show ?thesis
  proof (cases c)
    case (Click role i)
    then have a': "a' = start_clicked role i a" using step by simp
    show ?thesis
    proof (cases rule: start_clicked_cases [of role i a])
      case (3 w)
      with a' assms(5) have "i \<notin> set (worker_ids a)" by (simp add: worker_ids_def)
      from app_inv_start [OF inv this, of role] a' have "app_inv E a'" by simp
      with 3 a' show ?thesis by (simp add: worker_ids_def)
    qed (rule aside; use a' in \<open>simp add: show_dialog_def ledger_defs badge_def\<close>)+
  next
    case (Send online outcome sid)
    with step have "send_clicked online outcome sid a = (r, a')" by simp
    from tab [OF send_only [OF this]] show ?thesis .
  next
    case (Disconnect other sid)
    with step have "a' = disconnect_session other sid a" by simp
    with app_inv_disconnect [OF inv, of other sid] show ?thesis
      by (auto simp: disconnect_session_def worker_ids_def split: option.splits)
  next
    case (Tab_Changed peer)
    with step have "a' = on_tab_changed peer a" by simp
    with tab_changed_only [of a peer] obtain sid where "tab_only sid a a'" by blast
    then show ?thesis by (rule tab)
  next
    case Focus_In
    then have a': "a' = on_focus_in a" using step by simp
    have "app_inv E (on_focus_in a)"
      by (rule app_inv_cong [OF inv]) (simp_all add: on_focus_in_def ledger_defs badge_ok_def)
    with a' show ?thesis by (simp add: on_focus_in_def worker_ids_def)
  next
    case Focus_Out
    then have a': "a' = on_focus_out a" using step by simp
    have "app_inv E (on_focus_out a)"
      by (rule app_inv_cong [OF inv]) (use inv in \<open>simp_all add: on_focus_out_def ledger_defs badge_ok_def app_inv_def\<close>)
    with a' show ?thesis by (simp add: on_focus_out_def worker_ids_def)
  next
    case (Emitted sid ev)
    then have a': "a' = a\<lparr>a_queue := a_queue a @ [(sid, ev)]\<rparr>" using step by simp
    have "app_inv E a'"
      using inv new [OF Emitted] by (simp add: a' app_inv_def badge_ok_def members_def worker_ids_def)
    with a' show ?thesis by (simp add: worker_ids_def)
  next
    case (Poll out)
    with step have "poll_events R out a = (r, a') \<or> a' = a" by (auto split: if_splits)
    with poll_inv [OF inv, of R out r a'] inv show ?thesis by auto
  next
    case (Type_Message sid m)
    with step have "a' = on_tab sid (\<lambda>t. t\<lparr>t_msg := m\<rparr>) a" by (simp add: type_message_def)
    then have "tab_only sid a a'" by (simp add: tab_only_on_tab)
    then show ?thesis by (rule tab)
  qed ((rule aside; use step in \<open>(simp add: fill_form_def type_passphrase_def send_file_clicked_def choose_tab_def ledger_defs badge_def
      Let_def; fail)\<close>)+, use assms(3) in simp)
qed

text \<open>The events of a run.\<close>

definition emitted_in :: "ui_call list \<Rightarrow> (string \<times> app_event) set" where
  "emitted_in cs = {(sid, ev). Emitted sid ev \<in> set cs}"

lemma app_inv_mono: "app_inv E a \<Longrightarrow> E \<subseteq> F \<Longrightarrow> app_inv F a"
  unfolding app_inv_def by blast

lemma new_app_inv: "app_inv E new_app"
  by (simp add: app_inv_def new_app_def badge_ok_def members_def worker_ids_def)

text \<open>Workers are only added.\<close>

lemma handle_all_started: "handle_all R out evs a = (r, a') \<Longrightarrow> a_started a' = a_started a"
proof (induction evs arbitrary: a)
  case (Cons p evs)
  obtain sid ev where p: "p = (sid, ev)" by (cases p)
  have same: "a_started c = a_started b" if "handle_event R env sid ev b = (x, c)" for env b x c
    using handle_event_effect [OF that]
    by (auto simp: effect_def graduates_def given_up_def ledger_def books_def)
  from Cons.prems [unfolded p handle_all.simps] show ?case
    by (cases rule: and_next_cases) (use same Cons.IH in force)+
qed simp

lemma ui_step_started: "ui_step R c a = (r, a') \<Longrightarrow> \<exists>ids. worker_ids a' = worker_ids a @ ids"
proof (cases c)
  case (Click role i)
  assume "ui_step R c a = (r, a')"
  with Click have "a' = start_clicked role i a" by (simp add: ui_step_def)
  then show ?thesis
    by (cases rule: start_clicked_cases [of role i a]) (auto simp: worker_ids_def show_dialog_def)
next
  case (Poll out)
  assume "ui_step R c a = (r, a')"
  with Poll show ?thesis
    using handle_all_started [of R out "a_queue a" a]
    by (auto simp: ui_step_def poll_events_def worker_ids_def Let_def split: if_splits prod.splits)
qed (auto simp: ui_step_def worker_ids_def fill_form_def type_passphrase_def type_message_def send_clicked_def send_file_clicked_def
    disconnect_session_def choose_tab_def on_tab_changed_def on_focus_in_def on_focus_out_def close_window_def on_tab_def Let_def
    split: option.splits if_splits sum.splits)

lemma run_ui_started: "\<exists>ids. worker_ids (run_ui R cs a) = worker_ids a @ ids"
proof (induction cs arbitrary: a)
  case (Cons c cs)
  obtain r b where s: "ui_step R c a = (r, b)" by (cases "ui_step R c a")
  from ui_step_started [OF s] Cons.IH [of b] s show ?case by auto
qed simp

text \<open>Once the window is closed, every worker was told to stop unless it reported an error.\<close>

definition all_stopped :: "(string \<times> app_event) set \<Rightarrow> app \<Rightarrow> bool" where
  "all_stopped E a \<longleftrightarrow>
     (\<forall>w \<in> set (a_started a). s_id w \<in> set (a_stopped a) \<or> (\<exists>e. (s_id w, Of_Worker (Ui_Error e)) \<in> E))"

lemma close_stops: "app_inv E a \<Longrightarrow> all_stopped E (close_window a)"
proof -
  assume inv: "app_inv E a"
  have "s_id w \<in> set (map (\<lambda>(_, t). s_id (t_worker t)) (a_sessions a))" if "(s_id w, w) \<in> set (members a)" for w
    using that by (force simp: members_def)
  with inv show ?thesis
    by (auto simp: app_inv_def all_stopped_def close_window_def)
qed

lemma run_ui_inv:
  assumes "app_inv E a" and "a_open a" and "emitted_in cs \<subseteq> E" and "distinct (worker_ids (run_ui R cs a))"
  shows "if a_open (run_ui R cs a) then app_inv E (run_ui R cs a) else all_stopped E (run_ui R cs a)"
  using assms
proof (induction cs arbitrary: a)
  case (Cons c cs)
  obtain r b where s: "ui_step R c a = (r, b)" by (cases "ui_step R c a")
  then have run: "run_ui R (c # cs) a = run_ui R cs b" using Cons.prems(2) by simp
  show ?case
  proof (cases "c = Close")
    case True
    with s have "b = close_window a" by (simp add: ui_step_def)
    then have "run_ui R cs b = b" "\<not> a_open b" "all_stopped E b"
      using close_stops [OF Cons.prems(1)] by (cases cs; simp add: close_window_def)+
    with run show ?thesis by simp
  next
    case False
    obtain ids where "worker_ids (run_ui R cs b) = worker_ids b @ ids" using run_ui_started by blast
    then have "distinct (worker_ids b)" using Cons.prems(4) run by simp
    moreover have "(sid, ev) \<in> E" if "c = Emitted sid ev" for sid ev
      using that Cons.prems(3) by (auto simp: emitted_in_def)
    ultimately have "app_inv E b" "a_open b"
      using ui_step_inv [OF Cons.prems(1) s False] Cons.prems(2) by auto
    moreover have "emitted_in cs \<subseteq> E" using Cons.prems(3) by (auto simp: emitted_in_def)
    ultimately show ?thesis using Cons.IH [of b] Cons.prems(4) run by simp
  qed
qed simp

section \<open>Events that raise nothing\<close>

lemma bit_length_bound: "n < 2 ^ k \<Longrightarrow> bit_length n \<le> k"
proof (induction n arbitrary: k rule: bit_length.induct)
  case (1 n)
  show ?case
  proof (cases "n = 0")
    case False
    with 1(2) obtain j where k: "k = Suc j" by (cases k) auto
    with 1(1) [OF False, of j] 1(2) False show ?thesis by (auto simp: bit_length.simps [of n])
  qed (simp add: bit_length.simps [of 0])
qed

lemma human_size_small: "n < 2 ^ 53 \<Longrightarrow> \<exists>txt. human_size n = Inr txt"
proof -
  assume n: "n < 2 ^ 53"
  then have "bit_length n - 53 = 0" using bit_length_bound [of n 53] by simp
  moreover have "(2 :: nat) ^ 53 < 2 ^ 1024" by (rule power_strict_increasing) simp_all
  ultimately have "float_of_nat n = Inr n"
    using n by (simp add: float_of_nat_def round_even_def Let_def)
  then show ?thesis by (simp add: human_size_def)
qed

lemma fingerprint_digits: "filter (\<lambda>c. c \<noteq> CHR '':'') (fingerprint_for_bytes b) = hex (take 8 (sha256 b))"
proof -
  let ?d = "hex (sha256 b)"
  have no_colon: "filter (\<lambda>c. c \<noteq> CHR '':'') (hex x) = hex x" for x
    using hex_is_text [of x] by (auto simp: filter_id_conv hex_digits_def)
  have part: "filter (\<lambda>c. c \<noteq> CHR '':'') (take n (drop m ?d)) = take n (drop m ?d)" for n m
    using no_colon [of "sha256 b"] by (auto simp: filter_id_conv dest: in_set_takeD in_set_dropD)
  have "take 16 ?d = take 4 ?d @ take 4 (drop 4 ?d) @ take 4 (drop 8 ?d) @ take 4 (drop 12 ?d)"
    using take_add [of 4 12 ?d] take_add [of 4 8 "drop 4 ?d"] take_add [of 4 4 "drop 8 ?d"] by simp
  moreover have "take 16 ?d = hex (take 8 (sha256 b))" using hex_take [of 8 "sha256 b"] by simp
  ultimately show ?thesis
    using part [of 4 0] part [of 4 4] part [of 4 8] part [of 4 12] by (simp add: fingerprint_for_bytes_def Let_def)
qed

lemma words_of_fingerprint: "fingerprint_to_words (fingerprint_for_bytes b) = Inr (join '' '' (map word_pair (take 8 (sha256 b))))"
  by (simp add: fingerprint_to_words_def fingerprint_digits fromhex_hex)

definition is_fingerprint :: "string \<Rightarrow> bool" where
  "is_fingerprint fp \<longleftrightarrow> (\<exists>b. fp = fingerprint_for_bytes b)"

definition own_entry :: "(json \<Rightarrow> exn + string) \<Rightarrow> json \<Rightarrow> bool" where
  "own_entry R e \<longleftrightarrow> (\<exists>ts peer direction txt at_time. e = history_entry ts peer direction txt \<and> R (JFloat ts) = Inr at_time)"

fun sane :: "(json \<Rightarrow> exn + string) \<Rightarrow> ui_event \<Rightarrow> bool" where
  "sane R (Identity_Loaded fp) = is_fingerprint fp"
| "sane R (Trust_Prompt _ fp) = is_fingerprint fp"
| "sane R (History_Loaded es) = list_all (own_entry R) es"
| "sane R (File_Offered _ n) = (nat n < 2 ^ 53)"
| "sane R (File_Progress _ k n) = (k < 2 ^ 53 \<and> nat n < 2 ^ 53)"
| "sane R (File_Received _ n _) = (nat n < 2 ^ 53)"
| "sane R (Sending_Progress _ k n) = (k < 2 ^ 53 \<and> n < 2 ^ 53)"
| "sane R (File_Sent _ n) = (n < 2 ^ 53)"
| "sane R _ = True"

lemma update_transfer_bar_small: "k < 2 ^ 53 \<Longrightarrow> n < 2 ^ 53 \<Longrightarrow> fst (update_transfer_bar sid l k n a) = Inr ()"
  using human_size_small [of k] human_size_small [of n] by (auto simp: update_transfer_bar_def Let_def)

lemma sized_line_small: "n < 2 ^ 53 \<Longrightarrow> fst (sized_line n ev sid a) = Inr ()"
  using human_size_small [of n] by (auto simp: sized_line_def)

lemma replay_own: "list_all (own_entry R) es \<Longrightarrow> fst (replay_entries R peer sid es a) = Inr ()"
proof (induction es arbitrary: a)
  case (Cons e es)
  then obtain ts p d m at_time where "e = history_entry ts p d m" "R (JFloat ts) = Inr at_time"
    by (auto simp: own_entry_def)
  then have "read_entry R e = Inr (d = ''sent'', m, Some at_time)"
    by (simp add: read_entry_def history_entry_def)
  with Cons show ?case by simp
qed simp

lemma fst_and_next: "fst (m a) = Inr u \<Longrightarrow> (\<And>b. fst (f u b) = Inr v) \<Longrightarrow> fst (and_next m f a) = Inr v"
  by (auto simp: and_next_def split: prod.splits sum.splits)

lemma history_own: "list_all (own_entry R) es \<Longrightarrow> fst (history_loaded R peer sid es a) = Inr ()"
proof -
  assume es: "list_all (own_entry R) es"
  obtain ok b where "ensure_session_tab peer sid a = (ok, b)" by (cases "ensure_session_tab peer sid a")
  then show ?thesis
    by (cases ok) (auto simp: history_loaded_def intro!: fst_and_next [OF replay_own [OF es]])
qed

lemma sane_event: "sane R ev \<Longrightarrow> fst (worker_event R env sid ev a) = Inr ()"
  using words_of_fingerprint update_transfer_bar_small sized_line_small history_own
  by (cases ev) (auto simp: worker_event_def file_event_def is_fingerprint_def Let_def)

definition sane_queue :: "(json \<Rightarrow> exn + string) \<Rightarrow> (string \<times> app_event) list \<Rightarrow> bool" where
  "sane_queue R evs \<longleftrightarrow> (\<forall>(sid, ev) \<in> set evs. case ev of Of_Worker u \<Rightarrow> sane R u | Focus_Requested \<Rightarrow> True)"

lemma handle_all_sane:
  assumes "sane_queue R evs" and "a_queue a = evs"
  shows "\<exists>a'. handle_all R out evs a = (Inr (), a') \<and> a_queue a' = [] \<and> a_polling a' = a_polling a"
  using assms
proof (induction evs arbitrary: a)
  case (Cons p evs)
  obtain sid ev where p: "p = (sid, ev)" by (cases p)
  let ?b = "a\<lparr>a_queue := evs\<rparr>"
  obtain x c where h: "handle_event R (out (length evs)) sid ev ?b = (x, c)"
    by (cases "handle_event R (out (length evs)) sid ev ?b")
  have "fst (handle_event R (out (length evs)) sid ev ?b) = Inr ()"
    using Cons.prems(1) sane_event by (auto simp: sane_queue_def p handle_event_def split: app_event.splits)
  with h have x: "x = Inr ()" by simp
  have "a_queue c = evs" "a_polling c = a_polling a"
    using handle_event_effect [OF h] by (auto simp: effect_def graduates_def given_up_def ledger_def)
  moreover have "sane_queue R evs" using Cons.prems(1) by (simp add: sane_queue_def)
  ultimately show ?case
    using Cons.IH [of c] h x by (simp add: p and_next_def)
qed simp

section \<open>Spoken fingerprints\<close>

lemma nibbles: "unat (drop_bit 4 (b :: byte)) = unat b div 16" "unat (b AND 15) = unat b mod 16"
proof -
  show "unat (drop_bit 4 b) = unat b div 16"
    by (simp add: drop_bit_eq_div unat_div)
  have "b AND 15 = take_bit 4 b" by (simp add: take_bit_eq_mask mask_eq_exp_minus_1)
  then show "unat (b AND 15) = unat b mod 16" by (simp add: take_bit_eq_mod unat_mod)
qed

lemma nibbles_lt: "unat (drop_bit 4 (b :: byte)) < 16" "unat (b AND 15) < 16"
  using unsigned_less [of b, where 'a = nat] by (simp_all add: nibbles)

lemma join_inject:
  assumes "length xs = length ys" and "\<forall>x \<in> set xs \<union> set ys. CHR '' '' \<notin> set x" and "join '' '' xs = join '' '' ys"
  shows "xs = ys"
  using assms
proof (induction xs ys rule: list_induct2)
  case (Cons x xs y ys)
  have w: "takeWhile (\<lambda>c. c \<noteq> CHR '' '') (z @ '' '' @ r) = z" if "CHR '' '' \<notin> set z" for z r
    using that by (auto simp: takeWhile_append)
  show ?case
  proof (cases xs)
    case Nil
    with Cons show ?thesis by simp
  next
    case (Cons u us)
    with Cons.hyps obtain v vs where ys: "ys = v # vs" by (cases ys) auto
    have j: "x @ '' '' @ join '' '' xs = y @ '' '' @ join '' '' ys"
      using Cons.prems(2) \<open>xs = u # us\<close> ys by simp
    then have "x = y"
      using w [of x "join '' '' xs"] w [of y "join '' '' ys"] Cons.prems(1) by simp
    with j Cons.IH Cons.prems(1) show ?thesis by simp
  qed
qed simp

lemma word_parts:
  "takeWhile (\<lambda>c. c \<noteq> CHR ''-'') (word_pair b) = FINGERPRINT_ADJECTIVES ! unat (drop_bit 4 b)"
  "drop 1 (dropWhile (\<lambda>c. c \<noteq> CHR ''-'') (word_pair b)) = FINGERPRINT_NOUNS ! unat (b AND 15)"
  "CHR '' '' \<notin> set (word_pair b)" "word_pair b \<noteq> []"
proof -
  have n: "unat (drop_bit 4 b) < length FINGERPRINT_ADJECTIVES" "unat (b AND 15) < length FINGERPRINT_NOUNS"
    using nibbles_lt [of b] by (simp_all add: FINGERPRINT_ADJECTIVES_def FINGERPRINT_NOUNS_def eval_nat_numeral)
  have plain: "\<forall>w \<in> set FINGERPRINT_ADJECTIVES. CHR ''-'' \<notin> set w \<and> CHR '' '' \<notin> set w"
    "\<forall>w \<in> set FINGERPRINT_NOUNS. CHR '' '' \<notin> set w"
    by (simp_all add: FINGERPRINT_ADJECTIVES_def FINGERPRINT_NOUNS_def)
  define x where "x = FINGERPRINT_ADJECTIVES ! unat (drop_bit 4 b)"
  define y where "y = FINGERPRINT_NOUNS ! unat (b AND 15)"
  have "CHR ''-'' \<notin> set x" "CHR '' '' \<notin> set x" "CHR '' '' \<notin> set y"
    using plain nth_mem [OF n(1)] nth_mem [OF n(2)] by (simp_all add: x_def y_def)
  moreover have "word_pair b = x @ CHR ''-'' # y" by (simp add: word_pair_def x_def y_def)
  ultimately show "takeWhile (\<lambda>c. c \<noteq> CHR ''-'') (word_pair b) = x" "drop 1 (dropWhile (\<lambda>c. c \<noteq> CHR ''-'') (word_pair b)) = y"
    "CHR '' '' \<notin> set (word_pair b)" "word_pair b \<noteq> []"
    by (auto simp: takeWhile_append dropWhile_append)
qed

lemma word_pair_inject: "word_pair b = word_pair c \<Longrightarrow> b = c"
proof -
  have len: "length FINGERPRINT_ADJECTIVES = 16" "length FINGERPRINT_NOUNS = 16"
    "distinct FINGERPRINT_ADJECTIVES" "distinct FINGERPRINT_NOUNS"
    by (simp_all add: FINGERPRINT_ADJECTIVES_def FINGERPRINT_NOUNS_def)
  assume "word_pair b = word_pair c"
  then have "unat (drop_bit 4 b) = unat (drop_bit 4 c)" "unat (b AND 15) = unat (c AND 15)"
    using word_parts(1,2) [of b] word_parts(1,2) [of c] len nibbles_lt [of b] nibbles_lt [of c]
    by (metis nth_eq_iff_index_eq)+
  then have "unat b = unat c"
    unfolding nibbles by (metis div_mod_decomp)
  then show "b = c" by (simp add: word_unat_eq_iff)
qed

lemma same_words:
  "fingerprint_to_words (fingerprint_for_bytes a) = fingerprint_to_words (fingerprint_for_bytes b) \<longleftrightarrow>
     fingerprint_for_bytes a = fingerprint_for_bytes b"
proof
  assume "fingerprint_to_words (fingerprint_for_bytes a) = fingerprint_to_words (fingerprint_for_bytes b)"
  then have "map word_pair (take 8 (sha256 a)) = map word_pair (take 8 (sha256 b))"
    by (intro join_inject) (auto simp: words_of_fingerprint length_sha256 word_parts(3))
  then have "take 8 (sha256 a) = take 8 (sha256 b)"
    using inj_map_eq_map [of word_pair] word_pair_inject by (metis injI)
  then show "fingerprint_for_bytes a = fingerprint_for_bytes b" by (simp add: fingerprint_split)
qed simp

end
