(* ===== verification/Worker_Safety.thy ===== *)
theory Worker_Safety
  imports App_Safety
begin

text \<open>
  What a worker puts on the event queue, whatever its peer sends: events the window handles
  without an exception (\<open>sane\<close>).
\<close>

section \<open>Sizes\<close>

text \<open>AES-GCM: the plaintext is not longer than the ciphertext with its tag.\<close>

definition aead_shrinks :: "cryptolib \<Rightarrow> bool" where
  "aead_shrinks L \<longleftrightarrow> (\<forall>key nonce c aad p. gcm_decrypt L key nonce c aad = Inr p \<longrightarrow> length p \<le> length c)"

lemma recv_loop_exact: "recv_loop n buf ps = (Inr out, ps') \<Longrightarrow> length buf \<le> n \<Longrightarrow> length out = n"
proof (induction n buf ps rule: recv_loop.induct)
  case (1 n buf ps)
  obtain chunk ps1 where r: "recv (n - length buf) ps = (chunk, ps1)"
    by (cases "recv (n - length buf) ps")
  then have "length chunk \<le> n - length buf"
    by (auto simp: recv_def split: list.splits if_splits)
  then show ?case
    using 1 r by (cases "length buf < n \<and> chunk \<noteq> []") (auto simp: recv_loop.simps [of n buf] split: if_splits)
qed

lemma recv_bytes_length:
  assumes "recv_bytes sock = (Inr data, sock')"
  shows "length data \<le> MAX_FRAME_SIZE"
proof -
  obtain r sock1 where h: "recv_exact HEADER_SIZE sock = (r, sock1)" by (cases "recv_exact HEADER_SIZE sock")
  with assms obtain header where "r = Inr header" by (cases r) (auto simp: recv_bytes_def)
  with assms h have n: "from_bytes header \<le> MAX_FRAME_SIZE" and "recv_exact (from_bytes header) sock1 = (Inr data, sock')"
    by (auto simp: recv_bytes_def Let_def split: if_splits)
  then have "length data = from_bytes header"
    using recv_loop_exact [of "from_bytes header" "[]" "incoming sock1" data]
    by (auto simp: recv_exact_def map_sum_Inr split: prod.splits)
  with n show ?thesis by simp
qed

lemma unpad_length: "unpad q = Inr p \<Longrightarrow> length p \<le> length q"
  by (auto simp: unpad_def Let_def split: if_splits)

lemma authenticate_length:
  assumes "aead_shrinks L" and "authenticate_and_commit L key c aad ct pending ch = (Inr p, ch')"
  shows "length p \<le> length ct"
  using assms(2)
proof (rule authenticate_Inr)
  fix mk nonce payload
  assume d: "aes_gcm_decrypt L mk nonce ct aad = Inr payload"
    and p: "(if pad_messages ch then unpad payload else Inr payload) = Inr p"
  from d assms(1) have "length payload \<le> length ct"
    by (auto simp: aes_gcm_decrypt_def aead_shrinks_def map_sum_Inr)
  with p unpad_length [of payload p] show ?thesis by (auto split: if_splits)
qed

lemma decrypt_length:
  assumes "aead_shrinks L" and dec: "decrypt L f ch = (Inr p, ch')"
  shows "length p \<le> length f"
proof (cases "parse_frame f")
  case (Inl e)
  with dec show ?thesis by (simp add: decrypt_unparsed)
next
  case (Inr b)
  then obtain np c aad ct where parse: "parse_frame f = Inr (np, c, aad, ct)" by (cases b) auto
  have "passes_window c ch"
    using decrypt_stale [OF parse, of ch L] dec by force
  note d = decrypt_parsed [OF parse this, of L]
  have "\<exists>key pending ch1. authenticate_and_commit L key c aad ct pending ch1 = (Inr p, ch')"
    using dec unfolding d by (auto simp: Let_def split: if_splits sum.splits)
  then have "length p \<le> length ct" using authenticate_length [OF assms(1)] by blast
  with parse_frame_Inr(3) [OF parse] show ?thesis by simp
qed

section \<open>The worker\<close>

definition small_transfer :: "transfer \<Rightarrow> bool" where
  "small_transfer t \<longleftrightarrow> int (t_received t) \<le> t_size t \<and> t_size t \<le> MAX_FILE_SIZE"

definition sane_worker :: "(json \<Rightarrow> exn + string) \<Rightarrow> worker \<Rightarrow> bool" where
  "sane_worker R w \<longleftrightarrow>
     list_all (sane R) (r_events w) \<and> (\<forall>(fid, t) \<in> set (r_inbound w). small_transfer t) \<and>
     (\<forall>h es. w_history w = Some h \<longrightarrow> h_entries h = JArr es \<longrightarrow> list_all (own_entry R) es)"

definition keeps_sane :: "(json \<Rightarrow> exn + string) \<Rightarrow> (worker, 'a) stepper \<Rightarrow> bool" where
  "keeps_sane R m \<longleftrightarrow> (\<forall>w. sane_worker R w \<longrightarrow> sane_worker R (snd (m w)))"

lemma keeps_saneD: "keeps_sane R m \<Longrightarrow> sane_worker R w \<Longrightarrow> m w = (r, w') \<Longrightarrow> sane_worker R w'"
  by (metis keeps_sane_def snd_conv)

lemma keeps_sane_and_next: "keeps_sane R m \<Longrightarrow> (\<And>a. keeps_sane R (f a)) \<Longrightarrow> keeps_sane R (and_next m f)"
  unfolding keeps_sane_def [of R "and_next m f"]
proof (intro allI impI)
  fix w
  assume m: "keeps_sane R m" and f: "\<And>a. keeps_sane R (f a)" and w: "sane_worker R w"
  obtain r w' where n: "and_next m f w = (r, w')" by (cases "and_next m f w")
  then have "sane_worker R w'"
    by (cases rule: and_next_cases) (use w keeps_saneD [OF m w] keeps_saneD [OF f] in blast)+
  with n show "sane_worker R (snd (and_next m f w))" by simp
qed

lemma sane_emit: "sane_worker R (emit_event ev w) \<longleftrightarrow> sane R ev \<and> sane_worker R w"
  by (auto simp: sane_worker_def emit_event_def)

lemma sane_worker_fields [simp]:
  "sane_worker R (w\<lparr>w_trust := t\<rparr>) = sane_worker R w" "sane_worker R (w\<lparr>w_limiter := l\<rparr>) = sane_worker R w"
  "sane_worker R (w\<lparr>w_peer := p\<rparr>) = sane_worker R w" "sane_worker R (w\<lparr>w_sock := s\<rparr>) = sane_worker R w"
  "sane_worker R (w\<lparr>w_channel := c\<rparr>) = sane_worker R w" "sane_worker R (w\<lparr>w_attempt := n\<rparr>) = sane_worker R w"
  "sane_worker R (w\<lparr>w_shown_for := x\<rparr>) = sane_worker R w" "sane_worker R (w\<lparr>w_log := g\<rparr>) = sane_worker R w"
  "sane_worker R (w\<lparr>r_files := fs\<rparr>) = sane_worker R w"
  by (simp_all add: sane_worker_def)

lemma keeps_sane_pure: "keeps_sane R (pure r)"
  by (simp add: keeps_sane_def pure_def)

lemma keeps_sane_on_conn: "keeps_sane R (on_conn f)"
  by (simp add: keeps_sane_def on_conn_def split_beta split: option.split)

lemma keeps_sane_recv_wire: "keeps_sane R (recv_wire f)"
  unfolding recv_wire_def by (intro keeps_sane_and_next keeps_sane_on_conn keeps_sane_pure)

lemma keeps_sane_check_pin: "keeps_sane R (check_pin L trusts name pub)"
  by (auto simp: keeps_sane_def check_pin_def pin_new_def sane_emit is_fingerprint_def Let_def split: sum.split option.split prod.split)

lemma keeps_sane_exchange: "keeps_sane R (exchange_identity_and_pin L trusts)"
proof -
  have "keeps_sane R (\<lambda>w. (Inr (), w\<lparr>w_peer := name\<rparr>))" for name
    by (simp add: keeps_sane_def)
  then have "keeps_sane R (and_next (on_conn f) (\<lambda>_. and_next (on_conn recv_json) (\<lambda>intro.
      and_next (pure (parse_introduction intro)) (\<lambda>(name, pub).
      and_next (check_pin L trusts name pub) (\<lambda>_ w. (Inr (), w\<lparr>w_peer := name\<rparr>))))))" for f :: "socket \<Rightarrow> (exn + unit) \<times> socket"
    by (auto intro!: keeps_sane_and_next keeps_sane_on_conn keeps_sane_pure keeps_sane_check_pin)
  then show ?thesis by (simp add: keeps_sane_def exchange_identity_and_pin_def)
qed

lemma keeps_sane_finish: "keeps_sane R (finish_responder L st msg3 now)" "keeps_sane R (finish_initiator L ist msg2 now)"
  by (auto simp: keeps_sane_def finish_responder_def finish_initiator_def split_beta Let_def split: sum.split)

lemma keeps_sane_host: "keeps_sane R (host_handshake L a)"
proof -
  have "keeps_sane R (and_next (on_conn g) (\<lambda>_. and_next (recv_wire from_wire3) (\<lambda>msg3. finish_responder L st msg3 now)))"
    for g :: "socket \<Rightarrow> (exn + unit) \<times> socket" and st now
    by (intro keeps_sane_and_next keeps_sane_on_conn keeps_sane_recv_wire keeps_sane_finish)
  then have "keeps_sane R (\<lambda>w. let (msg2, st) = responder_respond L (w_me w) msg1 (a_eph a)
      in and_next (on_conn (send_json (to_wire2 msg2))) (\<lambda>_. and_next (recv_wire from_wire3)
           (\<lambda>msg3. finish_responder L st msg3 (a_joined a))) w)" for msg1
    by (simp add: keeps_sane_def split_beta)
  then show ?thesis
    unfolding host_handshake_def by (intro keeps_sane_and_next keeps_sane_exchange keeps_sane_recv_wire)
qed

lemma sane_set_deadline [simp]: "sane_worker R (set_deadline d w) = sane_worker R w"
  by (simp add: set_deadline_def)

lemma sane_accept_loop: "sane_worker R w \<Longrightarrow> sane_worker R (snd (accept_loop L db as w))"
proof (induction L db as w rule: accept_loop.induct)
  case (3 L db a rest w)
  obtain blocked db1 where b: "sql_is_blocked (a_ip a) (a_time a) db = (blocked, db1)"
    by (cases "sql_is_blocked (a_ip a) (a_time a) db")
  show ?case
  proof (cases blocked)
    case True
    with 3 b show ?thesis by (simp add: sane_emit)
  next
    case False
    let ?w = "emit_event (Status ''Connection from'') (w\<lparr>w_sock := Some ((a_sock a)\<lparr>deadline := True\<rparr>)\<rparr>)"
    obtain r w1 where h: "host_handshake L a ?w = (r, w1)" by (cases "host_handshake L a ?w")
    have "sane_worker R w1"
      by (rule keeps_saneD [OF keeps_sane_host _ h]) (simp add: sane_emit 3(3))
    with False b h 3(2) show ?thesis by (auto simp: sane_emit split: sum.split)
  qed
qed simp_all

lemma sane_run_host: "sane_worker R w \<Longrightarrow> sane_worker R (snd (run_host L bound db as w))"
  by (simp add: run_host_def Let_def sane_accept_loop sane_emit split: option.split)

lemma keeps_sane_connect: "keeps_sane R (run_connect L c)"
proof -
  have "keeps_sane R (and_next (on_conn g) (\<lambda>_. and_next (recv_wire from_wire2) (\<lambda>msg2.
      and_next (finish_initiator L st msg2 now) (\<lambda>msg3.
      and_next (on_conn (send_json (to_wire3 msg3))) (\<lambda>_ w. (Inr True, set_deadline False w))))))"
    for g :: "socket \<Rightarrow> (exn + unit) \<times> socket" and st now
    by (intro keeps_sane_and_next keeps_sane_on_conn keeps_sane_recv_wire keeps_sane_finish) (simp add: keeps_sane_def)
  then have "keeps_sane R (\<lambda>w. let (msg1, st) = initiator_start L (w_me w) (c_eph c)
      in and_next (on_conn (send_json (to_wire1 msg1))) (\<lambda>_. and_next (recv_wire from_wire2) (\<lambda>msg2.
           and_next (finish_initiator L st msg2 (c_joined c)) (\<lambda>msg3.
           and_next (on_conn (send_json (to_wire3 msg3))) (\<lambda>_ w. (Inr True, set_deadline False w))))) w)"
    by (simp add: keeps_sane_def split_beta)
  from keeps_sane_and_next [OF keeps_sane_exchange this] show ?thesis
    by (auto simp: run_connect_def keeps_sane_def sane_emit Let_def split: option.split)
qed

section \<open>Messages\<close>

text \<open>
  An exception that ends the thread may leave a transfer behind that outgrew its size; the
  events are sane all the same.
\<close>

definition ends_sane :: "(json \<Rightarrow> exn + string) \<Rightarrow> (exn + 'a) \<times> worker \<Rightarrow> bool" where
  "ends_sane R res \<longleftrightarrow>
     list_all (sane R) (r_events (snd res)) \<and> (\<forall>a. fst res = Inr a \<longrightarrow> sane_worker R (snd res))"

lemma ends_sane_pair [simp]:
  "ends_sane R (Inl e, w) \<longleftrightarrow> list_all (sane R) (r_events w)" "ends_sane R (Inr a, w) \<longleftrightarrow> sane_worker R w"
  by (auto simp: ends_sane_def sane_worker_def)

lemma sane_worker_events: "sane_worker R w \<Longrightarrow> list_all (sane R) (r_events w)"
  by (simp add: sane_worker_def)

lemma keeps_sane_ends: "keeps_sane R m \<Longrightarrow> sane_worker R w \<Longrightarrow> ends_sane R (m w)"
  by (cases "m w") (auto simp: ends_sane_def dest: keeps_saneD sane_worker_events)

text \<open>The window can show the time of the entry that is added.\<close>

definition clock_shown :: "(json \<Rightarrow> exn + string) \<Rightarrow> luck \<Rightarrow> bool" where
  "clock_shown R l \<longleftrightarrow> (\<exists>at_time. R (JFloat (l_ts l)) = Inr at_time)"

lemma sane_append_history:
  assumes "clock_shown R l"
  shows "keeps_sane R (worker_append_history L d txt l)"
  unfolding keeps_sane_def
proof (intro allI impI)
  fix w
  assume w: "sane_worker R w"
  show "sane_worker R (snd (worker_append_history L d txt l w))"
  proof (cases "w_history w")
    case None
    with w show ?thesis by (simp add: worker_append_history_def)
  next
    case (Some h)
    obtain r h' fs where a: "append_history L (w_peer w) d txt (l_ts l) (l_nonce l) (l_disk l) h (r_files w) = (r, h', fs)"
      by (cases "append_history L (w_peer w) d txt (l_ts l) (l_nonce l) (l_disk l) h (r_files w)")
    have "own_entry R (history_entry (l_ts l) (w_peer w) d txt)"
      using assms by (auto simp: own_entry_def clock_shown_def)
    then have "list_all (own_entry R) es" if "h_entries h' = JArr es" for es
      using a that w Some by (auto simp: append_history_def sane_worker_def Let_def split: json.splits prod.splits)
    then have "sane_worker R (w\<lparr>w_history := Some h', r_files := fs\<rparr>)" "sane_worker R (w\<lparr>w_history := None, r_files := fs\<rparr>)"
      using w by (auto simp: sane_worker_def)
    then show ?thesis
      by (cases r) (simp_all add: worker_append_history_def Some a sane_emit)
  qed
qed

lemma small_update:
  "\<forall>(fid, t) \<in> set d. small_transfer t \<Longrightarrow> small_transfer t' \<Longrightarrow> \<forall>(fid, t) \<in> set (AList.update k t' d). small_transfer t"
  by (induction d) auto

lemma small_delete: "\<forall>(fid, t) \<in> set d. small_transfer t \<Longrightarrow> \<forall>(fid, t) \<in> set (AList.delete k d). small_transfer t"
  by (auto simp: AList.delete_eq)

lemma sane_inbound:
  "sane_worker R w \<Longrightarrow> \<forall>(fid, t) \<in> set d. small_transfer t \<Longrightarrow> sane_worker R (w\<lparr>r_inbound := d\<rparr>)"
  by (simp add: sane_worker_def)

lemma sane_file_offer: "sane_worker R w \<Longrightarrow> sane_worker R (snd (handle_file_offer S io body w))"
proof -
  assume w: "sane_worker R w"
  have taken: "sane_worker R (emit_event (File_Offered name len) (w\<lparr>r_files := fs, r_inbound := AList.update fid
      \<lparr>t_name = name, t_size = len, t_sha256 = sha, t_received = 0, t_path = p, t_handle = h, t_digest = []\<rparr> (r_inbound w)\<rparr>))"
    if "\<not> len > MAX_FILE_SIZE" "\<not> len \<le> 0" for name len fs fid sha p h
  proof -
    have "sane R (File_Offered name len)" using that by (simp add: MAX_FILE_SIZE_def)
    moreover have "sane_worker R (w\<lparr>r_files := fs\<rparr>\<lparr>r_inbound := AList.update fid
        \<lparr>t_name = name, t_size = len, t_sha256 = sha, t_received = 0, t_path = p, t_handle = h, t_digest = []\<rparr> (r_inbound w)\<rparr>)"
      using w that by (intro sane_inbound small_update) (auto simp: small_transfer_def sane_worker_def)
    ultimately show ?thesis by (simp add: sane_emit)
  qed
  show ?thesis
    using w taken
    by (auto simp: handle_file_offer_def Let_def sane_emit split: sum.split prod.split)
qed

lemma sane_write_handle [simp]: "sane_worker R (write_handle t b w) = sane_worker R w"
  by (simp add: write_handle_def split: option.split)

lemma sane_unlink [simp]: "sane_worker R (unlink io t w) = sane_worker R w"
  by (simp add: unlink_def)

lemma handle_inbound [simp]: "r_inbound (write_handle t b r) = r_inbound r"
  by (simp add: write_handle_def split: option.split)

lemma sane_file_chunk:
  assumes w: "sane_worker R w" and small: "length body \<le> MAX_FRAME_SIZE"
  shows "ends_sane R (handle_file_chunk io body w)"
proof (cases "length body < 16 \<or> map_of (r_inbound w) (take 16 body) = None")
  case True
  with w show ?thesis by (auto simp: handle_file_chunk_def Let_def sane_emit)
next
  case False
  then obtain t where t: "map_of (r_inbound w) (take 16 body) = Some t" and len: "\<not> length body < 16" by auto
  have inb: "\<forall>(fid, t) \<in> set (r_inbound w). small_transfer t" using w by (simp add: sane_worker_def)
  then have "small_transfer t" using map_of_SomeD [OF t] by auto
  define t1 where "t1 = t\<lparr>t_digest := t_digest t @ drop 16 body, t_received := t_received t + length (drop 16 body)\<rparr>"
  let ?r1 = "emit_event (File_Progress (t_name t1) (t_received t1) (t_size t1))
    ((write_handle t (drop 16 body) w)\<lparr>r_inbound := AList.update (take 16 body) t1 (r_inbound w)\<rparr>)"
  have "sane R (File_Progress (t_name t1) (t_received t1) (t_size t1))"
  proof -
    have "int (t_received t) \<le> 209715200" "t_size t \<le> 209715200"
      using \<open>small_transfer t\<close> by (auto simp: small_transfer_def MAX_FILE_SIZE_def)
    with small have "t_received t + length (drop 16 body) < 2 ^ 53" "nat (t_size t) < 2 ^ 53"
      by (simp_all add: MAX_FRAME_SIZE_def nat_less_iff)
    then show ?thesis by (simp add: t1_def)
  qed
  then have evs: "list_all (sane R) (r_events ?r1)"
    using w by (simp add: emit_event_def sane_worker_def write_handle_def split: option.split)
  have size: "nat (t_size t1) < 2 ^ 53"
    using \<open>small_transfer t\<close> by (simp add: t1_def small_transfer_def MAX_FILE_SIZE_def nat_less_iff)
  have forgot: "sane_worker R (?r1\<lparr>r_inbound := AList.delete (take 16 body) (r_inbound w)\<rparr>)"
    using evs inb small_delete [OF inb] w
    by (auto simp: sane_worker_def emit_event_def write_handle_def split: option.splits)
  have kept: "sane_worker R ?r1" if "int (t_received t1) < t_size t1"
  proof -
    have "small_transfer t1" using that \<open>small_transfer t\<close> by (simp add: small_transfer_def t1_def)
    from small_update [OF inb this] show ?thesis
      using evs w by (auto simp: sane_worker_def emit_event_def write_handle_def split: option.splits)
  qed
  show ?thesis
  proof (cases "cut_write io")
    case (Some n)
    have "sane_worker R ((write_handle t (take n (drop 16 body)) w)\<lparr>r_inbound := AList.delete (take 16 body) (r_inbound w)\<rparr>)"
      by (intro sane_inbound small_delete [OF inb]) (simp add: w)
    with Some t len show ?thesis by (simp add: handle_file_chunk_def Let_def sane_emit)
  next
    case None
    have r: "handle_file_chunk io body w =
      (let r2 = ?r1\<lparr>r_inbound := AList.delete (take 16 body) (r_inbound w)\<rparr>
       in if int (t_received t1) < t_size t1 then (Inr (), ?r1)
          else if \<not> close_ok io then (Inl OSError, ?r1)
          else if hex (sha256 (t_digest t1)) \<noteq> t_sha256 t1
          then (Inr (), unlink io t1 (emit_event (Security_Alert (Integrity_Failed (t_name t1))) r2))
          else (Inr (), emit_event (File_Received (t_name t1) (t_size t1) (t_path t1)) r2))"
      using None t len by (simp add: handle_file_chunk_def Let_def t1_def emit_event_def AList.delete_update_same)
    show ?thesis
      unfolding r Let_def using kept evs forgot size by (simp add: sane_emit)
  qed
qed

lemma sane_plaintext:
  assumes w: "sane_worker R w" and small: "length plaintext \<le> MAX_FRAME_SIZE" and clock: "clock_shown R l"
  shows "ends_sane R (handle_plaintext L S l plaintext w)"
proof (cases plaintext)
  case (Cons b body)
  have msg: "keeps_sane R (and_next (worker_append_history L ''received'' t l) (\<lambda>_ w. (Inr (), emit_event (Text_Message (w_peer w) t) w)))" for t
    by (intro keeps_sane_and_next sane_append_history [OF clock]) (simp add: keeps_sane_def sane_emit)
  have "keeps_sane R (handle_file_offer S (l_io l) body)"
    by (simp add: keeps_sane_def sane_file_offer)
  then show ?thesis
    using sane_file_chunk [OF w, of body "l_io l"] keeps_sane_ends [OF msg w] keeps_sane_ends [of R _ w] small w Cons
    by (auto simp: handle_plaintext_def Let_def)
qed (simp add: handle_plaintext_def w)

lemma decrypt_step_length:
  assumes "aead_shrinks L" and "decrypt_step L framed w = (Inr p, w')"
  shows "length p \<le> length framed"
  using assms decrypt_length [OF assms(1), of framed]
  by (auto simp: decrypt_step_def split: option.splits prod.splits)

lemma keeps_sane_decrypt_step: "keeps_sane R (decrypt_step L framed)"
  by (auto simp: keeps_sane_def decrypt_step_def split_beta split: option.split)

lemma on_conn_frame: "on_conn recv_bytes w = (Inr framed, w') \<Longrightarrow> length framed \<le> MAX_FRAME_SIZE"
  by (auto simp: on_conn_def split: option.splits prod.splits dest: recv_bytes_length)

lemma sane_recv_loop:
  assumes "aead_shrinks L"
  shows "sane_worker R w \<Longrightarrow> \<forall>l \<in> set ls. clock_shown R l \<Longrightarrow> ends_sane R (worker_recv_loop L S ls w)"
proof (induction ls arbitrary: w)
  case (Cons l ls)
  obtain r w1 where rd: "on_conn recv_bytes w = (r, w1)" by (cases "on_conn recv_bytes w")
  note w1 = keeps_saneD [OF keeps_sane_on_conn Cons.prems(1) rd]
  show ?case
  proof (cases r)
    case (Inl e)
    with rd w1 show ?thesis by (simp add: sane_worker_events)
  next
    case (Inr framed)
    obtain q w2 where d: "decrypt_step L framed w1 = (q, w2)" by (cases "decrypt_step L framed w1")
    note w2 = keeps_saneD [OF keeps_sane_decrypt_step w1 d]
    show ?thesis
    proof (cases q)
      case bad: (Inl e)
      have "ends_sane R (worker_recv_loop L S ls (emit_event (Security_Alert (Rejected_Frame e)) w2))"
        using Cons.prems(2) w2 by (intro Cons.IH) (simp_all add: sane_emit)
      with rd Inr d bad w2 show ?thesis by (simp add: sane_worker_events)
    next
      case ok: (Inr p)
      have small: "length p \<le> MAX_FRAME_SIZE"
        using on_conn_frame [of w framed w1] decrypt_step_length [OF assms, of framed w1 p w2] rd Inr d ok by simp
      obtain x w3 where h: "handle_plaintext L S l p w2 = (x, w3)" by (cases "handle_plaintext L S l p w2")
      have "ends_sane R (x, w3)"
        using sane_plaintext [OF w2 small, of l L S] Cons.prems(2) h by simp
      with rd Inr d ok h Cons show ?thesis by (cases x) simp_all
    qed
  qed
qed simp

section \<open>The loop of connections\<close>

lemma entries_of_sub: "entries_of peer es = Inr xs \<Longrightarrow> set xs \<subseteq> set es"
  by (induction es arbitrary: xs) (auto simp: bind_exn_Inr split: if_splits)

lemma keeps_sane_replay: "keeps_sane R replay_history"
  unfolding keeps_sane_def
proof (intro allI impI)
  fix w
  assume w: "sane_worker R w"
  have "list_all (own_entry R) xs" if "w_history w = Some h" "for_peer p h = Inr xs" for h p xs
    using that w entries_of_sub [of p _ xs]
    by (fastforce simp: for_peer_def sane_worker_def list_all_iff split: json.splits if_splits)
  then show "sane_worker R (snd (replay_history w))"
    using w by (auto simp: replay_history_def Let_def sane_emit split: option.split sum.split)
qed

lemma sane_disconnect: "sane_worker R w \<Longrightarrow> sane_worker R (disconnect kept w)"
  by (simp add: disconnect_def abort_inbound_transfers_def sane_worker_def)

lemma keeps_sane_wait: "keeps_sane R (reconnect_wait stopped)"
  by (auto simp: keeps_sane_def reconnect_wait_def Let_def sane_emit split: sum.split)

lemma keeps_sane_establish: "keeps_sane R (establish L p)"
proof -
  have "keeps_sane R (run_host L bound db as)" for bound db as
    by (simp add: keeps_sane_def sane_run_host)
  then have "keeps_sane R (and_next (run_host L (p_bound p) (p_rows p) (p_arrivals p)) (\<lambda>(connected, _). pure (Inr connected)))"
    by (intro keeps_sane_and_next) (auto intro: keeps_sane_pure)
  with keeps_sane_connect show ?thesis by (auto simp: keeps_sane_def establish_def split: role.split)
qed

definition session_clocks :: "(json \<Rightarrow> exn + string) \<Rightarrow> pass list \<Rightarrow> bool" where
  "session_clocks R ps \<longleftrightarrow> (\<forall>p \<in> set ps. \<forall>l \<in> set (p_lucks p). clock_shown R l)"

lemma sane_session:
  assumes "aead_shrinks L" and "sane_worker R w" and "\<forall>l \<in> set ls. clock_shown R l"
  shows "ends_sane R (and_next replay_history (\<lambda>_ w. worker_recv_loop L S ls (emit_event Handshake_Done w)) w)"
proof -
  obtain r w1 where h: "replay_history w = (r, w1)" by (cases "replay_history w")
  note w1 = keeps_saneD [OF keeps_sane_replay assms(2) h]
  then have "ends_sane R (worker_recv_loop L S ls (emit_event Handshake_Done w1))"
    by (intro sane_recv_loop assms) (simp add: sane_emit)
  with h w1 show ?thesis by (cases r) (simp_all add: and_next_def sane_worker_events)
qed

lemma sane_run_loop:
  assumes "aead_shrinks L"
  shows "sane_worker R w \<Longrightarrow> session_clocks R ps \<Longrightarrow> ends_sane R (run_loop L S ps w)"
proof (induction ps arbitrary: w)
  case (Cons p ps)
  obtain r w1 where e: "establish L p w = (r, w1)" by (cases "establish L p w")
  note w1 = keeps_saneD [OF keeps_sane_establish Cons.prems(1) e]
  have again: "ends_sane R (case reconnect_wait stopped v of
      (Inl e', w2) \<Rightarrow> (Inl e', w2) | (Inr False, w2) \<Rightarrow> (Inr (), w2) | (Inr True, w2) \<Rightarrow> run_loop L S ps w2)"
    if v: "sane_worker R v" for stopped v
  proof -
    obtain x w2 where x: "reconnect_wait stopped v = (x, w2)" by (cases "reconnect_wait stopped v")
    note w2 = keeps_saneD [OF keeps_sane_wait v x]
    with x Cons.IH [OF w2] Cons.prems(2) show ?thesis
      by (auto simp: session_clocks_def sane_worker_events split: sum.split bool.split)
  qed
  show ?case
  proof (cases r)
    case (Inl x)
    with e w1 again [OF w1] show ?thesis by (cases x) (simp_all add: sane_emit)
  next
    case (Inr connected)
    let ?run = "and_next replay_history (\<lambda>_ w. worker_recv_loop L S (p_lucks p) (emit_event Handshake_Done w)) (w1\<lparr>w_attempt := 0\<rparr>)"
    obtain y w2 where y: "?run = (y, w2)" by (cases ?run)
    have "ends_sane R (y, w2)"
      using sane_session [OF assms, of R "w1\<lparr>w_attempt := 0\<rparr>" "p_lucks p" S] w1 Cons.prems(2) y by (simp add: session_clocks_def)
    then show ?thesis
      using e Inr w1 y again [of "emit_event Connection_Lost (disconnect (p_kept p) w2)" "p_stopped_waiting p"]
      by (cases connected; cases y) (simp_all add: sane_disconnect sane_emit Let_def)
  qed
qed simp

section \<open>Sending\<close>

lemma keeps_sane_send_raw: "keeps_sane R (send_raw L env b)"
  using keeps_sane_on_conn [of R "send_bytes f" for f]
  by (auto simp: keeps_sane_def send_raw_def split: option.split sum.split prod.split)

lemma sane_send:
  assumes "clock_shown R l"
  shows "keeps_sane R (worker_send L env l m)"
proof -
  have "keeps_sane R (and_next (pure (encode_utf8 m)) (\<lambda>b. and_next (send_raw L env (MSG_TEXT # b)) (\<lambda>_.
      worker_append_history L ''sent'' m l)))"
    by (intro keeps_sane_and_next keeps_sane_pure keeps_sane_send_raw sane_append_history [OF assms])
  then show ?thesis by (simp add: keeps_sane_def worker_send_def)
qed

definition total_read :: "(bytes option \<times> send_env \<times> bool) list \<Rightarrow> nat" where
  "total_read pieces = sum_list (map (\<lambda>(c, _). case c of None \<Rightarrow> 0 | Some b \<Rightarrow> length b) pieces)"

lemma sane_send_chunks:
  "sane_worker R w \<Longrightarrow> sent + total_read pieces < 2 ^ 53 \<Longrightarrow> whole < 2 ^ 53 \<Longrightarrow>
     sane_worker R (snd (send_chunks L fid name whole sent pieces w))"
proof (induction L fid name whole sent pieces w rule: send_chunks.induct)
  case (3 L file_id name whole sent chunk env same rest w)
  show ?case
  proof (cases same)
    case True
    obtain r w1 where s: "send_raw L env (encode_file_chunk file_id chunk) w = (r, w1)"
      by (cases "send_raw L env (encode_file_chunk file_id chunk) w")
    note w1 = keeps_saneD [OF keeps_sane_send_raw 3(2) s]
    have "sane_worker R (emit_event (Sending_Progress name (sent + length chunk) whole) w1)"
      using w1 3(3,4) by (simp add: sane_emit total_read_def)
    from 3(1) [OF _ this] True 3(3,4) s w1 show ?thesis
      by (cases r) (simp_all add: and_next_def total_read_def add.assoc)
  qed (use 3 in simp)
qed simp_all

lemma sane_send_file:
  assumes w: "sane_worker R w" and small: "total_read pieces < 2 ^ 53"
  shows "sane_worker R (snd (send_file L path len first fid env pieces w))"
proof -
  have failed: "sane_worker R (emit_event (Send_Failed name) v)" if "sane_worker R v" for name v
    using that by (simp add: sane_emit)
  have "sane_worker R v" if "and_next (send_raw L env b) (\<lambda>_. send_chunks L fid name n 0 pieces) w = (r, v)" "n < 2 ^ 53" for b name n r v
    using that(1)
  proof (cases rule: and_next_cases)
    case (1 e)
    from keeps_saneD [OF keeps_sane_send_raw w 1(1)] show ?thesis .
  next
    case (2 u y)
    from sane_send_chunks [OF keeps_saneD [OF keeps_sane_send_raw w 2(1)], of 0 pieces n L fid name] small that(2) 2(2)
    show ?thesis by simp
  qed
  then show ?thesis
    using w failed
    by (auto simp: send_file_def Let_def sane_emit MAX_FILE_SIZE_def split: option.split prod.split sum.split)
qed

section \<open>Runs of a worker\<close>

definition own_history :: "(json \<Rightarrow> exn + string) \<Rightarrow> worker \<Rightarrow> bool" where
  "own_history R w \<longleftrightarrow> (\<forall>h es. w_history w = Some h \<longrightarrow> h_entries h = JArr es \<longrightarrow> list_all (own_entry R) es)"

text \<open>The flag says whether the thread is still running: an exception ends it.\<close>

inductive worker_reaches ::
    "cryptolib \<Rightarrow> pemlib \<Rightarrow> (json \<Rightarrow> exn + string) \<Rightarrow> (json \<Rightarrow> string) \<Rightarrow> bool \<Rightarrow> worker \<Rightarrow> bool"
  for L P R S where
  started: "start_worker L P name role passphrase saving priv salt fs = (Inr w, fs') \<Longrightarrow> own_history R w \<Longrightarrow>
    worker_reaches L P R S True w"
| looped: "worker_reaches L P R S True w \<Longrightarrow> session_clocks R ps \<Longrightarrow> run_loop L S ps w = (r, w') \<Longrightarrow>
    worker_reaches L P R S (r = Inr ()) w'"
| sent: "worker_reaches L P R S True w \<Longrightarrow> clock_shown R l \<Longrightarrow> worker_send L env l m w = (r, w') \<Longrightarrow>
    worker_reaches L P R S True w'"
| file_sent: "worker_reaches L P R S True w \<Longrightarrow> total_read pieces < 2 ^ 53 \<Longrightarrow>
    send_file L path len first fid env pieces w = (r, w') \<Longrightarrow> worker_reaches L P R S True w'"

lemma sane_started:
  assumes "start_worker L P name role passphrase saving priv salt fs = (Inr w, fs')" and "own_history R w"
  shows "sane_worker R w"
proof -
  have "r_events w = [Identity_Loaded (id_fingerprint (w_me w))]" "r_inbound w = []"
    using assms(1) by (auto simp: start_worker_def new_worker_def Let_def split: prod.splits sum.splits if_splits)
  with assms(2) show ?thesis
    by (auto simp: sane_worker_def own_history_def is_fingerprint_def id_fingerprint_def)
qed

lemma worker_reaches_sane:
  assumes "aead_shrinks L"
  shows "worker_reaches L P R S alive w \<Longrightarrow> list_all (sane R) (r_events w) \<and> (alive \<longrightarrow> sane_worker R w)"
proof (induction rule: worker_reaches.induct)
  case (started name role passphrase saving priv salt fs w fs')
  from sane_started [OF started] show ?case by (simp add: sane_worker_events)
next
  case (looped w ps r w')
  then have "ends_sane R (r, w')" using sane_run_loop [OF assms, of R w ps S] by simp
  then show ?case by (cases r) (simp_all add: sane_worker_events)
next
  case (sent w l env m r w')
  then have "sane_worker R w'" using keeps_saneD [OF sane_send] by blast
  then show ?case by (simp add: sane_worker_events)
next
  case (file_sent w pieces path len first fid env r w')
  then have "sane_worker R w'" using sane_send_file [of R w pieces L path len first fid env] by simp
  then show ?case by (simp add: sane_worker_events)
qed

end
