(* ===== verification/Notification.thy ===== *)
theory Notification
  imports Prelude
begin

text \<open>
  \<open>_notify_desktop\<close> of \<open>gui.py\<close>: the command that shows a message on each platform, and where the
  text ends for the program that is given it as a script. What the command does, and the
  exceptions of starting it, which are all swallowed, are left out.
\<close>

datatype platform = Darwin | Linux | Windows | Other_Platform

text \<open>\<open>subprocess.run\<close> with a list of arguments; the balloon is \<open>_notify_windows\<close>.\<close>

datatype notification = Run "string list" | Balloon string string | No_Notification

text \<open>\<open>replace('"', '\\"')\<close>: a backslash in front of every quotation mark.\<close>

definition escape_quotes :: "string \<Rightarrow> string" where
  "escape_quotes s = concat (map (\<lambda>c. if c = CHR 0x22 then [CHR 0x5C, CHR 0x22] else [c]) s)"

definition display_script :: "string \<Rightarrow> string \<Rightarrow> string" where
  "display_script title message =
     ''display notification '' @ CHR 0x22 # escape_quotes message @ CHR 0x22 # '' with title '' @
     CHR 0x22 # escape_quotes title @ [CHR 0x22]"

definition notify_desktop :: "platform \<Rightarrow> bool \<Rightarrow> string \<Rightarrow> string \<Rightarrow> notification" where
  "notify_desktop system has_notify_send title message =
     (case system of
        Darwin \<Rightarrow> Run [''osascript'', ''-e'', display_script title message]
      | Linux \<Rightarrow> if has_notify_send then Run [''notify-send'', ''--'', title, message] else No_Notification
      | Windows \<Rightarrow> Balloon title message
      | Other_Platform \<Rightarrow> No_Notification)"

section \<open>Where a literal ends\<close>

text \<open>
  A text literal of AppleScript goes to the next quotation mark that no backslash escapes. What
  follows the mark that closes a literal, if one does:
\<close>

fun after_literal :: "string \<Rightarrow> string option" where
  "after_literal [] = None"
| "after_literal (c # r) =
     (if c = CHR 0x22 then Some r
      else if c = CHR 0x5C then (case r of [] \<Rightarrow> None | _ # t \<Rightarrow> after_literal t)
      else after_literal r)"

lemma escape_quotes_simps [simp]:
  "escape_quotes [] = []"
  "escape_quotes (c # s) = (if c = CHR 0x22 then CHR 0x5C # CHR 0x22 # escape_quotes s else c # escape_quotes s)"
  "escape_quotes (s @ t) = escape_quotes s @ escape_quotes t"
  by (simp_all add: escape_quotes_def)

lemma after_escaped: "CHR 0x5C \<notin> set s \<Longrightarrow> after_literal (escape_quotes s @ r) = after_literal r"
  by (induction s) auto

text \<open>What follows the literal of the message.\<close>

definition message_ends :: "string \<Rightarrow> string option" where
  "message_ends script = after_literal (drop (length ''display notification '' + 1) script)"

lemma message_part:
  "message_ends (display_script title message) =
     after_literal (escape_quotes message @ CHR 0x22 # '' with title '' @ CHR 0x22 # escape_quotes title @ [CHR 0x22])"
  by (simp add: message_ends_def display_script_def)

end
