(* ===== verification/Window_Properties.thy ===== *)
theory Window_Properties
  imports Worker_Safety Notification Demo_Lib
begin

text \<open>
  The properties of the window: its books of workers and tabs, the events it handles, the words
  in which it shows a fingerprint, and its notifications.
\<close>

section \<open>Workers and tabs\<close>

definition failed :: "ui_call list \<Rightarrow> string \<Rightarrow> bool" where
  "failed cs sid \<longleftrightarrow> (\<exists>e. Emitted sid (Of_Worker (Ui_Error e)) \<in> set cs)"

lemma member_tab: "distinct (keys (a_sessions a)) \<Longrightarrow>
  (sid, w) \<in> set (members a) \<longleftrightarrow> (\<exists>t. map_of (a_sessions a) sid = Some t \<and> t_worker t = w)"
  by (force simp: members_def map_of_eq_Some_iff)

lemma new_app_open: "a_open new_app"
  by (simp add: new_app_def)

text \<open>
  C17: Whatever the human does and the workers report, no worker is forgotten. While the window
  is open, Host and Connect are enabled exactly if no worker is starting; the key of a tab is
  its worker's, which was started and not stopped; a worker that was started is starting, has
  its tab, was told to stop, or reported an error; and the title counts the unread messages, of
  which there are none while the window has the focus. Once the window is closed, every worker
  was told to stop unless it reported an error.
\<close>

theorem every_worker_accounted:
  assumes "run_ui R cs new_app = a" and "distinct (map s_id (a_started a))"
  shows "(a_open a \<longrightarrow>
      (a_buttons a \<longleftrightarrow> a_pending a = None) \<and>
      (\<forall>sid t. map_of (a_sessions a) sid = Some t \<longrightarrow>
         s_id (t_worker t) = sid \<and> t_worker t \<in> set (a_started a) \<and> sid \<notin> set (a_stopped a)) \<and>
      (\<forall>w \<in> set (a_started a). a_pending a = Some w \<or> (\<exists>t. map_of (a_sessions a) (s_id w) = Some t \<and> t_worker t = w) \<or>
         s_id w \<in> set (a_stopped a) \<or> failed cs (s_id w)) \<and>
      a_title a = (if a_unread a = 0 then None else Some (a_unread a)) \<and> (a_focused a \<longrightarrow> a_unread a = 0)) \<and>
    (\<not> a_open a \<longrightarrow> (\<forall>w \<in> set (a_started a). s_id w \<in> set (a_stopped a) \<or> failed cs (s_id w)))"
proof -
  have f: "(sid, Of_Worker (Ui_Error e)) \<in> emitted_in cs \<Longrightarrow> failed cs sid" for sid e
    by (auto simp: emitted_in_def failed_def)
  have r: "if a_open a then app_inv (emitted_in cs) a else all_stopped (emitted_in cs) a"
    by (rule run_ui_inv [OF new_app_inv new_app_open subset_refl, of R cs, unfolded assms(1) worker_ids_def, OF assms(2)])
  show ?thesis
  proof (cases "a_open a")
    case True
    with r have inv: "app_inv (emitted_in cs) a" by simp
    then have "distinct (keys (a_sessions a))" by (simp add: app_inv_def)
    note m = member_tab [OF this]
    have "s_id (t_worker t) = sid \<and> t_worker t \<in> set (a_started a) \<and> sid \<notin> set (a_stopped a)"
      if "map_of (a_sessions a) sid = Some t" for sid t
    proof -
      from that m have "(sid, t_worker t) \<in> set (members a)" by blast
      with inv show ?thesis by (auto simp: app_inv_def)
    qed
    moreover have "a_pending a = Some w \<or> (\<exists>t. map_of (a_sessions a) (s_id w) = Some t \<and> t_worker t = w) \<or>
        s_id w \<in> set (a_stopped a) \<or> failed cs (s_id w)" if "w \<in> set (a_started a)" for w
      using inv that f m [of "s_id w" w] by (auto simp: app_inv_def)
    moreover have "a_buttons a \<longleftrightarrow> a_pending a = None" "badge_ok a"
      using inv by (simp_all add: app_inv_def)
    ultimately show ?thesis using True by (simp add: badge_ok_def)
  next
    case False
    with r f show ?thesis by (auto simp: all_stopped_def)
  qed
qed

definition demo_outside :: outside where
  "demo_outside = \<lparr>o_peer = JStr ''bob'', o_trusts = True\<rparr>"

text \<open>One worker completes its handshake, the next one fails, the window is closed.\<close>

definition demo_calls :: "ui_call list" where
  "demo_calls =
     [Click Host ''1'', Emitted ''1'' (Of_Worker Handshake_Done), Poll (\<lambda>_. demo_outside),
      Click Connect ''2'', Emitted ''2'' (Of_Worker (Ui_Error (Unexpected OSError))), Poll (\<lambda>_. demo_outside), Close]"

lemma demo_port: "strip ''8000'' = ''8000''" "int_of_text ''8000'' = Inr 8000"
proof -
  show s: "strip ''8000'' = ''8000''"
    by (rule strip_ascii) (simp_all add: py_space_def)
  show "int_of_text ''8000'' = Inr 8000"
    by (simp add: int_of_text_def s code_points_ascii digit_of_def digit_zeros_def number_of_def int_max_str_digits_def)
qed

lemma demo_user: "strip ''alice'' = ''alice''"
  by (rule strip_ascii) (simp_all add: py_space_def)


lemmas ui_defs = ui_step_def start_clicked_def poll_events_def and_next_def handle_event_def worker_event_def handshake_done_def
  ensure_session_tab_def worker_for_def update_tab_title_def on_tab_def new_tab_def log_line_def set_chat_input_enabled_def tell_def
  is_pending_def show_dialog_def close_window_def demo_outside_def

lemma every_worker_accounted_witness:
  "map s_id (a_started (run_ui (\<lambda>_. Inl ValueError) demo_calls new_app)) = [''1'', ''2''] \<and>
   a_stopped (run_ui (\<lambda>_. Inl ValueError) demo_calls new_app) = [''1''] \<and> failed demo_calls ''2''"
proof -
  let ?a = "run_ui (\<lambda>_. Inl ValueError) demo_calls new_app"
  have run: "map s_id (a_started ?a) = [''1'', ''2'']" "a_stopped ?a = [''1'']" "\<not> a_open ?a"
    by (simp_all add: demo_calls_def new_app_def ui_defs demo_port demo_user Let_def truthy_def)
  then have "distinct (map s_id (a_started ?a))" by simp
  from every_worker_accounted [OF refl this] run(3)
  have all: "\<forall>w \<in> set (a_started ?a). s_id w \<in> set (a_stopped ?a) \<or> failed demo_calls (s_id w)" by simp
  have "''2'' \<in> set (map s_id (a_started ?a))" by (simp only: run(1)) simp
  then obtain w where w: "w \<in> set (a_started ?a)" "s_id w = ''2''" by auto
  with all have "''2'' \<in> set (a_stopped ?a) \<or> failed demo_calls ''2''" by auto
  with run show ?thesis by simp
qed

section \<open>Events\<close>

text \<open>
  C18: An event of one worker does not touch the tab of another, and an event of a worker that
  is neither starting nor has a tab changes nothing at all; the two events that are about the
  user's own identity and about a question to the human are the exceptions.
\<close>

theorem events_stay_in_their_tab:
  assumes "handle_event R env sid ev a = (r, a')"
    and "\<And>fp. ev \<noteq> Of_Worker (Identity_Loaded fp)" and "\<And>name fp. ev \<noteq> Of_Worker (Trust_Prompt name fp)"
  shows "(other \<noteq> sid \<longrightarrow> map_of (a_sessions a') other = map_of (a_sessions a) other) \<and>
    (worker_for sid a = None \<longrightarrow> a' = a)"
  using handle_event_effect [OF assms(1)] assms(2,3) by (auto simp: effect_def is_global_def confined_def)

text \<open>A message for a worker that was disconnected.\<close>

lemma events_stay_in_their_tab_witness:
  "snd (handle_event (\<lambda>_. Inl ValueError) demo_outside ''1'' (Of_Worker (Text_Message (JStr ''bob'') ''hi'')) new_app) = new_app"
proof -
  have none: "worker_for ''1'' new_app = None" by (simp add: worker_for_def new_app_def)
  obtain r a where run: "handle_event (\<lambda>_. Inl ValueError) demo_outside ''1'' (Of_Worker (Text_Message (JStr ''bob'') ''hi'')) new_app = (r, a)"
    by (cases "handle_event (\<lambda>_. Inl ValueError) demo_outside ''1'' (Of_Worker (Text_Message (JStr ''bob'') ''hi'')) new_app")
  from events_stay_in_their_tab [OF this] none run show ?thesis by simp
qed

text \<open>
  One call of the timer handles all events, if each carries a fingerprint of the program, sizes
  below \<open>2 ^ 53\<close> and history entries as the program writes them.
\<close>

lemma window_keeps_polling:
  assumes "sane_queue R (a_queue a)" and "poll_events R out a = (r, a')"
  shows "r = Inr () \<and> a_queue a' = [] \<and> a_polling a' = a_polling a"
  using handle_all_sane [OF assms(1) refl, of out] assms(2) by (auto simp: poll_events_def)

text \<open>
  C19: No peer can stop the window. Take any workers, started on a history of the program's own
  entries, and let them connect, shake hands, receive and send whatever comes; as long as the
  clock readings can be shown and the files sent are below \<open>2 ^ 53\<close> bytes, one call of the timer
  handles all their events without an exception, and the timer is set again.
\<close>

theorem no_peer_stops_the_window:
  assumes "aead_shrinks L"
    and "\<forall>(sid, ev) \<in> set (a_queue a). ev = Focus_Requested \<or>
      (\<exists>alive w u. worker_reaches L P R S alive w \<and> u \<in> set (r_events w) \<and> ev = Of_Worker u)"
    and "poll_events R out a = (r, a')"
  shows "r = Inr () \<and> a_queue a' = [] \<and> a_polling a' = a_polling a"
proof (rule window_keeps_polling [OF _ assms(3)])
  show "sane_queue R (a_queue a)"
    using assms(2) worker_reaches_sane [OF assms(1), of P R S]
    by (fastforce simp: sane_queue_def list_all_iff)
qed

definition new_bob :: worker where
  "new_bob = new_worker ''bob'' Host (new_identity demo ''bob'' [2]) new_trust_store
     (save_identity demo_pem (new_identity demo ''bob'' [2]) GUI_KEY_DIR None (\<lambda>_. None))"

definition busy_app :: app where
  "busy_app = new_app\<lparr>a_queue := [(''1'', Of_Worker (Identity_Loaded (id_fingerprint (w_me new_bob)))), (''1'', Focus_Requested)]\<rparr>"

lemma no_peer_stops_the_window_witness:
  "a_queue (snd (poll_events (\<lambda>_. Inr ''12:00'') (\<lambda>_. demo_outside) busy_app)) = [] \<and>
   a_polling (snd (poll_events (\<lambda>_. Inr ''12:00'') (\<lambda>_. demo_outside) busy_app))"
proof -
  let ?R = "\<lambda>_. Inr ''12:00''" and ?S = "\<lambda>_. []"
  have shrinks: "aead_shrinks demo"
    by (auto simp: aead_shrinks_def demo_def demo_open_def split: if_splits)
  have "start_worker demo demo_pem ''bob'' Host None False [2] [] (\<lambda>_. None) = (Inr new_bob, r_files new_bob)"
    by (simp add: start_worker_def gui_load_or_create_identity_def load_store_def save_identity_def trust_path_def
        key_path_def path_join_def truthy_def new_bob_def new_worker_def Let_def)
  then have "worker_reaches demo demo_pem ?R ?S True new_bob"
    by (rule worker_reaches.started) (simp add: own_history_def new_bob_def new_worker_def)
  moreover have "Identity_Loaded (id_fingerprint (w_me new_bob)) \<in> set (r_events new_bob)"
    by (simp add: new_bob_def new_worker_def)
  ultimately have "\<forall>(sid, ev) \<in> set (a_queue busy_app). ev = Focus_Requested \<or>
      (\<exists>alive w u. worker_reaches demo demo_pem ?R ?S alive w \<and> u \<in> set (r_events w) \<and> ev = Of_Worker u)"
    by (auto simp: busy_app_def)
  moreover have "a_polling busy_app" by (simp add: busy_app_def new_app_def)
  moreover obtain r b where run: "poll_events ?R (\<lambda>_. demo_outside) busy_app = (r, b)"
    by (cases "poll_events ?R (\<lambda>_. demo_outside) busy_app")
  ultimately have "a_queue b = [] \<and> a_polling b"
    using no_peer_stops_the_window [OF shrinks _ run] by blast
  with run show ?thesis by simp
qed

section \<open>Spoken fingerprints\<close>

text \<open>
  C35: The words that two humans compare. Every fingerprint has words, and two keys have the
  same words exactly if the first eight bytes of their SHA-256 digests agree, so the words are
  as strong as the digits, and no stronger.
\<close>

theorem spoken_fingerprint:
  "(\<exists>words. fingerprint_to_words (fingerprint_for_bytes a) = Inr words) \<and>
   (fingerprint_to_words (fingerprint_for_bytes a) = fingerprint_to_words (fingerprint_for_bytes b) \<longleftrightarrow>
      take 8 (sha256 a) = take 8 (sha256 b))"
  by (simp add: same_words fingerprint_split) (simp add: words_of_fingerprint)

section \<open>Notifications\<close>

text \<open>
  C15: On macOS the notification is a script with the message of the peer in it as a literal. A
  message without a backslash stays inside the literal, quotation marks included. But a
  backslash in front of a quotation mark ends it: whatever the peer wrote behind the two is
  part of the script.
\<close>

theorem notification_quoting:
  "(CHR 0x5C \<notin> set message \<longrightarrow>
     (\<exists>script. notify_desktop Darwin has title message = Run [''osascript'', ''-e'', script] \<and>
       message_ends script = Some ('' with title '' @ CHR 0x22 # escape_quotes title @ [CHR 0x22]))) \<and>
   (CHR 0x5C \<notin> set start \<longrightarrow>
     (\<exists>script. notify_desktop Darwin has title (start @ CHR 0x5C # CHR 0x22 # command) = Run [''osascript'', ''-e'', script] \<and>
       message_ends script =
         Some (escape_quotes command @ CHR 0x22 # '' with title '' @ CHR 0x22 # escape_quotes title @ [CHR 0x22])))"
  by (simp add: notify_desktop_def message_part after_escaped)

lemma notification_quoting_witness:
  "\<exists>script. notify_desktop Darwin False ''New message from bob'' (''hi'' @ CHR 0x5C # CHR 0x22 # '' & (do shell script x)'') =
     Run [''osascript'', ''-e'', script] \<and>
   message_ends script = Some ('' & (do shell script x)'' @ CHR 0x22 # '' with title '' @ CHR 0x22 # ''New message from bob'' @ [CHR 0x22])"
  using notification_quoting [of "[]" False "''New message from bob''" "''hi''" "'' & (do shell script x)''"] by simp

end
