(* ===== verification/Channel_Types.thy ===== *)
theory Channel_Types
  imports Channel_Safety Channel_Session
begin

text \<open>
  The lengths of the keys a channel holds: an invariant of every call, and with it the complete
  list of the exceptions of \<open>encrypt\<close>.
\<close>

section \<open>Chains\<close>

definition sized_chain :: "receiving_chain \<Rightarrow> bool" where
  "sized_chain rc \<longleftrightarrow> length (rc_key rc) = 32 \<and> (\<forall>(n, k) \<in> set (rc_skipped rc). length k = 32)"

definition sized_keys :: "channel \<Rightarrow> bool" where
  "sized_keys ch \<longleftrightarrow>
     length (root_key ch) = 32 \<and> length (my_ratchet_pub ch) = 32 \<and> length (peer_ratchet_pub ch) = 32 \<and>
     length (sc_key (send_chain ch)) = 32 \<and> (\<forall>(s, rc) \<in> set (recv_chains ch). sized_chain rc)"

lemma length_kdf_chain_step: "length (fst (kdf_chain_step k)) = 32" "length (snd (kdf_chain_step k)) = 32"
  by (simp_all add: kdf_chain_step_def Let_def)

lemma length_dh_ratchet_step:
  assumes "hkdf_laws L"
  shows "length (fst (dh_ratchet_step L r d)) = 32" and "length (snd (dh_ratchet_step L r d)) = 32"
  using assms by (simp_all add: dh_ratchet_step_def Let_def hkdf_def hkdf_laws_def)

lemma sized_new_chain: "length k = 32 \<Longrightarrow> sized_chain (new_receiving_chain k)"
  by (simp add: sized_chain_def new_receiving_chain_def)

lemma length_next_key: "length (snd (fst (next_key sc))) = 32" "length (sc_key (snd (next_key sc))) = 32"
  by (simp_all add: next_key_def Let_def split_beta length_kdf_chain_step)

lemma set_update_sub: "set (AList.update k v d) \<subseteq> insert (k, v) (set d)"
  by (induction d) auto

lemma sized_derive_until: "sized_chain rc \<Longrightarrow> sized_chain (snd (derive_until c mk rc))"
proof (induction c mk rc rule: derive_until.induct)
  case (1 c mk rc)
  have "sized_chain (rc\<lparr>rc_key := snd (kdf_chain_step (rc_key rc)), rc_next := n\<rparr>)" for n
    using 1(3) by (simp add: sized_chain_def length_kdf_chain_step)
  moreover have "sized_chain (rc\<lparr>rc_key := snd (kdf_chain_step (rc_key rc)), rc_next := n,
      rc_skipped := AList.update m (fst (kdf_chain_step (rc_key rc))) (rc_skipped rc)\<rparr>)" for n m
    using 1(3) set_update_sub [of m "fst (kdf_chain_step (rc_key rc))" "rc_skipped rc"]
    by (auto simp: sized_chain_def length_kdf_chain_step)
  ultimately show ?case
    using 1 by (simp add: derive_until.simps [of c mk rc] split_beta Let_def)
qed

lemma set_delete_sub: "set (AList.delete k d) \<subseteq> set d"
  by (auto simp: AList.delete_eq)

lemma set_fold_delete_sub: "set (fold AList.delete ks d) \<subseteq> set d"
  by (induction ks arbitrary: d) (use set_delete_sub in fastforce)+

lemma set_evict_sub: "set (evict_lowest n d) \<subseteq> set d"
  by (simp add: evict_lowest_def Let_def set_fold_delete_sub)

lemma sized_key_for:
  assumes "sized_chain rc"
  shows "sized_chain (snd (key_for n rc))"
proof -
  have "sized_chain (rc\<lparr>rc_skipped := d\<rparr>)" if "set d \<subseteq> set (rc_skipped rc)" for d
    using assms that by (auto simp: sized_chain_def)
  moreover have "sized_chain (evict_excess_skipped (snd (derive_until n None rc)))"
    using sized_derive_until [OF assms, of n None] set_evict_sub
    by (fastforce simp: sized_chain_def evict_excess_skipped_def)
  ultimately show ?thesis
    using assms set_delete_sub [of n "rc_skipped rc"]
    by (auto simp: key_for_def split_beta split: option.splits)
qed

section \<open>The channel\<close>

lemma sized_new_channel:
  assumes "dh_laws L" and "length sk = 32" and "length rk = 32" and "length r0 = 32" and "length pub = 32"
  shows "sized_keys (new_channel L sk rk r0 priv pub ps now)"
  using assms sized_new_chain [of rk]
  by (simp add: sized_keys_def new_channel_def new_sending_chain_def dh_laws_def)

lemma sized_keys_cong:
  assumes "sized_keys ch" and "root_key ch' = root_key ch" and "my_ratchet_pub ch' = my_ratchet_pub ch"
    and "peer_ratchet_pub ch' = peer_ratchet_pub ch" and "sc_key (send_chain ch') = sc_key (send_chain ch)"
    and "recv_chains ch' = recv_chains ch"
  shows "sized_keys ch'"
  using assms by (simp add: sized_keys_def)

lemma sized_encrypt:
  assumes "dh_laws L" and "hkdf_laws L" and "sized_keys ch"
  shows "sized_keys (snd (encrypt L env p ch))"
proof (cases rule: encrypt_cases [of env ch L p])
  case plain
  with assms(3) show ?thesis by (simp add: encrypt_with_header_eq sized_keys_def length_next_key)
next
  case (rekey dh lg)
  with assms length_dh_ratchet_step [OF assms(2)] show ?thesis
    by (simp add: encrypt_with_header_eq sized_keys_def length_next_key dh_laws_def)
next
  case refused
  with assms(3) show ?thesis by simp
qed

lemma sized_update_chain:
  assumes "sized_keys ch" and "sized_chain rc"
  shows "sized_keys (ch\<lparr>recv_chains := AList.update s rc (recv_chains ch)\<rparr>)"
  using assms set_update_sub [of s rc "recv_chains ch"] by (auto simp: sized_keys_def)

lemma sized_mark: "sized_keys (mark_seen c ch) = sized_keys ch"
  by (simp add: sized_keys_def)

lemma sized_compute:
  assumes "hkdf_laws L" and "compute_receive_ratchet_step L pub ch = Inr q"
  shows "length (pr_root_key q) = 32" and "sized_chain (pr_chain q)" and "pr_peer_pub q = pub"
  using assms(2) length_dh_ratchet_step [OF assms(1)] sized_new_chain
  by (auto simp: compute_receive_ratchet_step_def bind_exn_Inr Let_def split_beta)

lemma sized_commit:
  assumes "sized_keys ch" and "length (pr_root_key q) = 32" and "sized_chain (pr_chain q)" and "length (pr_peer_pub q) = 32"
  shows "sized_keys (commit_receive_ratchet_step q c ch)"
proof -
  have "sized_chain rc" if "(s, rc) \<in> set (evict_lowest MAX_RETAINED_CHAINS (AList.update c (pr_chain q) (recv_chains ch)))" for s rc
    using that set_evict_sub set_update_sub assms(1,3) by (fastforce simp: sized_keys_def)
  with assms show ?thesis by (auto simp: sized_keys_def)
qed

lemma sized_chain_of: "sized_keys ch \<Longrightarrow> map_of (recv_chains ch) s = Some rc \<Longrightarrow> sized_chain rc"
  by (auto simp: sized_keys_def dest: map_of_SomeD)

lemma sized_decrypt_Inl:
  assumes "sized_keys ch" and "decrypt L f ch = (Inl e, ch')"
  shows "sized_keys ch'"
  using assms(2)
proof (cases rule: decrypt_Inl_cases)
  case (untouched lg)
  with assms(1) show ?thesis by (simp add: sized_keys_def)
next
  case (advanced lg np c aad ct s rc)
  have "sized_keys (ch\<lparr>recv_chains := AList.update s (snd (key_for (c - s) rc)) (recv_chains ch)\<rparr>)"
    by (rule sized_update_chain [OF assms(1) sized_key_for [OF sized_chain_of [OF assms(1) advanced(5)]]])
  with advanced(6) show ?thesis by (simp add: sized_keys_def)
qed

lemma sized_decrypt_Inr:
  assumes "hkdf_laws L" and "sized_keys ch" and dec: "decrypt L f ch = (Inr p, ch')"
  shows "sized_keys ch'"
proof (cases "parse_frame f")
  case (Inl e)
  with dec show ?thesis by (simp add: decrypt_unparsed)
next
  case (Inr b)
  then obtain np c aad ct where parse: "parse_frame f = Inr (np, c, aad, ct)" by (cases b) auto
  show ?thesis
  proof (cases "passes_window c ch")
    case False
    with decrypt_stale [OF parse False, of L] dec show ?thesis by auto
  next
    case True
    note d = decrypt_parsed [OF parse True, of L]
    show ?thesis
    proof (cases "announces np ch")
      case an: True
      then obtain pub where pub: "np = Some pub" "length pub = 32"
        using parse_frame_Inr(4) [OF parse] by (auto simp: announces_def)
      with an d dec obtain q where q: "compute_receive_ratchet_step L pub ch = Inr q"
        by (cases "compute_receive_ratchet_step L pub ch") auto
      let ?q = "q\<lparr>pr_chain := snd (key_for 0 (pr_chain q))\<rparr>"
      have "authenticate_and_commit L (fst (key_for 0 (pr_chain q))) c aad ct (Some ?q) ch = (Inr p, ch')"
        using d dec an q pub by simp
      then have ch': "ch' = mark_seen c (commit_receive_ratchet_step ?q c ch)"
        by (rule authenticate_Inr) simp
      have "sized_keys (commit_receive_ratchet_step ?q c ch)"
        by (rule sized_commit [OF assms(2)])
          (use sized_compute [OF assms(1) q] pub(2) sized_key_for in simp_all)
      then show ?thesis by (simp add: ch' sized_mark)
    next
      case False
      with d dec obtain s where s: "chain_start_for c ch = Inr s"
        by (cases "chain_start_for c ch") auto
      then obtain rc where rc: "map_of (recv_chains ch) s = Some rc"
        using chain_start_for_Inr(3) by blast
      let ?ch = "ch\<lparr>recv_chains := AList.update s (snd (key_for (c - s) rc)) (recv_chains ch)\<rparr>"
      have "authenticate_and_commit L (fst (key_for (c - s) rc)) c aad ct None ?ch = (Inr p, ch')"
        using d dec False s rc by (simp add: Let_def)
      then have "ch' = mark_seen c ?ch"
        by (rule authenticate_Inr) simp
      then show ?thesis
        using sized_update_chain [OF assms(2) sized_key_for [OF sized_chain_of [OF assms(2) rc]]] by (simp add: sized_mark)
    qed
  qed
qed

lemma sized_perform: "dh_laws L \<Longrightarrow> hkdf_laws L \<Longrightarrow> sized_keys ch \<Longrightarrow> sized_keys (snd (perform L c ch))"
proof (cases c)
  case (Encrypt env p)
  assume "dh_laws L" "hkdf_laws L" "sized_keys ch"
  with Encrypt show ?thesis by (simp add: sized_encrypt)
next
  case (Decrypt f)
  assume laws: "hkdf_laws L" "sized_keys ch"
  obtain r ch' where "decrypt L f ch = (r, ch')" by (cases "decrypt L f ch")
  with laws Decrypt sized_decrypt_Inl [of ch L f _ ch'] sized_decrypt_Inr [of L ch f _ ch'] show ?thesis by (cases r) auto
qed

lemma sized_run_calls: "dh_laws L \<Longrightarrow> hkdf_laws L \<Longrightarrow> sized_keys ch \<Longrightarrow> sized_keys (snd (run_calls L cs ch))"
  by (induction cs arbitrary: ch) (simp_all add: split_beta sized_perform)

section \<open>The exceptions of \<open>encrypt\<close>\<close>

definition peer_key_refused :: "cryptolib \<Rightarrow> send_env \<Rightarrow> channel \<Rightarrow> bool" where
  "peer_key_refused L env ch \<longleftrightarrow> (\<exists>e. x_exchange L (fresh_priv env) (peer_ratchet_pub ch) = Inl e)"

lemma send_dh_Inl:
  assumes "dh_laws L" and "lib_errors L" and "sized_keys ch"
  shows "send_dh L env ch = Inl e \<longleftrightarrow> e = ValueError \<and> peer_key_refused L env ch"
proof -
  have load: "x25519_public_from_bytes L (peer_ratchet_pub ch) = Inr (peer_ratchet_pub ch)"
    using x_load_32 [OF assms(1)] assms(3) by (simp add: sized_keys_def)
  show ?thesis
  proof (cases "x_exchange L (fresh_priv env) (peer_ratchet_pub ch)")
    case (Inl x)
    then have "x = Lib_ValueError" using assms(2) unfolding lib_errors_def by blast
    with Inl load show ?thesis by (auto simp: send_dh_def derive_shared_secret_def peer_key_refused_def)
  next
    case (Inr k)
    with load show ?thesis by (simp add: send_dh_def derive_shared_secret_def peer_key_refused_def)
  qed
qed

lemma seal_frame_overflow: "\<not> c < 256 ^ 8 \<Longrightarrow> seal_frame L k c h padding p = Inl OverflowError"
  by (simp add: seal_frame_def counter_to_nonce_def to_bytes_def)

lemma seal_frame_total:
  assumes "aead_laws L" and "length k = 32" and "length h \<le> 33" and "length p < 2 ^ 30"
  shows "if c < 256 ^ 8 then \<exists>f. seal_frame L k c h padding p = Inr f else seal_frame L k c h padding p = Inl OverflowError"
  using seal_frame_ok [OF assms(1,2) _ assms(3,4), of c padding] seal_frame_overflow [of c L k h padding p] by auto

lemma encrypt_outcome:
  assumes laws: "dh_laws L" "aead_laws L" "lib_errors L" and "sized_keys ch" and small: "length p < 2 ^ 30"
  shows "if rekey_due env ch \<and> peer_key_refused L env ch then encrypt L env p ch = (Inl ValueError, ch)
    else if send_counter ch < 256 ^ 8 then \<exists>f. fst (encrypt L env p ch) = Inr f
    else fst (encrypt L env p ch) = Inl OverflowError"
proof (cases rule: encrypt_cases [of env ch L p])
  case plain
  with seal_frame_total [OF laws(2) length_next_key(1) _ small, of "[FLAG_NO_REKEY]" "send_counter ch" "send_chain ch" "pad_messages ch"]
  show ?thesis by (simp add: encrypt_with_header_eq)
next
  case (rekey dh lg)
  have "length (FLAG_REKEY # x_public L (fresh_priv env)) \<le> 33"
    using laws(1) by (simp add: dh_laws_def)
  note t = seal_frame_total [OF laws(2) length_next_key(1) this small]
  have "\<not> peer_key_refused L env ch"
    using send_dh_Inl [OF laws(1,3) assms(4), of env ValueError] rekey(2) by simp
  with rekey(3) t [of "send_counter ch" "new_sending_chain (snd (dh_ratchet_step L (root_key ch) dh))" "pad_messages ch"]
  show ?thesis by (simp add: encrypt_with_header_eq)
next
  case (refused e)
  with send_dh_Inl [OF laws(1,3) assms(4)] show ?thesis by auto
qed

end
