(* ===== verification/Spec2Isabelle.thy ===== *)
theory Spec2Isabelle
  imports Program_Properties Window_Properties Channel_Types
begin

text \<open>
  A verification development of the secure messenger under \<open>src/\<close>: two parties that know each
  other's long-term keys shake hands over TCP and then exchange messages and files over a
  channel with a double ratchet. The program has four layers.

  \<^item> Cryptography: \<open>crypto_utils.py\<close> wraps a third-party package, \<open>padding.py\<close> hides lengths,
    \<open>ratchet.py\<close> derives a key per message, \<open>secure_channel.py\<close> turns plaintexts into frames and
    back, and \<open>handshake.py\<close> authenticates two parties and builds a channel for each.
  \<^item> State that outlives a connection: \<open>identity.py\<close> (key files and the trust store),
    \<open>rate_limiter.py\<close> (an in-memory and an SQLite limiter), \<open>history.py\<close> (the encrypted chat
    history) and \<open>audit_log.py\<close>.
  \<^item> Transport: \<open>transport.py\<close>, frames with a length prefix, of bytes or JSON.
  \<^item> Programs: \<open>server.py\<close> and \<open>client.py\<close> at the terminal, and \<open>gui.py\<close> with a thread per peer
    that reconnects, transfers files and talks to the window through a queue of events.

  \<^bold>\<open>Theories.\<close> They follow the files.

  \<^item> \<open>Prelude\<close>: the exceptions (\<open>exn\<close>), fallible results (\<open>exn + 'a\<close>, \<open>bind_exn\<close>), bytes
    (\<open>8 word\<close>), big-endian numbers, hexadecimal text, dictionaries as association lists in
    order of insertion, and the lemma collections. \<open>Sha256\<close>: SHA-256 and HMAC on 32-bit words.
    \<open>Utf8\<close>, \<open>Json\<close>, \<open>Json_Laws\<close>: what the program uses of \<open>str\<close> and \<open>json\<close>. A string is the list
    of the bytes of its encoding, lone surrogates included, so \<open>utf8_ok\<close> separates what
    \<open>encode\<close> accepts.
  \<^item> \<open>Audit_Log\<close>: \<open>EventCode\<close>, the levels, \<open>security\<close>; each object keeps the list of the events
    it logged. \<open>Audit_Format\<close>: the formatter, and the lines of the log. \<open>Crypto_Utils\<close>: the record
    \<open>cryptolib\<close> of the operations of the package, the laws on them as predicates, and the wrappers.
    \<open>Padding\<close>, \<open>Ratchet\<close>, \<open>Replay_Window\<close>, \<open>Secure_Channel\<close>: the modules of the same names; the
    replay window is the part of \<open>SecureChannel\<close> behind \<open>_check_freshness\<close> and \<open>_mark_seen\<close>.
  \<^item> \<open>Channel_Session\<close>, \<open>Channel_Safety\<close> and \<open>Channel_Types\<close> are proofs: two channels that move in
    step, one channel under arbitrary calls, and the lengths of the keys it holds.
  \<^item> \<open>Rate_Limiter\<close>: both limiters and the simulation between them. \<open>Identity\<close>: \<open>Identity\<close>,
    \<open>TrustStore\<close> and their files. \<open>Handshake\<close>: the three messages, the four steps and the
    derivation of the channel. \<open>Transport\<close>: a socket delivers its bytes in arbitrary pieces.
    \<open>History\<close>: the history, and the contract of a journal that it implements.
  \<^item> \<open>Endpoint\<close>: what the two terminal programs share (start, introduction, trust dialogue, the
    loop of a chat). \<open>Server\<close>: \<open>handle_connection\<close> and \<open>main\<close> of \<open>server.py\<close>. \<open>Client\<close>: \<open>main\<close> of
    \<open>client.py\<close>. \<open>Server_Safety\<close>: what a connection does to the server's books.
  \<^item> \<open>File_Transfer\<close> and \<open>Peer_Worker\<close>: the worker thread of \<open>gui.py\<close>, its receiving side and the
    rest. \<open>Transfer_Safety\<close>: the invariant of the open transfers.
  \<^item> \<open>App\<close>: \<open>SecureCommsApp\<close>, the window's books of tabs and workers, its actions and the handling
    of every event. \<open>Notification\<close>: the commands of \<open>_notify_desktop\<close>. \<open>App_Safety\<close>: what an event can
    change (\<open>effect\<close>), the invariant of the books, the events that raise nothing (\<open>sane\<close>).
    \<open>Worker_Safety\<close> joins the two sides: a worker emits nothing else, whatever its peer sends.
  \<^item> \<open>Demo_Lib\<close> and \<open>Demo_Session\<close>: a concrete instance of the package (without any strength) and
    two parties, on which the witnesses evaluate the properties.
  \<^item> \<open>Program_Properties\<close>, \<open>Window_Properties\<close> and this theory: the properties, each followed by its
    witness.

  \<^bold>\<open>State and effects.\<close> A class is a record, a method a function from the object to its result
  and the object after it; \<open>raise\<close> is \<open>Inl\<close>, and an exception keeps the changes made before it.
  Steps of a program are functions \<open>'s \<Rightarrow> (exn + 'a) \<times> 's\<close>, put together by \<open>and_next\<close>. Files
  are a map from paths to contents. Integers are \<open>nat\<close> or \<open>int\<close> as in Python; times are real
  numbers. What comes from outside is an argument: clock readings, random bytes and fresh
  keys, the answers of the human, the pieces a socket delivers, whether an operation on the
  disk succeeds.

  \<^bold>\<open>Parameters and hypotheses.\<close> The package behind \<open>crypto_utils.py\<close> is a record of functions.
  \<open>dh_laws\<close> (both sides of an exchange agree), \<open>aead_laws\<close> (decryption inverts encryption),
  \<open>signature_laws\<close>, \<open>scrypt_laws\<close>, \<open>hkdf_laws\<close>, \<open>pem_laws\<close>, \<open>aead_shrinks\<close> (a plaintext is not longer
  than its ciphertext) and \<open>lib_errors\<close> (which exceptions are raised) are its documented behaviour.
  \<open>aead_authentic\<close> and \<open>signatures_bind\<close> idealise it: what decrypts was encrypted under the same
  key, and a signature verifies for one message and key. The instance \<open>demo\<close> shows that all of
  them can hold together. How \<open>str\<close> writes a float or a container is a parameter of the file offers, how a
  time is shown one of the window, how \<open>repr\<close> writes a float one of the log.

  \<^bold>\<open>The lemmas.\<close> Interfaces are locales: the chain contract (\<open>Ratchet\<close>), the replay window, a
  limiter (both limiters are interpretations, and so is the simulation between them), framing,
  codecs of the handshake messages, pins, the journal. The properties rest on
  their interpretations and on the invariants of the channel (\<open>channel_inv\<close>, \<open>in_step\<close>), of
  the server's books (\<open>server_sound\<close>, \<open>kept_since\<close>), of the transfers (\<open>transfers_inv\<close>), of a
  worker's events (\<open>sane_worker\<close>, along \<open>worker_reaches\<close>), of the key lengths (\<open>sized_keys\<close>) and of
  the window (\<open>app_inv\<close>).

  \<^bold>\<open>Loops.\<close> All definitions are total. The parser \<open>loads\<close> has fuel, twice the length of the text
  and two more, and \<open>Json_Laws\<close> shows that it suffices for what \<open>dumps\<close> writes. The chat loop
  recurses only if a frame was read; \<open>chat_loops_end\<close> shows that the test never fails. The search
  for a free file name ends since a name with more than 255 bytes does not exist. The loops of
  the server, of the worker and of the window consume a list of what happens in each pass;
  its end is the moment the program is stopped.

  \<^bold>\<open>Not modelled.\<close> Threads: the methods of an object run one after the other, and a lock changes
  nothing; so the races that the comments of \<open>gui.py\<close> discuss, and what \<open>stop\<close> does to a socket in
  use, are out of scope. The widgets of Tk, their layout and wording; the balloon of Windows, which
  is calls of an optional package and a thread that pumps its messages; the rendering of time
  stamps, and the wording of the log's messages. Errors of the file system other than those
  listed in \<open>disk_luck\<close> and \<open>disk\<close>. \<open>KeyboardInterrupt\<close>. Tests and documentation.
\<close>

section \<open>Sessions\<close>



section \<open>One channel under any calls\<close>

text \<open>
  C2: Whatever calls are made on a new channel, with whatever frames, no counter is accepted
  twice.
\<close>

theorem no_counter_accepted_twice:
  "distinct (accepted (fst (run_calls L cs (new_channel L sk rk r0 priv pub ps now))))"
  using run_calls_inv [OF new_channel_inv, of L cs] by blast

text \<open>
  C3: The counters of the frames a channel emits grow strictly in any sequence of calls, so
  no two of them, whatever chain they are on, have the same nonce.
\<close>

theorem emitted_counters_increase:
  assumes "dh_laws L"
  shows "sorted_wrt (<) (emitted (fst (run_calls L cs ch))) \<and>
    (\<forall>i j n. i < j \<and> j < length (emitted (fst (run_calls L cs ch))) \<and>
       counter_to_nonce (emitted (fst (run_calls L cs ch)) ! i) = Inr n \<longrightarrow>
       counter_to_nonce (emitted (fst (run_calls L cs ch)) ! j) \<noteq> Inr n)"
proof -
  let ?e = "emitted (fst (run_calls L cs ch))"
  have "sorted_wrt (<) ?e"
    using run_calls_emitted [OF assms] by blast
  moreover from this have "?e ! i < ?e ! j" if "i < j" "j < length ?e" for i j
    using that by (simp add: sorted_wrt_iff_nth_less)
  ultimately show ?thesis
    using counter_to_nonce_inject by (metis less_irrefl)
qed

lemma emitted_counters_increase_witness:
  "sorted_wrt (<) (emitted (fst (run_calls demo
     [Encrypt \<lparr>clock_start = 1, fresh_priv = [6], clock_rekey = 1\<rparr> [7], Decrypt [1],
      Encrypt \<lparr>clock_start = 400, fresh_priv = [6], clock_rekey = 400\<rparr> [8]] demo_channel)))"
  using emitted_counters_increase [OF demo_dh] by blast

text \<open>
  C4: A frame that is accepted is the frame of its counter under the key the channel expects
  for it: header and counter are authenticated, and the ciphertext is the encryption of the
  payload the plaintext is taken from.
\<close>

theorem accepted_frame_genuine:
  assumes "aead_authentic L" and "decrypt L f ch = (Inr p, ch')"
  shows "\<exists>np c key nonce payload ct.
    f = frame_header np c @ ct \<and> fst (check_freshness c ch) = Inr () \<and>
    expected_key L ch np c = Inr key \<and> counter_to_nonce c = Inr nonce \<and>
    gcm_encrypt L key nonce payload (frame_header np c) = Inr ct \<and>
    (if pad_messages ch then unpad payload else Inr payload) = Inr p"
proof (rule decrypt_accepts [OF assms(2)])
  fix np c ct mk nonce payload
  assume f: "f = frame_header np c @ ct" "passes_window c ch" "expected_key L ch np c = Inr mk"
    "counter_to_nonce c = Inr nonce" and d: "aes_gcm_decrypt L mk nonce ct (frame_header np c) = Inr payload"
    and p: "(if pad_messages ch then unpad payload else Inr payload) = Inr p"
  from d have "gcm_decrypt L mk nonce ct (frame_header np c) = Inr payload"
    by (simp add: aes_gcm_decrypt_def map_sum_Inr)
  with assms(1) have "gcm_encrypt L mk nonce payload (frame_header np c) = Inr ct"
    unfolding aead_authentic_def by blast
  with f p show ?thesis
    unfolding passes_window_def by blast
qed

lemma accepted_frame_genuine_witness:
  "\<exists>f np c key nonce payload ct. f = frame_header np c @ ct \<and>
     expected_key demo (new_channel demo [2] [1] [3] [5] (demo_pub [4]) default_params 0) np c = Inr key \<and>
     gcm_encrypt demo key nonce payload (frame_header np c) = Inr ct \<and> unpad payload = Inr [9]"
proof -
  let ?ch = "new_channel demo [2] [1] [3] [5] (demo_pub [4]) default_params 0"
  obtain f b where dec: "decrypt demo f ?ch = (Inr [9], b)"
    using demo_exchange_of_channels by blast
  have pm: "pad_messages ?ch = True"
    by (simp add: new_channel_def default_params_def)
  from accepted_frame_genuine [OF demo_authentic dec] show ?thesis
    unfolding pm if_True by blast
qed

text \<open>
  C9: A frame that is not accepted leaves everything of the channel as it was but for the
  audit log and the position and cache of receiving chains, whose starting counters stay;
  and one that announces a ratchet key changes the audit log only, so no root key, chain,
  window or ratchet key moves before a frame is authenticated.
\<close>

theorem rejected_frame_state:
  assumes "decrypt L f ch = (Inl e, ch')"
  shows "ch' = ch\<lparr>audit := audit ch', recv_chains := recv_chains ch'\<rparr> \<and>
    keys (recv_chains ch') = keys (recv_chains ch) \<and>
    (\<forall>np c aad ct. parse_frame f = Inr (np, c, aad, ct) \<and> announces np ch \<longrightarrow>
      ch' = ch\<lparr>audit := audit ch'\<rparr>)"
  using decrypt_Inl_state [OF assms] decrypt_announced_Inl_state [OF assms]
  unfolding only_caches_differ_def by blast

lemma rejected_frame_state_witness:
  "\<exists>ch'. decrypt demo (frame_header None 5) demo_channel = (Inl (TamperError Tag_Mismatch), ch') \<and>
     keys (recv_chains ch') = keys (recv_chains demo_channel) \<and> root_key ch' = root_key demo_channel"
proof -
  have "5 \<le> MAX_SKIP"
    by (simp add: MAX_SKIP_def)
  then obtain ch' where "decrypt demo (frame_header None 5) demo_channel = (Inl (TamperError Tag_Mismatch), ch')"
    using demo_forged by blast
  moreover from rejected_frame_state [OF this]
  have eq: "ch' = demo_channel\<lparr>audit := audit ch', recv_chains := recv_chains ch'\<rparr>"
    and "keys (recv_chains ch') = keys (recv_chains demo_channel)" by blast+
  moreover have "root_key ch' = root_key demo_channel"
    using arg_cong [OF eq, of root_key] by simp
  ultimately show ?thesis by blast
qed



text \<open>
  C27: After any sequence of calls on a new channel, the messages sent since its last rekey
  are at most the configured interval (one, if the interval is not positive).
\<close>

theorem messages_per_epoch:
  "int (messages_since_rekey (snd (run_calls L cs (new_channel L sk rk r0 priv pub ps now)))) \<le>
     max 1 (rekey_interval (snd (run_calls L cs (new_channel L sk rk r0 priv pub ps now))))"
  using run_calls_inv [OF new_channel_inv, of L cs] unfolding channel_inv_def by blast

text \<open>
  C13: A channel that starts with keys of 32 bytes holds only keys of 32 bytes, after any calls:
  root key, ratchet keys, the key of every chain and every cached message key. So \<open>encrypt\<close>
  never fails on a key of its own: below a gigabyte it returns a frame, unless a rekey is due
  and the exchange refuses the peer's ratchet key, or the counter has outgrown its eight bytes.
\<close>

theorem channel_keys_sized:
  assumes "dh_laws L" and "hkdf_laws L" and "aead_laws L" and "lib_errors L"
    and "length sk = 32" and "length rk = 32" and "length r0 = 32" and "length pub = 32" and "length p < 2 ^ 30"
    and "run_calls L cs (new_channel L sk rk r0 priv pub ps now) = (results, ch)"
  shows "sized_keys ch \<and>
    (rekey_due env ch \<and> peer_key_refused L env ch \<longrightarrow> encrypt L env p ch = (Inl ValueError, ch)) \<and>
    (\<not> (rekey_due env ch \<and> peer_key_refused L env ch) \<longrightarrow>
      (if send_counter ch < 256 ^ 8 then \<exists>f. fst (encrypt L env p ch) = Inr f
       else fst (encrypt L env p ch) = Inl OverflowError))"
proof -
  have "sized_keys ch"
    using sized_run_calls [OF assms(1,2) sized_new_channel [OF assms(1,5-8)], of cs priv ps now] assms(10) by simp
  with encrypt_outcome [OF assms(1,3,4) this assms(9), of env] show ?thesis by auto
qed

lemma channel_keys_sized_witness:
  "sized_keys (snd (run_calls demo [Decrypt [7]]
     (new_channel demo (replicate 32 1) (replicate 32 2) (replicate 32 3) [5] (demo_pub [6]) default_params 0)))"
proof -
  let ?run = "run_calls demo [Decrypt [7]]
     (new_channel demo (replicate 32 1) (replicate 32 2) (replicate 32 3) [5] (demo_pub [6]) default_params 0)"
  have "?run = (fst ?run, snd ?run)" by (rule prod.collapse [symmetric])
  from channel_keys_sized [OF demo_dh demo_hkdf demo_aead demo_errors _ _ _ _ _ this, of "[]"] show ?thesis by simp
qed

text \<open>
  C28: With padding on, the length of an emitted frame is determined by the bucket of the
  message and by whether the frame announces a ratchet key.
\<close>

theorem frame_length:
  assumes "dh_laws L" and "aead_laws L" and "channel_inv seen ch" and "pad_messages ch"
    and "bucket_for (length p + 4) < gcm_limit" and "encrypt L env p ch = (Inr f, ch')"
  shows "length f = (if rekey_due env ch then 41 else 9) + bucket_for (length p + 4) + 16"
  by (rule encrypt_length [OF assms])

lemma frame_length_witness:
  "\<exists>f ch'. encrypt demo \<lparr>clock_start = 1, fresh_priv = [6], clock_rekey = 1\<rparr> [9] demo_channel = (Inr f, ch') \<and>
     length f = 57"
proof -
  let ?env = "\<lparr>clock_start = 1, fresh_priv = [6], clock_rekey = 1\<rparr>"
  obtain f ch' where enc: "encrypt demo ?env [9] demo_channel = (Inr f, ch')"
    using demo_exchange_of_channels by blast
  have "pad_messages demo_channel" "\<not> rekey_due ?env demo_channel"
    by (simp_all add: rekey_due_def count_due_def time_due_def demo_channel_def new_channel_def default_params_def
        DEFAULT_REKEY_INTERVAL_def DEFAULT_REKEY_INTERVAL_SECONDS_def)
  moreover have "bucket_for (length [9 :: byte] + 4) < gcm_limit" "bucket_for (length [9 :: byte] + 4) = 32"
    by (simp_all add: bucket_for_cases gcm_limit_def)
  ultimately have "length f = 57"
    using frame_length [OF demo_dh demo_aead demo_channel_inv _ _ enc] by simp
  with enc show ?thesis by blast
qed

section \<open>The handshake\<close>

text \<open>
  C25: If the ephemeral key of either message was exchanged on the way, the initiator refuses
  the responder's genuine signature, logs the failure and creates no channel.
\<close>

theorem initiator_refuses_swapped_key:
  assumes "signature_laws L" and "signatures_bind L" and "genuine L r" and "pinned_by r i"
    and "initiator_start L (self i) (eph i) = (msg1, st)"
    and "responder_respond L (self r) msg1' (eph r) = (msg2, st_r)"
    and "m1_epk msg1' \<noteq> m1_epk msg1 \<or> epk \<noteq> m2_epk msg2" and "length epk = 32" and "dh_laws L"
  shows "initiator_finish L (self i) (store i) st (msg2\<lparr>m2_epk := epk\<rparr>) now =
    (Inl (HandshakeError (Signature_Failed (JStr (id_name (self r))))),
     [handshake_event HANDSHAKE_SIG_FAIL ''initiator'' (JStr (id_name (self r)))])"
  by (rule initiator_refuses_substitution [OF assms])

lemma initiator_refuses_swapped_key_witness:
  "fst (initiator_finish demo (self alice) (store alice) (snd (initiator_start demo (self alice) (eph alice)))
     ((fst (responder_respond demo (self bob) (fst (initiator_start demo (self alice) (eph alice))) (eph bob)))
       \<lparr>m2_epk := demo_pub [9]\<rparr>) 0) =
   Inl (HandshakeError (Signature_Failed (JStr ''bob'')))"
proof -
  let ?s = "initiator_start demo (self alice) (eph alice)"
  let ?r = "responder_respond demo (self bob) (fst ?s) (eph bob)"
  have "m2_epk (fst ?r) = demo_pub [4]"
    by (simp add: responder_respond_def generate_x25519_keypair_def bob_def demo_party_def)
  then have "demo_pub [9] \<noteq> m2_epk (fst ?r)"
    by (simp add: demo_pub_inject)
  then have "initiator_finish demo (self alice) (store alice) (snd ?s) ((fst ?r)\<lparr>m2_epk := demo_pub [9]\<rparr>) 0 =
      (Inl (HandshakeError (Signature_Failed (JStr (id_name (self bob))))),
       [handshake_event HANDSHAKE_SIG_FAIL ''initiator'' (JStr (id_name (self bob)))])"
    by (intro initiator_refuses_swapped_key
          [OF demo_signatures demo_bind demo_parties(2,4) prod.collapse [symmetric] prod.collapse [symmetric]])
      (simp_all add: demo_dh)
  then show ?thesis
    by (simp add: bob_def demo_party_def new_identity_def)
qed

text \<open>
  C26: The responder refuses the signature of an initiator that saw another pair of
  ephemeral keys than the responder's own, logs the failure and creates no channel.
\<close>

theorem responder_refuses_swapped_key:
  assumes "signature_laws L" and "signatures_bind L" and "genuine L i" and "pinned_by i r"
    and "initiator_finish L (self i) (store i) st_i msg2' t = (Inr (msg3, ch), evs)"
    and "responder_respond L (self r) msg1' (eph r) = (msg2, st)" and "m1_name msg1' = JStr (id_name (self i))"
    and "m1_epk msg1' \<noteq> is_epk_bytes st_i \<or> m2_epk msg2' \<noteq> m2_epk msg2" and "dh_laws L"
  shows "responder_finish L (store r) st msg3 now =
    (Inl (HandshakeError (Signature_Failed (JStr (id_name (self i))))),
     [handshake_event HANDSHAKE_SIG_FAIL ''responder'' (JStr (id_name (self i)))])"
  by (rule responder_refuses_substitution [OF assms])

lemma responder_refuses_swapped_key_witness:
  "\<exists>msg3 ch evs.
     initiator_finish demo (self alice) (store alice) (snd (initiator_start demo (self alice) (eph alice)))
       (fst (responder_respond demo (self bob) (fst (initiator_start demo (self alice) (eph alice))) (eph bob))) 0 =
       (Inr (msg3, ch), evs) \<and>
     fst (responder_finish demo (store bob)
       (snd (responder_respond demo (self bob) (fst (initiator_start demo (self alice) [8])) (eph bob))) msg3 0) =
     Inl (HandshakeError (Signature_Failed (JStr ''alice'')))"
proof -
  let ?s = "initiator_start demo (self alice) (eph alice)" and ?s' = "initiator_start demo (self alice) [8]"
  let ?r = "responder_respond demo (self bob) (fst ?s) (eph bob)"
  let ?r' = "responder_respond demo (self bob) (fst ?s') (eph bob)"
  obtain x evs where fin: "initiator_finish demo (self alice) (store alice) (snd ?s) (fst ?r) 0 = (x, evs)"
    by (cases "initiator_finish demo (self alice) (store alice) (snd ?s) (fst ?r) 0")
  obtain a b where "honest_handshake demo alice bob = Inr (a, b)"
    by (rule honest_handshake_completes [OF demo_dh demo_signatures demo_parties])
  then obtain msg3 ch where x: "x = Inr (msg3, ch)"
    using fin by (auto simp: honest_handshake_def split_beta bind_exn_Inr alice_def demo_party_def)
  have "responder_finish demo (store bob) (snd ?r') msg3 0 =
      (Inl (HandshakeError (Signature_Failed (JStr (id_name (self alice))))),
       [handshake_event HANDSHAKE_SIG_FAIL ''responder'' (JStr (id_name (self alice)))])"
    by (rule responder_refuses_swapped_key [OF demo_signatures demo_bind demo_parties(1,3) fin [unfolded x]
          prod.collapse [symmetric]])
      (simp_all add: initiator_start_def generate_x25519_keypair_def alice_def demo_party_def demo_dh
        demo_pub_inject)
  with fin x show ?thesis
    by (simp add: alice_def demo_party_def new_identity_def)
qed






text \<open>Reading the wire form of each handshake message gives the message back.\<close>

theorem handshake_wire_roundtrip:
  "from_wire1 (to_wire1 m1) = Inr m1 \<and> from_wire2 (to_wire2 m2) = Inr m2 \<and> from_wire3 (to_wire3 m3) = Inr m3"
  by (simp add: wire1.dec_enc wire2.dec_enc wire3.dec_enc)

section \<open>The ratchet\<close>

text \<open>
  C20: A receiving chain hands out the keys of the sending chain that started at the same
  chain key, whatever the order in which distinct counters up to the skip limit are asked.
\<close>

theorem any_order_delivery:
  assumes "distinct cs" and "\<forall>c \<in> set cs. c < n \<and> c \<le> MAX_SKIP"
  shows "fst (receive_keys cs (new_receiving_chain ck)) =
    map (\<lambda>c. Inr (snd (fst (send_keys n (new_sending_chain ck)) ! c))) cs"
proof -
  have "fst (send_keys n (new_sending_chain ck)) = map (\<lambda>i. (i, nth_message_key ck i)) [0 ..< n]"
    using send_keys_eq [OF sends_new [of ck], of n] by (simp add: new_sending_chain_def)
  moreover have "all_cached {} (new_receiving_chain ck)"
    by (simp add: all_cached_def new_receiving_chain_def)
  ultimately show ?thesis
    using receive_keys_eq [OF receives_new _ assms(1), of "{}" ck] assms(2) by auto
qed

lemma any_order_delivery_witness:
  "fst (receive_keys [2, 0, 1] (new_receiving_chain [5])) =
     map (\<lambda>c. Inr (snd (fst (send_keys 3 (new_sending_chain [5])) ! c))) [2, 0, 1]"
  by (rule any_order_delivery) (simp_all add: MAX_SKIP_def)

text \<open>
  C29: \<open>key_for\<close> returns the right key, or refuses a counter that is neither cached nor
  within the skip limit, and then leaves the chain as it was; no call advances the chain by
  more than the skip limit and one, and the cache never holds more than the limit.
\<close>

theorem key_for_outcome:
  assumes "receives ck rc" and "key_for c rc = (r, rc')"
  shows "r = (if available c rc then Inr (nth_message_key ck c)
      else Inl (ChainDesync (if c < rc_next rc then Already_Passed c else Too_Far_Ahead c (rc_next rc)))) \<and>
    (\<not> available c rc \<longrightarrow> rc' = rc) \<and>
    rc_next rc' \<le> rc_next rc + MAX_SKIP + 1 \<and> length (rc_skipped rc') \<le> MAX_SKIP"
  using key_for_result [OF assms(1), of c] key_for_unavailable [of c rc] key_for_step_bound [OF assms]
    receives_key_for [OF assms(1), of c] assms(2)
  by (auto simp: receives_def)

lemma key_for_outcome_witness:
  "fst (key_for 2000 (new_receiving_chain [5])) = Inl (ChainDesync (Too_Far_Ahead 2000 0)) \<and>
   fst (key_for 1024 (new_receiving_chain [5])) = Inr (nth_message_key [5] 1024)"
  using key_for_outcome [OF receives_new [of "[5]"], of 2000, OF prod.collapse [symmetric]]
    key_for_outcome [OF receives_new [of "[5]"], of 1024, OF prod.collapse [symmetric]]
  by (simp add: available_def new_receiving_chain_def MAX_SKIP_def)

text \<open>
  C30: A key that was handed out is never handed out again, whatever keys are asked for in
  between.
\<close>

theorem key_handed_out_once:
  assumes "receives ck rc" and "key_for c rc = (Inr k, rc')"
  shows "fst (key_for c (snd (receive_keys ds rc'))) = Inl (ChainDesync (Already_Passed c))"
proof -
  have "receives ck rc'" "spent c rc'"
    using receives_key_for [OF assms(1), of c] key_for_consumes [OF assms] assms(2) by (simp_all add: spent_def)
  from receive_keys_spent [OF this, of ds] show ?thesis
    by (simp add: key_for_unavailable spent_def)
qed

lemma key_handed_out_once_witness:
  "fst (key_for 0 (snd (receive_keys [3, 1] (snd (key_for 0 (new_receiving_chain [5])))))) =
     Inl (ChainDesync (Already_Passed 0))"
proof (rule key_handed_out_once [OF receives_new])
  have "fst (key_for 0 (new_receiving_chain [5])) = Inr (nth_message_key [5] 0)"
    using key_for_result [OF receives_new [of "[5]"], of 0] by (simp add: available_def new_receiving_chain_def)
  then show "key_for 0 (new_receiving_chain [5]) =
      (Inr (nth_message_key [5] 0), snd (key_for 0 (new_receiving_chain [5])))"
    by (metis prod.collapse)
qed

section \<open>The replay window\<close>

text \<open>
  C21: Over any stream of counters, the filter of a new channel passes a counter exactly if
  it was not passed before and is not older than the window below the greatest one passed.
\<close>

theorem replay_window_admits:
  "fst (admit cs (new_channel L sk rk r0 priv pub ps now)) = admit_spec (p_window_size ps) cs {}"
proof -
  have "window_repr {} (new_channel L sk rk r0 priv pub ps now)"
    using new_channel_inv unfolding channel_inv_def by blast
  from admit_eq [OF this, of cs] show ?thesis
    by (simp add: new_channel_def)
qed

section \<open>Padding\<close>

text \<open>
  C38: Every plaintext up to the limit can be padded, \<open>unpad\<close> gives it back, and the padded
  size is the least allowed size that holds the length prefix and the plaintext.
\<close>

theorem padding_roundtrip:
  assumes "length p \<le> MAX_PLAINTEXT_SIZE"
  shows "\<exists>q. pad p = Inr q \<and> unpad q = Inr p \<and> allowed_size (length q) \<and> length p + 4 \<le> length q \<and>
    (\<forall>m. allowed_size m \<and> length p + 4 \<le> m \<longrightarrow> length q \<le> m)"
proof -
  obtain q where q: "pad p = Inr q"
    using pad_total [OF assms] by blast
  then show ?thesis
    using padded.dec_enc [OF q] bucket_for_allowed bucket_for_ge bucket_for_least
    by (auto simp: length_of_pad [OF q])
qed

lemma padding_roundtrip_witness:
  "\<exists>q. pad [1, 2, 3] = Inr q \<and> unpad q = Inr [1, 2, 3] \<and> length q = 32"
proof -
  obtain q where "pad [1, 2, 3] = Inr q" "unpad q = Inr [1, 2, 3]"
    using padding_roundtrip [of "[1, 2, 3]"] by (auto simp: MAX_PLAINTEXT_SIZE_def)
  moreover from this(1) have "length q = 32"
    by (simp add: length_of_pad bucket_for_cases)
  ultimately show ?thesis by blast
qed

text \<open>
  \<open>unpad\<close> reads a prefix of the announced length behind the four length bytes, and
  refuses exactly the data that does not hold that much; it looks at no other byte.
\<close>

theorem unpad_outcome:
  "unpad q =
     (if length q < 4 then Inl (PaddingError No_Prefix)
      else if length q < 4 + from_bytes (take 4 q) then Inl (PaddingError Length_Exceeds)
      else Inr (take (from_bytes (take 4 q)) (drop 4 q))) \<and>
   (\<forall>p. unpad q = Inr p \<longrightarrow> length p \<le> MAX_PLAINTEXT_SIZE \<and> (\<forall>rest. unpad (q @ rest) = Inr p))"
proof -
  have "from_bytes (take 4 q) < 256 ^ 4" if "4 \<le> length q"
    using from_bytes_less [of "take 4 q"] that by (simp add: min_absorb2)
  then show ?thesis
    by (auto simp: unpad_def LENGTH_PREFIX_SIZE_def MAX_PLAINTEXT_SIZE_def Let_def)
qed

lemma unpad_outcome_witness:
  "unpad [0, 0, 0, 2, 7, 8, 0] = Inr [7, 8] \<and> unpad ([0, 0, 0, 2, 7, 8, 0] @ [9]) = Inr [7, 8] \<and>
   unpad [0, 0, 0, 5, 1] = Inl (PaddingError Length_Exceeds)"
proof -
  have "unpad [0, 0, 0, 2, 7, 8, 0] = Inr [7, 8]" "unpad [0, 0, 0, 5, 1] = Inl (PaddingError Length_Exceeds)"
    using unpad_outcome [of "[0, 0, 0, 2, 7, 8, 0]"] unpad_outcome [of "[0, 0, 0, 5, 1]"]
    by (simp_all add: from_bytes_def)
  with unpad_outcome [of "[0, 0, 0, 2, 7, 8, 0]"] show ?thesis by blast
qed

section \<open>The rate limiters\<close>

text \<open>
  C22: As long as the clock does not run backwards, the in-memory limiter and the SQLite
  limiter give the same answer to every call of any sequence.
\<close>

theorem limiters_equivalent:
  assumes "forward_clock now cs"
  shows "fst (run_limiter limit cs (new_rate_limiter m w c)) =
    fst (run_limiter sql_limit cs (new_sqlite_limiter m w c))"
  using mem.run_refines [OF fresh_limiters_repr(1) assms] db.run_refines [OF fresh_limiters_repr(2) assms]
  by simp

lemma limiters_equivalent_witness:
  "fst (run_limiter limit [Failure ''a'' 1, Failure ''b'' 2, Failure ''a'' 3, Is_Blocked ''a'' 4]
     (new_rate_limiter 2 60 30)) =
   fst (run_limiter sql_limit [Failure ''a'' 1, Failure ''b'' 2, Failure ''a'' 3, Is_Blocked ''a'' 4]
     (new_sqlite_limiter 2 60 30))"
  by (rule limiters_equivalent [where now = 0]) simp

text \<open>
  C32: After failures of a key that fall into one window, since the start or its last
  success, and whatever other keys do in between, the key is blocked exactly if the failures
  have reached the maximum, and until the cooldown after the last one is over.
\<close>

theorem blocked_after_failures:
  assumes "forward_clock now (cs @ [Is_Blocked k t])"
    and "filter (\<lambda>c. key_of c = k) cs = pre @ map (Failure k) ts" and "pre = [] \<or> last pre = Success k"
    and "ts \<noteq> []" and "last ts - hd ts \<le> w" and "int (length ts) \<le> m"
  shows "last (fst (run_limiter limit (cs @ [Is_Blocked k t]) (new_rate_limiter m w c))) =
    Blocked (int (length ts) = m \<and> t < last ts + c)"
proof -
  let ?p = "\<lparr>limit_attempts = m, limit_window = w, limit_cooldown = c\<rparr>"
  have "forward_clock now cs"
    using assms(1) by (induction cs arbitrary: now) auto
  from spec_streak [OF this assms(2-4), of ?p t] assms(5,6)
  have verdict: "fst (spec_limit ?p (Is_Blocked k t) (snd (run_limiter (spec_limit ?p) cs (\<lambda>_. clean)))) =
      Blocked (int (length ts) = m \<and> t < last ts + c)"
    by simp
  have "fst (run_limiter limit (cs @ [Is_Blocked k t]) (new_rate_limiter m w c)) =
      fst (run_limiter (spec_limit ?p) (cs @ [Is_Blocked k t]) (\<lambda>_. clean))"
    using mem.run_refines [OF fresh_limiters_repr(1) assms(1)] by blast
  with verdict show ?thesis
    by (simp add: run_limiter_append split_beta del: spec_limit.simps)
qed

lemma blocked_after_failures_witness:
  "last (fst (run_limiter limit
     ([Success ''a'', Failure ''a'' 1, Failure ''b'' 2, Failure ''a'' 3] @ [Is_Blocked ''a'' 32])
     (new_rate_limiter 2 60 30))) = Blocked True"
  using blocked_after_failures [of 0 "[Success ''a'', Failure ''a'' 1, Failure ''b'' 2, Failure ''a'' 3]"
      "''a''" 32 "[Success ''a'']" "[1, 3]" 60 2 30]
  by simp

text \<open>
  C39: In any sequence of calls, with any clock, the database keeps for a key fewer rows than
  the maximum and at most one block; and a failure sweeps every row of every key that is
  older than the window, and every block that is over.
\<close>

theorem database_bounded:
  assumes "0 < m"
  shows "(\<forall>k. int (length (stamps k (attempts (snd (run_limiter sql_limit cs (new_sqlite_limiter m w c)))))) < m) \<and>
    distinct (keys (blocks (snd (run_limiter sql_limit cs (new_sqlite_limiter m w c))))) \<and>
    (\<forall>key now k ts. (k, ts) \<in> set (attempts (sql_record_failure key now
        (snd (run_limiter sql_limit cs (new_sqlite_limiter m w c))))) \<longrightarrow> now - ts \<le> w) \<and>
    (\<forall>key now k u. 0 < c \<and> (k, u) \<in> set (blocks (sql_record_failure key now
        (snd (run_limiter sql_limit cs (new_sqlite_limiter m w c))))) \<longrightarrow> now < u)"
proof -
  let ?db = "snd (run_limiter sql_limit cs (new_sqlite_limiter m w c))"
  have "rows_bounded (new_sqlite_limiter m w c)"
    using assms by (simp add: rows_bounded_def new_sqlite_limiter_def stamps_def)
  then have "rows_bounded ?db" "max_attempts ?db = m"
    using sql_run_bounded [of "new_sqlite_limiter m w c" cs] by (simp_all add: new_sqlite_limiter_def)
  moreover have "window_seconds ?db = w" "cooldown_seconds ?db = c"
    using sql_run_config [of cs "new_sqlite_limiter m w c"] by (simp_all add: new_sqlite_limiter_def)
  ultimately show ?thesis
    using sql_failure_swept [where db = ?db] unfolding rows_bounded_def
    by (smt (verit))
qed

lemma database_bounded_witness:
  "length (stamps ''a'' (attempts (snd (run_limiter sql_limit [Failure ''a'' 1, Failure ''a'' 2, Failure ''a'' 3]
     (new_sqlite_limiter 2 60 30))))) < 2"
  using database_bounded [of 2 "[Failure ''a'' 1, Failure ''a'' 2, Failure ''a'' 3]" 60 30] by force

section \<open>The transport\<close>

text \<open>
  C31: Frames sent one after the other are received one after the other, in whatever pieces
  the bytes arrive, and what follows them stays in the stream.
\<close>

theorem frames_survive_any_chunking:
  assumes "put_all send_bytes datas t = (Inr (), t')" and "pieces_ok (incoming r)"
    and "outgoing t' @ rest = outgoing t @ concat (incoming r)"
  shows "\<exists>r'. get_all recv_bytes (length datas) r = (map Inr datas, r') \<and> concat (incoming r') = rest"
proof -
  have "list_all (\<lambda>_. True) datas" by (simp add: list_all_iff)
  from frames.put_all_get_all [OF this assms] show ?thesis by blast
qed

definition demo_socket :: "bytes list \<Rightarrow> socket" where
  "demo_socket ps = \<lparr>audit = [], incoming = ps, outgoing = [], writable = True, silent = False, deadline = False\<rparr>"

lemma frames_survive_any_chunking_witness:
  "\<exists>r'. get_all recv_bytes 2 (demo_socket [[0, 0], [0, 2, 7], [8, 0, 0, 0], [1, 9], [5]]) =
     ([Inr [7, 8], Inr [9]], r') \<and> concat (incoming r') = [5]"
proof -
  have "put_all send_bytes [[7, 8], [9]] (demo_socket []) =
      (Inr (), (demo_socket [])\<lparr>outgoing := [0, 0, 0, 2, 7, 8, 0, 0, 0, 1, 9]\<rparr>)"
    by (simp add: send_bytes_def sendall_def demo_socket_def MAX_FRAME_SIZE_def HEADER_SIZE_def to_bytes_def be_bytes_4)
  then show ?thesis
    using frames_survive_any_chunking [of "[[7, 8], [9]]" "demo_socket []" _
        "demo_socket [[0, 0], [0, 2, 7], [8, 0, 0, 0], [1, 9], [5]]" "[5]"]
    by (simp add: demo_socket_def pieces_ok_def numeral_2_eq_2 del: get_all.simps put_all.simps)
qed

text \<open>
  The result of \<open>recv_bytes\<close> depends on the bytes of the stream only: it raises
  the exception of a lost connection (\<open>TimeoutError\<close> if the peer fell silent and a timeout is
  set, else \<open>ConnectionError\<close>) exactly if the stream ends inside a frame, refuses a claimed length
  above the limit after the four bytes of the header, and else returns that many bytes.
\<close>

theorem recv_bytes_outcome:
  assumes "pieces_ok (incoming sock)"
  shows "fst (recv_bytes sock) =
      (let s = concat (incoming sock); n = from_bytes (take 4 s)
       in if length s < 4 then Inl (lost sock)
          else if n > MAX_FRAME_SIZE then Inl (FrameError (Claimed_Oversize n))
          else if length s < 4 + n then Inl (lost sock)
          else Inr (take n (drop 4 s))) \<and>
    (\<forall>n. fst (recv_bytes sock) = Inl (FrameError (Claimed_Oversize n)) \<longrightarrow>
      concat (incoming (snd (recv_bytes sock))) = drop 4 (concat (incoming sock)))"
  unfolding Let_def
  by (intro conjI allI impI recv_bytes_stream(1) [OF assms refl, unfolded Let_def] recv_bytes_oversize [OF assms])

lemma recv_bytes_outcome_witness:
  "fst (recv_bytes (demo_socket [[255], [255, 255, 255, 1], [2]])) = Inl (FrameError (Claimed_Oversize 4294967295))"
proof -
  have "pieces_ok (incoming (demo_socket [[255], [255, 255, 255, 1], [2]]))"
    by (simp add: demo_socket_def pieces_ok_def)
  from recv_bytes_outcome [OF this] show ?thesis
    by (simp add: demo_socket_def from_bytes_def MAX_FRAME_SIZE_def Let_def)
qed

section \<open>Identities and trust\<close>

text \<open>
  Whatever pins and first-contact dialogues follow, with whatever keys and answers, a
  name that is pinned stays pinned to the same key.
\<close>

theorem pins_are_kept:
  assumes "pins ts name = Some key"
  shows "pins (fold (trust_step L) cs ts) name = Some key"
  using trust_run_extends [of ts L cs] assms by (auto simp: map_le_def dom_def)

lemma pins_are_kept_witness:
  "pins (fold (trust_step demo) [Pin ''bob'' [1], Ask ''bob'' [2] ''y'', Ask ''eve'' [3] ''y''] (store alice)) ''bob'' =
     Some (demo_pub [2])"
  by (rule pins_are_kept) (simp add: pins_def alice_def demo_party_def)

text \<open>
  C33: The dialogue answers \<open>(True, False)\<close> only if the presented key is the pinned one
  afterwards, and that it was pinned before or the human answered y; it answers
  \<open>(False, True)\<close> exactly if another key is pinned and the stored one is a key; and unless it
  pins on a y, the store does not change.
\<close>

theorem dialogue_verdict:
  assumes "verify_and_pin_interactive L name pub answer ts = (d, ts')" and "verdict d = Inr (trust, mismatch)"
  shows "(trust \<longleftrightarrow> pins ts' name = Some pub) \<and>
    (trust \<longrightarrow> \<not> mismatch \<and> (pins ts name = Some pub \<or> pins ts name = None \<and> lower (strip answer) = ''y'')) \<and>
    (mismatch \<longleftrightarrow> pins ts name \<noteq> None \<and> pins ts name \<noteq> Some pub) \<and>
    (\<not> saved d \<longrightarrow> ts' = ts)"
proof (cases rule: verify_and_pin_cases [of L name pub answer ts])
  case (pinned sh ts1)
  with assms tofu.first [OF pinned(1,3)] show ?thesis by auto
qed (use assms in auto)

lemma dialogue_verdict_witness:
  "pins (snd (verify_and_pin_interactive demo ''eve'' [9] '' y '' (store alice))) ''eve'' = Some [9]"
proof -
  let ?v = "verify_and_pin_interactive demo ''eve'' [9] '' y '' (store alice)"
  have "pins (store alice) ''eve'' = None" "lower (strip '' y '') = ''y''"
    by (simp_all add: pins_def alice_def demo_party_def lower_def strip_def py_space_def Let_def
        code_points.simps decode_point_def text_of_def utf8_char_def char_of_eq_iff)
  then have "verdict (fst ?v) = Inr (True, False)"
    by (cases rule: verify_and_pin_cases [of demo "''eve''" "[9]" "'' y ''" "store alice"])
      (auto simp: trusted_key_def pins_def)
  from dialogue_verdict [OF prod.collapse [symmetric] this] show ?thesis by simp
qed

text \<open>
  The text the store writes, read back and parsed, gives the same pins after any history
  of pins and dialogues about names that are text.
\<close>

theorem trust_file_roundtrip:
  assumes "\<forall>c \<in> set cs. utf8_ok (call_name c)"
  shows "\<exists>ts. load_store path (save_store (fold (trust_step L) cs new_trust_store) path fs) = Inr ts \<and>
     trusted ts = trusted (fold (trust_step L) cs new_trust_store)"
proof (rule load_saved_store)
  show "distinct (keys (trusted (fold (trust_step L) cs new_trust_store)))"
    by (rule trust_run_distinct) (simp add: new_trust_store_def)
  show "list_all utf8_ok (keys (trusted (fold (trust_step L) cs new_trust_store)))"
    using trust_run_names [of L cs new_trust_store] assms
    by (auto simp: new_trust_store_def list_all_iff simp del: set_map)
qed

lemma trust_file_roundtrip_witness:
  "\<exists>ts. load_store ''t'' (save_store (snd (pin (utf8_char 233) [7] new_trust_store)) ''t'' (\<lambda>_. None)) = Inr ts \<and>
     trusted ts = [(utf8_char 233, [7])]"
proof -
  have "utf8_ok (utf8_char 233)"
    using decode_utf8_char [of 233 "[]"] by (simp add: utf8_ok_def code_points.simps surrogate_def utf8_char_def)
  then have "\<forall>c \<in> set [Pin (utf8_char 233) [7]]. utf8_ok (call_name c)" by simp
  from trust_file_roundtrip [OF this, of "''t''" demo "\<lambda>_. None"] show ?thesis
    by (simp add: pin_def new_trust_store_def log_event_def)
qed



text \<open>
  Two keys show the same fingerprint exactly if the first eight bytes of their SHA-256
  digests agree: all of the 64 bits that are shown count, and no other.
\<close>

theorem fingerprint_bits:
  "fingerprint_for_bytes a = fingerprint_for_bytes b \<longleftrightarrow> take 8 (sha256 a) = take 8 (sha256 b)"
  by (rule fingerprint_split)

section \<open>Where the code does not do what it says\<close>

text \<open>
  C40: A forged frame burns the counter it names: after a frame without a new ratchet key
  was rejected for its tag, every other such frame of the same counter, the genuine one
  included, is rejected as already used.
\<close>

theorem forged_frame_burns_counter:
  assumes "channel_inv seen ch" and "parse_frame f = Inr (np, c, aad, ct)" and "\<not> announces np ch"
    and "decrypt L f ch = (Inl (TamperError Tag_Mismatch), ch')"
    and "parse_frame g = Inr (np', c, aad', ct')" and "\<not> announces np' ch"
  shows "\<exists>n lg. decrypt L g ch' = (Inl (TamperError (Desync (Already_Passed n))), ch'\<lparr>audit := lg\<rparr>)"
  by (rule burnt_counter [OF assms])

lemma forged_frame_burns_counter_witness:
  "\<exists>ch' n ch2. decrypt demo (frame_header None 0) demo_channel = (Inl (TamperError Tag_Mismatch), ch') \<and>
     decrypt demo (frame_header None 0 @ [1, 2, 3]) ch' = (Inl (TamperError (Desync (Already_Passed n))), ch2)"
proof -
  obtain ch' where forged: "decrypt demo (frame_header None 0) demo_channel = (Inl (TamperError Tag_Mismatch), ch')"
    using demo_forged [of 0] by auto
  have parse: "parse_frame (frame_header None 0) = Inr (None, 0, frame_header None 0, [])"
    "parse_frame (frame_header None 0 @ [1, 2, 3]) = Inr (None, 0, frame_header None 0, [1, 2, 3])"
    using parse_frame_of_header [of 0 None "[]"] parse_frame_of_header [of 0 None "[1, 2, 3]"] by simp_all
  have "\<not> announces None demo_channel"
    by (simp add: announces_def)
  from forged_frame_burns_counter [OF demo_channel_inv parse(1) this forged parse(2) this] forged show ?thesis
    by blast
qed

text \<open>
  A frame nobody has authenticated makes \<open>decrypt\<close> raise a bare \<open>ValueError\<close>, which
  neither chat loop catches: it only has to announce a key that X25519 refuses, under a
  counter the window passes.
\<close>

theorem refused_key_escapes:
  assumes "dh_laws L" and "lib_errors L" and "length pub = 32" and "c < 256 ^ 8" and "passes_window c ch"
    and "pub \<noteq> peer_ratchet_pub ch" and "refused_key L ch pub"
  shows "decrypt L (frame_header (Some pub) c @ ct) ch = (Inl ValueError, ch)"
  by (rule decrypt_refused_key [OF assms])

lemma refused_key_escapes_witness:
  "decrypt demo (frame_header (Some (replicate 32 0)) 0 @ [1]) demo_channel = (Inl ValueError, demo_channel)"
proof (rule refused_key_escapes [OF demo_dh demo_errors _ _ demo_channel_passes])
  show "replicate 32 0 \<noteq> peer_ratchet_pub demo_channel"
    using demo_pub_nonzero [of "[5]"] by (simp add: demo_channel_def new_channel_def eq_commute)
  show "refused_key demo demo_channel (replicate 32 0)"
    by (simp add: refused_key_def demo_def demo_exchange_def)
qed simp_all

text \<open>
  A counter that the window still passes but that lies below every retained chain makes
  \<open>decrypt\<close> raise a bare \<open>ValueError\<close>, from \<open>max\<close> of nothing, instead of a rejection.
\<close>

theorem uncovered_counter_escapes:
  assumes "c < 256 ^ 8" and "passes_window c ch" and "uncovered ch c"
  shows "decrypt L (frame_header None c @ ct) ch = (Inl ValueError, ch)"
  by (rule decrypt_uncovered [OF assms])

lemma uncovered_counter_escapes_witness:
  "decrypt demo (frame_header None 2 @ [1]) (demo_channel\<lparr>recv_chains := [(5, new_receiving_chain [2])]\<rparr>) =
     (Inl ValueError, demo_channel\<lparr>recv_chains := [(5, new_receiving_chain [2])]\<rparr>)"
proof (rule uncovered_counter_escapes)
  show "passes_window 2 (demo_channel\<lparr>recv_chains := [(5, new_receiving_chain [2])]\<rparr>)"
    by (rule passes_above) (simp add: demo_channel_def new_channel_def)
  show "uncovered (demo_channel\<lparr>recv_chains := [(5, new_receiving_chain [2])]\<rparr>) 2"
    by (simp add: uncovered_def)
qed simp

end
